(* ===== verification/Ralf_Prelude.thy ===== *)
theory Ralf_Prelude
  imports Main "HOL-Library.Word" "HOL-Library.Sublist"
begin

text \<open>
  The vocabulary every component theory shares: the machine integers of the C++ sources
  (\<open>uint32_t\<close>, \<open>uint64_t\<close>), the two views of a C++ string that matter (the
  whole \<open>std::string\<close> and what is left of it after a trip through \<open>c_str()\<close>),
  decimal conversion as \<open>std::to_string\<close> does it, and the conversions between
  \<open>int\<close> and \<open>uint32_t\<close>. The lemmas are generic; no lemma here is about Ralf.
\<close>

section \<open>Collections of facts\<close>

named_theorems io_simps "how the primitive effects change the recorded state"
named_theorems json_simps "the accessors of a parsed JSON document"
named_theorems effect_simps "which effects a model operation can add to the trace"

section \<open>Machine integers\<close>

type_synonym u32 = "32 word"
type_synonym u64 = "64 word"

text \<open>
  \<open>int\<close> is 32 bits wide on the platforms Ralf is built for. A C++ \<open>int\<close> is modelled
  as an \<open>int\<close> in the range below; storing it in a \<open>uint32_t\<close> reduces it modulo
  $2^{32}$, and reading a \<open>uint32_t\<close> as an \<open>int\<close> is two's complement.
\<close>

definition fits_int32 :: "int \<Rightarrow> bool" where
  "fits_int32 i \<longleftrightarrow> - (2 ^ 31) \<le> i \<and> i < 2 ^ 31"

abbreviation u32_of_int :: "int \<Rightarrow> u32" where
  "u32_of_int i \<equiv> word_of_int i"

abbreviation int_of_u32 :: "u32 \<Rightarrow> int" where
  "int_of_u32 w \<equiv> sint w"

lemma fits_int32_sint [simp]: "fits_int32 (sint (w :: u32))"
  using sint_range_size [of w] by (simp add: fits_int32_def word_size)

lemma u32_of_int_of_u32 [simp]: "u32_of_int (int_of_u32 w) = w"
  by simp

lemma int_of_u32_of_int: "fits_int32 i \<Longrightarrow> int_of_u32 (u32_of_int i) = i"
  by (simp add: fits_int32_def signed_of_int signed_take_bit_int_eq_self)

lemma u32_of_int_nonneg: "0 \<le> i \<Longrightarrow> i < 2 ^ 32 \<Longrightarrow> uint (u32_of_int i) = i"
  by (simp add: uint_word_of_int)

lemma u32_of_int_neg:
  assumes "i < 0" "fits_int32 i"
  shows "uint (u32_of_int i) = 2 ^ 32 + i"
proof -
  have "i mod 2 ^ 32 = (i + 2 ^ 32) mod 2 ^ 32" by simp
  also have "\<dots> = i + 2 ^ 32"
    using assms by (intro mod_pos_pos_trivial) (auto simp: fits_int32_def)
  finally show ?thesis by (simp add: uint_word_of_int)
qed

lemma unat_u32_plus_1: "w \<noteq> - 1 \<Longrightarrow> unat (w + 1 :: u32) = unat w + 1"
  by (metis add.commute unatSuc add_eq_0_iff2 Suc_eq_plus1_left)

section \<open>C strings\<close>

text \<open>
  \<open>s.c_str()\<close> handed to an interface that takes a \<open>const char*\<close>, and a
  \<open>const char*\<close> turned back into a \<open>std::string\<close>, both end at the first NUL byte.
\<close>

definition c_str :: "string \<Rightarrow> string" where
  "c_str s = takeWhile (\<lambda>c. c \<noteq> CHR 0x00) s"

lemma c_str_idem [simp]: "c_str (c_str s) = c_str s"
  by (simp add: c_str_def takeWhile_idem)

lemma c_str_id: "CHR 0x00 \<notin> set s \<Longrightarrow> c_str s = s"
  by (auto simp: c_str_def takeWhile_eq_all_conv)

lemma c_str_no_nul [simp]: "CHR 0x00 \<notin> set (c_str s)"
  by (auto simp: c_str_def dest: set_takeWhileD)

lemma c_str_eq_iff: "c_str s = s \<longleftrightarrow> CHR 0x00 \<notin> set s"
  by (metis c_str_id c_str_no_nul)

section \<open>Decimal conversion\<close>

definition digit_char :: "nat \<Rightarrow> char" where
  "digit_char d = ''0123456789'' ! d"

definition digit_val :: "char \<Rightarrow> nat" where
  "digit_val c = of_char c - 48"

definition is_digit :: "char \<Rightarrow> bool" where
  "is_digit c \<longleftrightarrow> c \<in> set ''0123456789''"

fun nat_to_string :: "nat \<Rightarrow> string" where
  "nat_to_string n =
     (if n < 10 then [digit_char n] else nat_to_string (n div 10) @ [digit_char (n mod 10)])"

declare nat_to_string.simps [simp del]

definition to_string :: "int \<Rightarrow> string" where
  "to_string i = (if i < 0 then CHR ''-'' # nat_to_string (nat (- i)) else nat_to_string (nat i))"

definition digits_to_nat :: "string \<Rightarrow> nat" where
  "digits_to_nat s = foldl (\<lambda>a c. 10 * a + digit_val c) 0 s"

lemma less_ten_cases:
  "d < (10::nat) \<Longrightarrow> d = 0 \<or> d = 1 \<or> d = 2 \<or> d = 3 \<or> d = 4 \<or> d = 5 \<or> d = 6 \<or> d = 7 \<or> d = 8 \<or> d = 9"
  by arith

lemma digit_val_char [simp]: "d < 10 \<Longrightarrow> digit_val (digit_char d) = d"
  by (drule less_ten_cases) (auto simp: digit_val_def digit_char_def)

lemma is_digit_digit_char [simp]: "d < 10 \<Longrightarrow> is_digit (digit_char d)"
  by (simp add: is_digit_def digit_char_def nth_mem del: set_simps)

lemma not_is_digit [simp]: "\<not> is_digit CHR ''-''" "\<not> is_digit CHR 0x00"
  by (simp_all add: is_digit_def)

lemma digits_to_nat_append:
  "digits_to_nat (s @ [c]) = 10 * digits_to_nat s + digit_val c"
  by (simp add: digits_to_nat_def)

lemma digits_to_nat_to_string [simp]: "digits_to_nat (nat_to_string n) = n"
proof (induction n rule: nat_to_string.induct)
  case (1 n)
  show ?case
  proof (cases "n < 10")
    case True
    then show ?thesis
      by (subst nat_to_string.simps) (simp add: digits_to_nat_def)
  next
    case False
    then show ?thesis using "1.IH"
      by (subst nat_to_string.simps) (simp add: digits_to_nat_append)
  qed
qed

lemma nat_to_string_digits: "c \<in> set (nat_to_string n) \<Longrightarrow> is_digit c"
proof (induction n rule: nat_to_string.induct)
  case (1 n)
  then show ?case
    by (subst (asm) (2) nat_to_string.simps) (auto split: if_splits)
qed

lemma nat_to_string_inj [simp]: "nat_to_string m = nat_to_string n \<longleftrightarrow> m = n"
  by (metis digits_to_nat_to_string)

lemma nat_to_string_nonempty [simp]: "nat_to_string n \<noteq> []"
  by (subst nat_to_string.simps) simp

lemma length_nat_to_string_1: "length (nat_to_string n) = 1 \<longleftrightarrow> n < 10"
  by (subst nat_to_string.simps) simp

lemma to_string_inj [simp]: "to_string i = to_string j \<longleftrightarrow> i = j"
proof
  assume eq: "to_string i = to_string j"
  have minus: "CHR ''-'' \<notin> set (nat_to_string n)" for n
    using nat_to_string_digits not_is_digit(1) by blast
  show "i = j"
    using eq minus [of "nat i"] minus [of "nat j"]
    by (auto simp: to_string_def split: if_splits)
       (metis list.set_intros(1))+
qed simp

lemma to_string_nonempty [simp]: "to_string i \<noteq> []"
  by (simp add: to_string_def)

lemma to_string_no_nul [simp]: "CHR 0x00 \<notin> set (to_string i)"
  using nat_to_string_digits [of "CHR 0x00"] by (auto simp: to_string_def)

section \<open>Lists and prefixes\<close>

end
