(* ===== verification/Json.thy ===== *)
theory Json
  imports Ralf_Prelude
begin

text \<open>
  A parsed JSON document as Ralf handles it: the value tree of \<open>rapidjson::Value\<close> and the
  accessors the sources call on it. Parsing and printing are library code and stay parameters
  of the model (theory World); only the tree itself, which Ralf inspects member by member, is
  data here. An object keeps its members in order and may repeat a name: \<open>FindMember\<close>
  returns the first. An integer literal is \<open>JInt\<close>; a number with a fraction or an exponent
  is \<open>JDouble\<close> with its bit pattern, which no code of Ralf looks into.
\<close>

datatype json =
    JNull
  | JBool bool
  | JInt int
  | JDouble u64
  | JString string
  | JArray "json list"
  | JObject "(string \<times> json) list"

definition IsObject :: "json \<Rightarrow> bool" where
  "IsObject j \<longleftrightarrow> (case j of JObject _ \<Rightarrow> True | _ \<Rightarrow> False)"

definition IsArray :: "json \<Rightarrow> bool" where
  "IsArray j \<longleftrightarrow> (case j of JArray _ \<Rightarrow> True | _ \<Rightarrow> False)"

definition IsString :: "json \<Rightarrow> bool" where
  "IsString j \<longleftrightarrow> (case j of JString _ \<Rightarrow> True | _ \<Rightarrow> False)"

text \<open>\<open>IsInt\<close> also asks that the literal fits in a 32-bit \<open>int\<close>.\<close>

definition IsInt :: "json \<Rightarrow> bool" where
  "IsInt j \<longleftrightarrow> (case j of JInt i \<Rightarrow> fits_int32 i | _ \<Rightarrow> False)"

definition FindMember :: "json \<Rightarrow> string \<Rightarrow> json option" where
  "FindMember j k = (case j of JObject ms \<Rightarrow> map_of ms k | _ \<Rightarrow> None)"

definition HasMember :: "json \<Rightarrow> string \<Rightarrow> bool" where
  "HasMember j k \<longleftrightarrow> FindMember j k \<noteq> None"

text \<open>\<open>doc[name]\<close>: the value of the member, the null value when there is none.\<close>

definition json_at :: "json \<Rightarrow> string \<Rightarrow> json" where
  "json_at j k = (case FindMember j k of Some v \<Rightarrow> v | None \<Rightarrow> JNull)"

definition GetInt :: "json \<Rightarrow> int" where
  "GetInt j = (case j of JInt i \<Rightarrow> i | _ \<Rightarrow> 0)"

definition GetArray :: "json \<Rightarrow> json list" where
  "GetArray j = (case j of JArray xs \<Rightarrow> xs | _ \<Rightarrow> [])"

text \<open>
  \<open>GetString\<close> returns a \<open>const char*\<close>; every caller copies it into a \<open>std::string\<close>.
\<close>

definition GetString :: "json \<Rightarrow> string" where
  "GetString j = (case j of JString s \<Rightarrow> c_str s | _ \<Rightarrow> [])"

lemma json_kind [json_simps]:
  "IsObject (JObject ms)" "\<not> IsObject JNull" "IsArray (JArray xs)" "IsString (JString s)"
  "IsInt (JInt i) = fits_int32 i" "GetInt (JInt i) = i" "GetArray (JArray xs) = xs"
  "GetString (JString s) = c_str s"
  by (simp_all add: IsObject_def IsArray_def IsString_def IsInt_def GetInt_def GetArray_def
      GetString_def)

lemma FindMember_JObject [json_simps]: "FindMember (JObject ms) k = map_of ms k"
  by (simp add: FindMember_def)

lemma HasMember_JObject [json_simps]: "HasMember (JObject ms) k \<longleftrightarrow> map_of ms k \<noteq> None"
  by (simp add: HasMember_def json_simps)

lemma json_at_JObject [json_simps]:
  "json_at (JObject ms) k = (case map_of ms k of Some v \<Rightarrow> v | None \<Rightarrow> JNull)"
  by (simp add: json_at_def json_simps)

lemma IsObjectE: "IsObject j \<Longrightarrow> (\<And>ms. j = JObject ms \<Longrightarrow> P) \<Longrightarrow> P"
  by (cases j) (auto simp: IsObject_def)

lemma IsIntE: "IsInt j \<Longrightarrow> (\<And>i. j = JInt i \<Longrightarrow> fits_int32 i \<Longrightarrow> P) \<Longrightarrow> P"
  by (cases j) (auto simp: IsInt_def)

lemma FindMember_HasMember: "HasMember j k \<Longrightarrow> FindMember j k = Some (json_at j k)"
  by (auto simp: HasMember_def json_at_def)

end
