(* ===== verification/Rf.thy ===== *)
theory Rf
  imports Json
begin

text \<open>
  The Rf interface: \<open>Rf::AccountingRecordType\<close> (include/rf.h) and the messages of
  src/rf.cpp. A Diameter message is modelled by the list of AVPs its constructor adds, in the
  order it adds them. Whether a member of the JSON event can be turned into an AVP is decided
  by the Diameter dictionary and by \<open>val_json\<close>, which are not Ralf's code: the parameter
  \<open>avp_ok name value\<close> is true when both return and false when one of them throws
  \<open>Diameter::Stack::Exception\<close>.
\<close>

section \<open>Accounting record types\<close>

datatype AccountingRecordType = AccountingRecordType (art_type: u32)

definition accounting_record_type :: "int \<Rightarrow> AccountingRecordType" where
  "accounting_record_type t = AccountingRecordType (u32_of_int t)"

definition isValid :: "AccountingRecordType \<Rightarrow> bool" where
  "isValid r \<longleftrightarrow> art_type r \<le> 4 \<and> 1 \<le> art_type r"

definition isEvent :: "AccountingRecordType \<Rightarrow> bool" where
  "isEvent r \<longleftrightarrow> art_type r = 1"

definition isStart :: "AccountingRecordType \<Rightarrow> bool" where
  "isStart r \<longleftrightarrow> art_type r = 2"

definition isInterim :: "AccountingRecordType \<Rightarrow> bool" where
  "isInterim r \<longleftrightarrow> art_type r = 3"

definition isStop :: "AccountingRecordType \<Rightarrow> bool" where
  "isStop r \<longleftrightarrow> art_type r = 4"

definition art_code :: "AccountingRecordType \<Rightarrow> u32" where
  "art_code r = art_type r"

section \<open>Messages\<close>

datatype avp =
    NewSessionIdAvp
  | SessionIdAvp string
  | OriginAvp
  | AppIdAvp string
  | StrAvp string string
  | I32Avp string int
  | JsonAvp string json

definition RF_APPLICATION :: string where
  "RF_APPLICATION = ''Diameter Base Accounting''"

definition SERVICE_CONTEXT_ID_STR :: string where
  "SERVICE_CONTEXT_ID_STR = ''MNC.MCC.10.32260@3gpp.org''"

text \<open>
  One member of the event object. A value of kind false, true or null is skipped. An array adds
  one AVP per element; an exception inside the array leaves the loop, so the elements before the
  offending one stay and those after it are not tried.
\<close>

definition member_avps :: "(string \<Rightarrow> json \<Rightarrow> bool) \<Rightarrow> string \<times> json \<Rightarrow> avp list" where
  "member_avps avp_ok m =
     (let name = c_str (fst m) in
      case snd m of
        JBool _ \<Rightarrow> []
      | JNull \<Rightarrow> []
      | JArray xs \<Rightarrow> map (JsonAvp name) (takeWhile (avp_ok name) xs)
      | v \<Rightarrow> (if avp_ok name v then [JsonAvp name v] else []))"

definition acr_fixed_avps :: "string \<Rightarrow> string \<Rightarrow> string \<Rightarrow> u32 \<Rightarrow> avp list" where
  "acr_fixed_avps session_id dest_host dest_realm record_number =
     [if session_id = '''' then NewSessionIdAvp else SessionIdAvp session_id,
      OriginAvp,
      AppIdAvp RF_APPLICATION,
      StrAvp ''Destination-Host'' dest_host,
      StrAvp ''Destination-Realm'' dest_realm,
      I32Avp ''Accounting-Record-Number'' (int_of_u32 record_number),
      StrAvp ''Service-Context-Id'' SERVICE_CONTEXT_ID_STR]"

definition AccountingRequest ::
  "(string \<Rightarrow> json \<Rightarrow> bool) \<Rightarrow> string \<Rightarrow> string \<Rightarrow> string \<Rightarrow> u32 \<Rightarrow> json \<Rightarrow> avp list" where
  "AccountingRequest avp_ok session_id dest_host dest_realm record_number contents =
     acr_fixed_avps session_id dest_host dest_realm record_number @
     (case contents of
        JObject ms \<Rightarrow> concat (map (member_avps avp_ok) ms)
      | _ \<Rightarrow> [])"

definition AccountingResponse :: "int \<Rightarrow> string \<Rightarrow> avp list" where
  "AccountingResponse result_code session_id =
     (if result_code \<noteq> 0 then [I32Avp ''Result-Code'' result_code] else []) @
     (if session_id \<noteq> '''' then [SessionIdAvp session_id] else [])"

section \<open>Record types: the four kinds exclude each other\<close>

lemmas record_type_defs =
  isValid_def isEvent_def isStart_def isInterim_def isStop_def art_code_def

lemma record_type_exclusive:
  "isInterim r \<Longrightarrow> \<not> isStart r" "isInterim r \<Longrightarrow> \<not> isStop r" "isInterim r \<Longrightarrow> \<not> isEvent r"
  "isStop r \<Longrightarrow> \<not> isStart r" "isStop r \<Longrightarrow> \<not> isInterim r" "isStop r \<Longrightarrow> \<not> isEvent r"
  "isStart r \<Longrightarrow> \<not> isInterim r" "isStart r \<Longrightarrow> \<not> isStop r" "isStart r \<Longrightarrow> \<not> isEvent r"
  "isEvent r \<Longrightarrow> \<not> isInterim r" "isEvent r \<Longrightarrow> \<not> isStop r" "isEvent r \<Longrightarrow> \<not> isStart r"
  by (auto simp: record_type_defs)

lemma isValid_cases:
  assumes "isValid r"
  obtains "isEvent r" | "isStart r" | "isInterim r" | "isStop r"
proof -
  have "uint (art_type r) \<in> {1, 2, 3, 4}"
    using assms by (auto simp: isValid_def word_le_def)
  then have "art_type r \<in> {1, 2, 3, 4}"
    by (auto simp: word_uint_eq_iff)
  then show ?thesis using that by (auto simp: record_type_defs)
qed

lemma isValid_accounting_record_type:
  assumes "fits_int32 i"
  shows "isValid (accounting_record_type i) \<longleftrightarrow> 1 \<le> i \<and> i \<le> 4"
proof (cases "i < 0")
  case True
  then have "uint (u32_of_int i) = 2 ^ 32 + i" using assms by (rule u32_of_int_neg)
  then show ?thesis
    using True assms
    by (simp add: isValid_def accounting_record_type_def word_le_def fits_int32_def)
next
  case False
  then have "uint (u32_of_int i) = i"
    using assms by (intro u32_of_int_nonneg) (auto simp: fits_int32_def)
  then show ?thesis
    by (auto simp: isValid_def accounting_record_type_def word_le_def)
qed

section \<open>Structure of an ACR\<close>

text \<open>Which members of the event may produce an AVP.\<close>

lemma member_avps_source:
  assumes "JsonAvp n v \<in> set (member_avps avp_ok m)"
  shows "n = c_str (fst m)" "avp_ok n v"
    "snd m = v \<or> (\<exists>xs. snd m = JArray xs \<and> v \<in> set xs)"
  using assms
  by (auto simp: member_avps_def Let_def split: json.splits if_splits dest: set_takeWhileD)

lemma member_avps_only_json: "a \<in> set (member_avps avp_ok m) \<Longrightarrow> \<exists>n v. a = JsonAvp n v"
  by (auto simp: member_avps_def Let_def split: json.splits if_splits dest: set_takeWhileD)

lemma AccountingRequest_take_fixed:
  "take 7 (AccountingRequest ok sid host realm num contents) = acr_fixed_avps sid host realm num"
  by (simp add: AccountingRequest_def acr_fixed_avps_def)

end
