(* ===== verification/Ralf_Message.thy ===== *)
theory Ralf_Message
  imports Rf
begin

text \<open>
  The message that travels from the HTTP handler through the session manager to the Diameter
  peer: \<open>struct Message\<close> of include/message.hpp with its constructor (src/message.cpp).
  The two enums of the header are plain \<open>int\<close>s here: \<open>parse_body\<close> casts an unchecked JSON
  integer to them, so a value outside the enumerators is a value the program works on.
\<close>

type_synonym role_of_node_t = int
type_synonym node_functionality_t = int
type_synonym trail_id = u64

definition ORIGINATING :: role_of_node_t where "ORIGINATING = 0"
definition TERMINATING :: role_of_node_t where "TERMINATING = 1"

definition SCSCF :: node_functionality_t where "SCSCF = 0"
definition PCSCF :: node_functionality_t where "PCSCF = 1"
definition ICSCF :: node_functionality_t where "ICSCF = 2"
definition MRFC :: node_functionality_t where "MRFC = 3"
definition MGCF :: node_functionality_t where "MGCF = 4"
definition BGCF :: node_functionality_t where "BGCF = 5"
definition AS :: node_functionality_t where "AS = 6"
definition IBCF :: node_functionality_t where "IBCF = 7"
definition SGW :: node_functionality_t where "SGW = 8"
definition PGW :: node_functionality_t where "PGW = 9"
definition HSGW :: node_functionality_t where "HSGW = 10"
definition ECSCF :: node_functionality_t where "ECSCF = 11"
definition MME :: node_functionality_t where "MME = 12"
definition TRF :: node_functionality_t where "TRF = 13"
definition TF :: node_functionality_t where "TF = 14"
definition ATCF :: node_functionality_t where "ATCF = 15"

record message =
  m_call_id :: string
  m_role :: role_of_node_t
  m_function :: node_functionality_t
  m_received_json :: json
  m_record_type :: AccountingRecordType
  m_timer_interim :: bool
  m_ccfs :: "string list"
  m_ecfs :: "string list"
  m_session_id :: string
  m_accounting_record_number :: u32
  m_timer_id :: string
  m_interim_interval :: u32
  m_session_refresh_time :: u32
  m_trail :: trail_id

text \<open>
  The constructor leaves \<open>accounting_record_number\<close> uninitialised: the first argument is the
  value the memory happens to hold.
\<close>

definition new_Message ::
  "u32 \<Rightarrow> string \<Rightarrow> role_of_node_t \<Rightarrow> node_functionality_t \<Rightarrow> json \<Rightarrow> AccountingRecordType \<Rightarrow>
   u32 \<Rightarrow> trail_id \<Rightarrow> bool \<Rightarrow> message" where
  "new_Message uninit call_id role function body record_type session_refresh_time trail timer_interim =
     \<lparr>m_call_id = call_id, m_role = role, m_function = function, m_received_json = body,
      m_record_type = record_type, m_timer_interim = timer_interim, m_ccfs = [], m_ecfs = [],
      m_session_id = '''', m_accounting_record_number = uninit, m_timer_id = '''',
      m_interim_interval = 0, m_session_refresh_time = session_refresh_time, m_trail = trail\<rparr>"

text \<open>A message the session manager may send on: its JSON body has the event object of the ACR.\<close>

definition has_event :: "message \<Rightarrow> bool" where
  "has_event msg \<longleftrightarrow> FindMember (m_received_json msg) ''event'' \<noteq> None"

lemma has_event_update [simp]:
  "has_event (msg\<lparr>m_accounting_record_number := n\<rparr>) = has_event msg"
  "has_event (msg\<lparr>m_ccfs := c\<rparr>) = has_event msg"
  "has_event (msg\<lparr>m_session_id := i\<rparr>) = has_event msg"
  "has_event (msg\<lparr>m_timer_id := t\<rparr>) = has_event msg"
  "has_event (msg\<lparr>m_session_refresh_time := r\<rparr>) = has_event msg"
  "has_event (msg\<lparr>m_interim_interval := v\<rparr>) = has_event msg"
  by (simp_all add: has_event_def)

end
