(* ===== verification/Peer_Data.thy ===== *)
theory Peer_Data
  imports Ralf_Message
begin

text \<open>
  The objects that stay alive while a Diameter request is outstanding: \<open>PeerMessageSender\<close>
  (include/peer_message_sender.hpp), the factory that makes it
  (include/peer_message_sender_factory.hpp) and \<open>RalfTransaction\<close>
  (include/ralf_transaction.hpp). The pointers to the session manager, the dictionary and the
  Diameter stack are process-wide singletons and are arguments of the operations instead of
  fields. The message pointer is unset until \<open>send\<close>.
\<close>

record peer_message_sender =
  pms_msg :: "message option"
  pms_which :: u32
  pms_ccfs :: "string list"
  pms_trail :: trail_id
  pms_dest_realm :: string
  pms_diameter_timeout :: int

definition new_PeerMessageSender :: "trail_id \<Rightarrow> string \<Rightarrow> int \<Rightarrow> peer_message_sender" where
  "new_PeerMessageSender trail dest_realm diameter_timeout =
     \<lparr>pms_msg = None, pms_which = 0, pms_ccfs = [], pms_trail = trail,
      pms_dest_realm = dest_realm, pms_diameter_timeout = diameter_timeout\<rparr>"

record peer_message_sender_factory =
  f_dest_realm :: string
  f_diameter_timeout :: int

definition newSender :: "peer_message_sender_factory \<Rightarrow> trail_id \<Rightarrow> peer_message_sender" where
  "newSender f trail = new_PeerMessageSender trail (f_dest_realm f) (f_diameter_timeout f)"

record ralf_transaction =
  tsx_peer_sender :: peer_message_sender
  tsx_msg :: message

definition new_RalfTransaction :: "peer_message_sender \<Rightarrow> message \<Rightarrow> ralf_transaction" where
  "new_RalfTransaction peer_sender msg = \<lparr>tsx_peer_sender = peer_sender, tsx_msg = msg\<rparr>"

text \<open>
  The invariant of a sender whose request is outstanding: it holds a message with an event, and
  its index is inside the CCF list.
\<close>

definition wf_sender :: "peer_message_sender \<Rightarrow> bool" where
  "wf_sender pm \<longleftrightarrow>
     (\<exists>msg. pms_msg pm = Some msg \<and> has_event msg) \<and> unat (pms_which pm) < length (pms_ccfs pm)"

definition wf_transaction :: "ralf_transaction \<Rightarrow> bool" where
  "wf_transaction t \<longleftrightarrow>
     wf_sender (tsx_peer_sender t) \<and> pms_msg (tsx_peer_sender t) = Some (tsx_msg t)"

end
