(* ===== verification/World.thy ===== *)
theory World
  imports Peer_Data
begin

text \<open>
  What surrounds Ralf. Everything the sources call that is not Ralf's own code is a field of the
  record \<open>env\<close>: the memcached-backed \<open>Store\<close>, the Chronos connection, rapidjson's parser
  and writer, the JSON accessor macros and \<open>Utils::url_escape\<close> of cpp-common, the Diameter
  dictionary. The effectful ones take and return a world of any type \<open>'w\<close>, about which the
  model assumes nothing; what a theorem needs to know of them it states as a hypothesis.

  The state of the model, \<open>'w io\<close>, is that world, the trace of everything Ralf has done to it,
  and the Diameter transactions that are waiting for an answer.
\<close>

section \<open>The environment\<close>

datatype store_status = OK | NOT_FOUND | DATA_CONTENTION | ERROR

type_synonym store_id = nat
type_synonym http_code = int

definition HTTP_OK :: http_code where "HTTP_OK = 200"
definition HTTP_BAD_REQUEST :: http_code where "HTTP_BAD_REQUEST = 400"
definition HTTP_METHOD_NOT_ALLOWED :: http_code where "HTTP_METHOD_NOT_ALLOWED = 405"

record 'w env =
  get_data :: "store_id \<Rightarrow> string \<Rightarrow> string \<Rightarrow> 'w \<Rightarrow> (store_status \<times> string \<times> u64) \<times> 'w"
  set_data :: "store_id \<Rightarrow> string \<Rightarrow> string \<Rightarrow> string \<Rightarrow> u64 \<Rightarrow> u32 \<Rightarrow> 'w \<Rightarrow> store_status \<times> 'w"
  delete_data :: "store_id \<Rightarrow> string \<Rightarrow> string \<Rightarrow> 'w \<Rightarrow> store_status \<times> 'w"
  send_post :: "string \<Rightarrow> u32 \<Rightarrow> u32 \<Rightarrow> string \<Rightarrow> string \<Rightarrow> (string \<times> u32) list \<Rightarrow> 'w \<Rightarrow>
                (http_code \<times> string) \<times> 'w"
  send_put :: "string \<Rightarrow> u32 \<Rightarrow> u32 \<Rightarrow> string \<Rightarrow> string \<Rightarrow> (string \<times> u32) list \<Rightarrow> 'w \<Rightarrow>
               (http_code \<times> string) \<times> 'w"
  send_delete :: "string \<Rightarrow> 'w \<Rightarrow> http_code \<times> 'w"
  json_parse :: "string \<Rightarrow> json option"
  json_write :: "json \<Rightarrow> string"
  get_string_member :: "json \<Rightarrow> string \<Rightarrow> string option"
  get_int_member :: "json \<Rightarrow> string \<Rightarrow> int option"
  assert_contains :: "json \<Rightarrow> string \<Rightarrow> bool"
  assert_array :: "json \<Rightarrow> bool"
  assert_string :: "json \<Rightarrow> bool"
  url_escape :: "string \<Rightarrow> string"
  avp_ok :: "string \<Rightarrow> json \<Rightarrow> bool"
  uninit_u32 :: u32

section \<open>Effects and the state\<close>

text \<open>The SAS event identifiers of include/ralfsasevent.h.\<close>

datatype sas_event_id =
    NEW_RF_SESSION_OK | NEW_RF_SESSION_ERR
  | CONTINUED_RF_SESSION_OK | CONTINUED_RF_SESSION_ERR
  | END_RF_SESSION_OK | END_RF_SESSION_ERR
  | BILLING_REQUEST_SENT
  | INTERIM_TIMER_POPPED | INTERIM_TIMER_CREATED | INTERIM_TIMER_RENEWED
  | INCOMING_REQUEST | INCOMING_REQUEST_NO_PEERS | REQUEST_REJECTED_INVALID_JSON
  | CDF_FAILOVER | BILLING_REQUEST_NOT_SENT | BILLING_REQUEST_REJECTED
  | BILLING_REQUEST_SUCCEEDED | SESSION_DESERIALIZATION_FAILED

text \<open>
  One entry per call that leaves Ralf. A store call records the store, the key, what was written
  and the status that came back; a timer call records its arguments and the identifier that came
  back; \<open>AcrSent\<close> records the AVPs handed to the Diameter stack and the timeout.
  \<open>MessageCreated\<close> and \<open>MessageDeleted\<close> record \<open>new Message\<close> and \<open>delete msg\<close>;
  \<open>DocumentCreated\<close> and \<open>DocumentDeleted\<close> record \<open>new rapidjson::Document\<close> and \<open>delete body\<close>
  in \<open>parse_body\<close>. A message owns the document it was built from, which its destructor frees
  with it, so \<open>MessageDeleted\<close> stands for both.
\<close>

datatype effect =
    StoreGet store_id string store_status
  | StoreSet store_id string string u64 u32 store_status
  | StoreDelete store_id string store_status
  | TimerPost u32 u32 string string "(string \<times> u32) list" http_code string
  | TimerPut string u32 u32 string string "(string \<times> u32) list" string
  | TimerDelete string
  | SasEvent trail_id sas_event_id "u32 list" "string list"
  | SasMarker trail_id string
  | AcrSent "avp list" int
  | HealthCheckPassed
  | MessageCreated
  | MessageDeleted
  | DocumentCreated
  | DocumentDeleted
  | HttpReply http_code

record 'w io =
  world :: 'w
  trace :: "effect list"
  pending :: "ralf_transaction list"

definition emit :: "effect \<Rightarrow> 'w io \<Rightarrow> 'w io" where
  "emit e s = s\<lparr>trace := trace s @ [e]\<rparr>"

text \<open>A call that left Ralf: the world it returned and its entry in the trace.\<close>

definition called :: "'w \<Rightarrow> effect \<Rightarrow> 'w io \<Rightarrow> 'w io" where
  "called w e s = emit e (s\<lparr>world := w\<rparr>)"

lemma emit_simps [simp, io_simps]:
  "world (emit e s) = world s" "trace (emit e s) = trace s @ [e]" "pending (emit e s) = pending s"
  by (simp_all add: emit_def)

lemma called_simps [simp, io_simps]:
  "world (called w e s) = w" "trace (called w e s) = trace s @ [e]"
  "pending (called w e s) = pending s"
  by (simp_all add: called_def)

text \<open>Memory the C++ code may touch only when its own checks hold.\<close>

datatype crash = VectorIndexOutOfRange | UnsetMessage | MissingEventMember

section \<open>Kinds of effects\<close>

fun is_acr :: "effect \<Rightarrow> bool" where
  "is_acr (AcrSent _ _) = True"
| "is_acr _ = False"

fun is_timer :: "effect \<Rightarrow> bool" where
  "is_timer (TimerPost _ _ _ _ _ _ _) = True"
| "is_timer (TimerPut _ _ _ _ _ _ _) = True"
| "is_timer (TimerDelete _) = True"
| "is_timer _ = False"

fun is_store_write :: "effect \<Rightarrow> bool" where
  "is_store_write (StoreSet _ _ _ _ _ _) = True"
| "is_store_write (StoreDelete _ _ _) = True"
| "is_store_write _ = False"

fun is_reply :: "effect \<Rightarrow> bool" where
  "is_reply (HttpReply _) = True"
| "is_reply _ = False"

section \<open>Operations that only add to the trace\<close>

text \<open>
  \<open>effects_of s s'\<close> is what happened between two states of one run. Every operation of the
  model only appends to the trace, so it is well defined wherever it is used.
\<close>

definition effects_of :: "'w io \<Rightarrow> 'w io \<Rightarrow> effect list" where
  "effects_of s s' = drop (length (trace s)) (trace s')"

definition extends :: "(effect \<Rightarrow> bool) \<Rightarrow> 'w io \<Rightarrow> 'w io \<Rightarrow> bool" where
  "extends P s s' \<longleftrightarrow> (\<exists>es. trace s' = trace s @ es \<and> list_all P es)"

lemma extends_refl [simp, intro]: "extends P s s"
  by (simp add: extends_def)

lemma extends_trans [trans]: "extends P s t \<Longrightarrow> extends P t u \<Longrightarrow> extends P s u"
  by (auto simp: extends_def)

lemma extends_mono: "extends P s t \<Longrightarrow> (\<And>e. P e \<Longrightarrow> Q e) \<Longrightarrow> extends Q s t"
  by (auto simp: extends_def list_all_iff)


lemma extends_emitI [intro]: "extends P s t \<Longrightarrow> P e \<Longrightarrow> extends P s (emit e t)"
  by (auto simp: extends_def)

lemma extends_calledI [intro]: "extends P s t \<Longrightarrow> P e \<Longrightarrow> extends P s (called w e t)"
  by (auto simp: extends_def)

lemma extends_trace_cong: "trace t = trace t' \<Longrightarrow> extends P s t = extends P s t'"
  by (simp add: extends_def)

lemma extends_effects_of: "extends P s t \<Longrightarrow> trace t = trace s @ effects_of s t"
  by (auto simp: extends_def effects_of_def)

lemma extends_list_all: "extends P s t \<Longrightarrow> list_all P (effects_of s t)"
  by (auto simp: extends_def effects_of_def)

lemma extends_iff:
  "extends P s t \<longleftrightarrow> trace t = trace s @ effects_of s t \<and> list_all P (effects_of s t)"
  by (auto simp: extends_def effects_of_def)

lemma effects_of_same [simp]: "effects_of s s = []"
  by (simp add: effects_of_def)

lemma effects_of_append: "trace t = trace s @ es \<Longrightarrow> effects_of s t = es"
  by (simp add: effects_of_def)

lemma effects_of_trans:
  "extends P s t \<Longrightarrow> extends Q t u \<Longrightarrow> effects_of s u = effects_of s t @ effects_of t u"
  by (auto simp: extends_def effects_of_def)

lemma list_all_filter_none: "list_all P es \<Longrightarrow> (\<And>e. P e \<Longrightarrow> \<not> Q e) \<Longrightarrow> filter Q es = []"
  by (auto simp: list_all_iff filter_empty_conv)

lemma effects_of_snoc:
  "extends P s t \<Longrightarrow> trace u = trace t @ es \<Longrightarrow> effects_of s u = effects_of s t @ es"
  by (auto simp: extends_def effects_of_def)

section \<open>The contract of an operation that hands nothing to the Diameter stack\<close>

text \<open>
  Most operations share one contract: they append effects of certain kinds to the trace and leave
  the outstanding transactions alone. \<open>op s s'\<close> relates the states before and after.
\<close>

locale io_operation =
  fixes kind :: "effect \<Rightarrow> bool"
    and op :: "'w io \<Rightarrow> 'w io \<Rightarrow> bool"
  assumes op_extends: "op s s' \<Longrightarrow> extends kind s s'"
    and op_pending: "op s s' \<Longrightarrow> pending s' = pending s"
begin

lemma op_trace: "op s s' \<Longrightarrow> trace s' = trace s @ effects_of s s'"
  by (rule extends_effects_of [OF op_extends])

lemma op_none:
  assumes "op s s'" "\<And>e. kind e \<Longrightarrow> \<not> Q e"
  shows "filter Q (effects_of s s') = []"
  using extends_list_all [OF op_extends [OF assms(1)]] assms(2)
  by (auto simp: list_all_iff filter_empty_conv)

lemma op_repeat:
  assumes "op\<^sup>*\<^sup>* s s'"
  shows "extends kind s s' \<and> pending s' = pending s"
  using assms
  by (induction rule: rtranclp_induct) (auto dest: op_extends op_pending intro: extends_trans)

end

text \<open>The effects of the store operations, and those of the response handling.\<close>

fun store_effect :: "effect \<Rightarrow> bool" where
  "store_effect (StoreGet _ _ _) = True"
| "store_effect (StoreSet _ _ _ _ _ _) = True"
| "store_effect (StoreDelete _ _ _) = True"
| "store_effect (SasEvent _ _ _ _) = True"
| "store_effect _ = False"

text \<open>The effects that only \<open>parse_body\<close> has.\<close>

fun parse_effect :: "effect \<Rightarrow> bool" where
  "parse_effect MessageCreated = True"
| "parse_effect DocumentCreated = True"
| "parse_effect DocumentDeleted = True"
| "parse_effect _ = False"

lemma no_parse_effects:
  assumes "list_all (\<lambda>e. \<not> parse_effect e) es"
  shows "count_list es MessageCreated = 0" "count_list es DocumentCreated = 0"
    "count_list es DocumentDeleted = 0"
  using assms by (auto simp: list_all_iff count_list_0_iff)

lemma store_effect_kinds [effect_simps]:
  "store_effect e \<Longrightarrow> \<not> is_acr e" "store_effect e \<Longrightarrow> \<not> is_timer e"
  "store_effect e \<Longrightarrow> \<not> is_reply e" "\<not> store_effect MessageDeleted" "store_effect e \<Longrightarrow> \<not> parse_effect e"
  by (cases e; simp)+

text \<open>A write that the store has settled: it answered something other than contention.\<close>

fun settled :: "effect \<Rightarrow> bool" where
  "settled (StoreSet _ _ _ _ _ rc) = (rc \<noteq> DATA_CONTENTION)"
| "settled (StoreDelete _ _ rc) = (rc \<noteq> DATA_CONTENTION)"
| "settled _ = False"

fun effect_store :: "effect \<Rightarrow> store_id" where
  "effect_store (StoreGet st _ _) = st"
| "effect_store (StoreSet st _ _ _ _ _) = st"
| "effect_store (StoreDelete st _ _) = st"
| "effect_store _ = 0"

definition settled_stores :: "effect list \<Rightarrow> store_id list" where
  "settled_stores es = map effect_store (filter settled es)"

lemma settled_stores_simps [simp]:
  "settled_stores [] = []"
  "settled_stores (es @ fs) = settled_stores es @ settled_stores fs"
  "settled_stores (e # es) = (if settled e then effect_store e # settled_stores es else settled_stores es)"
  by (simp_all add: settled_stores_def)

end
