(* ===== verification/Json_Codec.thy ===== *)
theory Json_Codec
  imports World
begin

text \<open>
  What Ralf relies on when it writes JSON text and reads it back. \<open>json_text_ok\<close> and
  \<open>json_macros_ok\<close> state the documented behaviour of rapidjson's writer and parser and of
  the accessor macros of cpp-common on the documents Ralf exchanges; they are hypotheses of the
  theorems that need them. The locale \<open>doc_codec\<close> is the contract of a pair of routines that
  turn a value into a document and a document back into what the reader makes of it; it is
  interpreted on the session record (theory Session_Store) and on the opaque data of a Chronos
  timer (theory Timer_Callback).
\<close>

section \<open>The libraries' behaviour\<close>

text \<open>Documents without floating-point numbers, with 32-bit integers and NUL-free strings.\<close>

fun plain_json :: "json \<Rightarrow> bool" where
  "plain_json JNull = True"
| "plain_json (JBool b) = True"
| "plain_json (JInt i) = fits_int32 i"
| "plain_json (JDouble d) = False"
| "plain_json (JString s) = (CHR 0x00 \<notin> set s)"
| "plain_json (JArray xs) = list_all plain_json xs"
| "plain_json (JObject ms) = list_all (\<lambda>m. CHR 0x00 \<notin> set (fst m) \<and> plain_json (snd m)) ms"

definition json_text_ok :: "'w env \<Rightarrow> bool" where
  "json_text_ok env \<longleftrightarrow>
     (\<forall>j. plain_json j \<longrightarrow>
        json_parse env (json_write env j) = Some j \<and> json_write env j \<noteq> [] \<and>
        CHR 0x00 \<notin> set (json_write env j))"

definition json_macros_ok :: "'w env \<Rightarrow> bool" where
  "json_macros_ok env \<longleftrightarrow>
     (\<forall>ms k s. map_of ms k = Some (JString s) \<longrightarrow> CHR 0x00 \<notin> set s \<longrightarrow>
        get_string_member env (JObject ms) k = Some s) \<and>
     (\<forall>ms k. \<not> (\<exists>s. map_of ms k = Some (JString s)) \<longrightarrow>
        get_string_member env (JObject ms) k = None) \<and>
     (\<forall>ms k i. map_of ms k = Some (JInt i) \<longrightarrow> fits_int32 i \<longrightarrow>
        get_int_member env (JObject ms) k = Some i) \<and>
     (\<forall>ms k. \<not> (\<exists>i. map_of ms k = Some (JInt i) \<and> fits_int32 i) \<longrightarrow>
        get_int_member env (JObject ms) k = None) \<and>
     (\<forall>ms k. assert_contains env (JObject ms) k \<longleftrightarrow> map_of ms k \<noteq> None) \<and>
     (\<forall>j. assert_array env j \<longleftrightarrow> IsArray j) \<and>
     (\<forall>j. assert_string env j \<longleftrightarrow> IsString j)"

lemma json_text_roundtrip:
  "json_text_ok env \<Longrightarrow> plain_json j \<Longrightarrow> json_parse env (c_str (json_write env j)) = Some j"
  by (simp add: json_text_ok_def c_str_id)

lemma json_text_nonempty:
  "json_text_ok env \<Longrightarrow> plain_json j \<Longrightarrow> c_str (json_write env j) \<noteq> []"
  by (simp add: json_text_ok_def c_str_id)

lemma json_macros:
  assumes "json_macros_ok env"
  shows
    "map_of ms k = Some (JString s) \<Longrightarrow> CHR 0x00 \<notin> set s \<Longrightarrow>
       get_string_member env (JObject ms) k = Some s"
    "map_of ms k = Some (JInt i) \<Longrightarrow> fits_int32 i \<Longrightarrow> get_int_member env (JObject ms) k = Some i"
    "assert_contains env (JObject ms) k \<longleftrightarrow> map_of ms k \<noteq> None"
    "assert_array env j \<longleftrightarrow> IsArray j"
    "assert_string env j \<longleftrightarrow> IsString j"
  using assms unfolding json_macros_ok_def by blast+

lemma json_macros_reject:
  assumes "json_macros_ok env"
  shows
    "(\<And>s. map_of ms k \<noteq> Some (JString s)) \<Longrightarrow> get_string_member env (JObject ms) k = None"
    "(\<And>i. map_of ms k \<noteq> Some (JInt i)) \<Longrightarrow> get_int_member env (JObject ms) k = None"
  using assms unfolding json_macros_ok_def by blast+

section \<open>Documents as a wire format\<close>

locale doc_codec =
  fixes ok :: "'w env \<Rightarrow> bool"
    and enc :: "'a \<Rightarrow> json"
    and dec :: "'w env \<Rightarrow> json \<Rightarrow> 'b option"
    and valid :: "'a \<Rightarrow> bool"
    and view :: "'a \<Rightarrow> 'b"
  assumes enc_plain: "valid x \<Longrightarrow> plain_json (enc x)"
    and dec_enc: "ok env \<Longrightarrow> valid x \<Longrightarrow> dec env (enc x) = Some (view x)"
begin

definition write_text :: "'w env \<Rightarrow> 'a \<Rightarrow> string" where
  "write_text env x = c_str (json_write env (enc x))"

definition read_text :: "'w env \<Rightarrow> string \<Rightarrow> 'b option" where
  "read_text env data = Option.bind (json_parse env (c_str data)) (dec env)"

lemma read_write:
  assumes "ok env" "json_text_ok env" "valid x"
  shows "read_text env (write_text env x) = Some (view x)"
  using assms by (simp add: read_text_def write_text_def json_text_roundtrip enc_plain dec_enc)

lemma write_nonempty:
  "json_text_ok env \<Longrightarrow> valid x \<Longrightarrow> write_text env x \<noteq> []"
  by (simp add: write_text_def json_text_nonempty enc_plain)

lemma write_inj:
  assumes "ok env" "json_text_ok env" "valid x" "valid y"
    and "write_text env x = write_text env y"
  shows "view x = view y"
  using assms read_write [of env x] read_write [of env y] by simp

end

end
