(* ===== verification/Session_Store.thy ===== *)
theory Session_Store
  imports Json_Codec
begin

text \<open>
  \<open>SessionStore\<close> (include/session_store.h, src/session_store.cpp): the session object, its
  key, its JSON form and the four operations on the underlying \<open>Store\<close>. The first sections
  translate the code; then come the JSON round trip, the key scheme and, as a locale, the
  contract the session manager relies on: a register per key with compare-and-set writes.
\<close>

section \<open>The session object\<close>

record session =
  s_session_id :: string
  s_ccf :: "string list"
  s_ecf :: "string list"
  s_acct_record_number :: u32
  s_timer_id :: string
  s_session_refresh_time :: u32
  s_interim_interval :: u32
  s_cas :: u64

text \<open>\<open>new Session()\<close> value-initialises every field.\<close>

definition new_Session :: session where
  "new_Session = \<lparr>s_session_id = '''', s_ccf = [], s_ecf = [], s_acct_record_number = 0,
     s_timer_id = '''', s_session_refresh_time = 0, s_interim_interval = 0, s_cas = 0\<rparr>"

section \<open>JSON form\<close>

definition JSON_SESSION_ID :: string where "JSON_SESSION_ID = ''session_id''"
definition JSON_CCFS :: string where "JSON_CCFS = ''ccfs''"
definition JSON_ACCT_RECORD_NUM :: string where "JSON_ACCT_RECORD_NUM = ''acct_record_num''"
definition JSON_TIMER_ID :: string where "JSON_TIMER_ID = ''timer_id''"
definition JSON_REFRESH_TIME :: string where "JSON_REFRESH_TIME = ''refresh_time''"
definition JSON_INTERIM_INTERVAL :: string where "JSON_INTERIM_INTERVAL = ''interim_interval''"

lemmas json_names =
  JSON_SESSION_ID_def JSON_CCFS_def JSON_ACCT_RECORD_NUM_def JSON_TIMER_ID_def
  JSON_REFRESH_TIME_def JSON_INTERIM_INTERVAL_def

text \<open>The document the writer calls of \<open>serialize_session\<close> describe.\<close>

definition session_json :: "session \<Rightarrow> json" where
  "session_json session =
     JObject
       [(JSON_SESSION_ID, JString (c_str (s_session_id session))),
        (JSON_CCFS, JArray (map (\<lambda>ccf. JString (c_str ccf)) (s_ccf session))),
        (JSON_ACCT_RECORD_NUM, JInt (int_of_u32 (s_acct_record_number session))),
        (JSON_TIMER_ID, JString (c_str (s_timer_id session))),
        (JSON_REFRESH_TIME, JInt (int_of_u32 (s_session_refresh_time session))),
        (JSON_INTERIM_INTERVAL, JInt (int_of_u32 (s_interim_interval session)))]"

definition json_serialize_session :: "'w env \<Rightarrow> session \<Rightarrow> string" where
  "json_serialize_session env session = c_str (json_write env (session_json session))"

text \<open>The loop over the \<open>ccfs\<close> array: \<open>None\<close> when an element is not a string.\<close>

fun read_ccfs :: "'w env \<Rightarrow> json list \<Rightarrow> string list option" where
  "read_ccfs env [] = Some []"
| "read_ccfs env (j # js) =
     (if assert_string env j
      then map_option ((#) (GetString j)) (read_ccfs env js)
      else None)"

text \<open>
  \<open>None\<close> is the \<open>NULL\<close> of a document that does not parse or of a \<open>JsonFormatError\<close>; the
  checks run in the order of the source, each before the next.
\<close>

definition session_of_doc :: "'w env \<Rightarrow> json \<Rightarrow> session option" where
  "session_of_doc env doc =
     Option.bind (get_string_member env doc JSON_SESSION_ID) (\<lambda>session_id.
     if \<not> assert_contains env doc JSON_CCFS then None
     else if \<not> assert_array env (json_at doc JSON_CCFS) then None
     else
     Option.bind (read_ccfs env (GetArray (json_at doc JSON_CCFS))) (\<lambda>ccf.
     Option.bind (get_int_member env doc JSON_ACCT_RECORD_NUM) (\<lambda>acct.
     Option.bind (get_string_member env doc JSON_TIMER_ID) (\<lambda>timer_id.
     Option.bind (get_int_member env doc JSON_REFRESH_TIME) (\<lambda>refresh.
     Option.bind (get_int_member env doc JSON_INTERIM_INTERVAL) (\<lambda>interval.
     Some (new_Session\<lparr>
       s_session_id := session_id, s_ccf := ccf,
       s_acct_record_number := u32_of_int acct, s_timer_id := timer_id,
       s_session_refresh_time := u32_of_int refresh,
       s_interim_interval := u32_of_int interval\<rparr>)))))))"

definition json_deserialize_session :: "'w env \<Rightarrow> string \<Rightarrow> session option" where
  "json_deserialize_session env data =
     (case json_parse env (c_str data) of
        None \<Rightarrow> None
      | Some doc \<Rightarrow> session_of_doc env doc)"

section \<open>SessionStore\<close>

text \<open>The constructor installs one serializer and a list of deserializers with one element.\<close>

definition serialize_session :: "'w env \<Rightarrow> session \<Rightarrow> string" where
  "serialize_session env session = json_serialize_session env session"

definition session_deserializers :: "'w env \<Rightarrow> (string \<Rightarrow> session option) list" where
  "session_deserializers env = [json_deserialize_session env]"

fun first_deserialized :: "(string \<Rightarrow> session option) list \<Rightarrow> string \<Rightarrow> session option" where
  "first_deserialized [] data = None"
| "first_deserialized (d # ds) data =
     (case d data of Some session \<Rightarrow> Some session | None \<Rightarrow> first_deserialized ds data)"

definition deserialize_session :: "'w env \<Rightarrow> string \<Rightarrow> session option" where
  "deserialize_session env data = first_deserialized (session_deserializers env) data"

definition create_key :: "string \<Rightarrow> role_of_node_t \<Rightarrow> node_functionality_t \<Rightarrow> string" where
  "create_key call_id role function = call_id @ to_string role @ to_string function"

definition get_session_data ::
  "'w env \<Rightarrow> store_id \<Rightarrow> string \<Rightarrow> role_of_node_t \<Rightarrow> node_functionality_t \<Rightarrow> trail_id \<Rightarrow> 'w io \<Rightarrow>
   session option \<times> 'w io" where
  "get_session_data env store call_id role function trail s =
     (let key = create_key call_id role function;
          ((status, data, cas), w) = get_data env store ''session'' key (world s);
          s1 = called w (StoreGet store key status) s
      in if status = OK \<and> data \<noteq> []
         then (case deserialize_session env data of
                 Some session \<Rightarrow> (Some (session\<lparr>s_cas := cas\<rparr>), s1)
               | None \<Rightarrow>
                   (None, emit (SasEvent trail SESSION_DESERIALIZATION_FAILED [] [call_id, data]) s1))
         else (None, s1))"

definition set_session_data ::
  "'w env \<Rightarrow> store_id \<Rightarrow> string \<Rightarrow> role_of_node_t \<Rightarrow> node_functionality_t \<Rightarrow> session \<Rightarrow> bool \<Rightarrow>
   'w io \<Rightarrow> store_status \<times> 'w io" where
  "set_session_data env store call_id role function session new_session s =
     (let cas = (if new_session then 0 else s_cas session);
          key = create_key call_id role function;
          data = serialize_session env session;
          expiry = 2 * s_session_refresh_time session;
          (status, w) = set_data env store ''session'' key data cas expiry (world s)
      in (status, called w (StoreSet store key data cas expiry status) s))"

text \<open>The safe deletion: an empty value written with the session's CAS and expiry 0.\<close>

definition delete_session_data_cas ::
  "'w env \<Rightarrow> store_id \<Rightarrow> string \<Rightarrow> role_of_node_t \<Rightarrow> node_functionality_t \<Rightarrow> session \<Rightarrow>
   'w io \<Rightarrow> store_status \<times> 'w io" where
  "delete_session_data_cas env store call_id role function session s =
     (let key = create_key call_id role function;
          (status, w) = set_data env store ''session'' key '''' (s_cas session) 0 (world s)
      in (status, called w (StoreSet store key '''' (s_cas session) 0 status) s))"

text \<open>The aggressive deletion.\<close>

definition delete_session_data ::
  "'w env \<Rightarrow> store_id \<Rightarrow> string \<Rightarrow> role_of_node_t \<Rightarrow> node_functionality_t \<Rightarrow>
   'w io \<Rightarrow> store_status \<times> 'w io" where
  "delete_session_data env store call_id role function s =
     (let key = create_key call_id role function;
          (status, w) = delete_data env store ''session'' key (world s)
      in (status, called w (StoreDelete store key status) s))"


section \<open>The JSON round trip\<close>

text \<open>
  What survives a trip through the store: strings up to their first NUL, the three integers in
  full, neither the ECF list nor the CAS.
\<close>

definition stored_view :: "session \<Rightarrow> session" where
  "stored_view session =
     session\<lparr>s_session_id := c_str (s_session_id session), s_ccf := map c_str (s_ccf session),
       s_timer_id := c_str (s_timer_id session), s_ecf := [], s_cas := 0\<rparr>"

lemma plain_session_json: "plain_json (session_json session)"
  by (simp add: session_json_def json_names list_all_iff)

lemma read_ccfs_strings:
  assumes "json_macros_ok env"
  shows "read_ccfs env (map (\<lambda>c. JString (c_str c)) cs) = Some (map c_str cs)"
  by (induction cs) (simp_all add: json_macros [OF assms] json_simps)

lemma session_of_doc_session_json:
  assumes "json_macros_ok env"
  shows "session_of_doc env (session_json session) = Some (stored_view session)"
proof -
  let ?ms = "[(JSON_SESSION_ID, JString (c_str (s_session_id session))),
        (JSON_CCFS, JArray (map (\<lambda>ccf. JString (c_str ccf)) (s_ccf session))),
        (JSON_ACCT_RECORD_NUM, JInt (int_of_u32 (s_acct_record_number session))),
        (JSON_TIMER_ID, JString (c_str (s_timer_id session))),
        (JSON_REFRESH_TIME, JInt (int_of_u32 (s_session_refresh_time session))),
        (JSON_INTERIM_INTERVAL, JInt (int_of_u32 (s_interim_interval session)))]"
  note str = json_macros(1) [OF assms, of ?ms] and num = json_macros(2) [OF assms, of ?ms]
  have "get_string_member env (JObject ?ms) JSON_SESSION_ID = Some (c_str (s_session_id session))"
    by (rule str) simp_all
  moreover have "get_string_member env (JObject ?ms) JSON_TIMER_ID = Some (c_str (s_timer_id session))"
    by (rule str) (simp_all add: json_names)
  moreover have "get_int_member env (JObject ?ms) JSON_ACCT_RECORD_NUM =
      Some (int_of_u32 (s_acct_record_number session))"
    by (rule num) (simp_all add: json_names)
  moreover have "get_int_member env (JObject ?ms) JSON_REFRESH_TIME =
      Some (int_of_u32 (s_session_refresh_time session))"
    by (rule num) (simp_all add: json_names)
  moreover have "get_int_member env (JObject ?ms) JSON_INTERIM_INTERVAL =
      Some (int_of_u32 (s_interim_interval session))"
    by (rule num) (simp_all add: json_names)
  moreover have "json_at (JObject ?ms) JSON_CCFS =
      JArray (map (\<lambda>ccf. JString (c_str ccf)) (s_ccf session))"
    and "map_of ?ms JSON_CCFS \<noteq> None"
    by (simp_all add: json_simps json_names)
  ultimately show ?thesis
    unfolding session_json_def session_of_doc_def stored_view_def
    by (simp only: json_macros [OF assms] json_simps read_ccfs_strings [OF assms]
        Option.bind.bind_lunit if_False not_True_eq_False simp_thms) (simp add: new_Session_def)
qed

interpretation session_doc: doc_codec json_macros_ok session_json session_of_doc "\<lambda>_. True" stored_view
  by unfold_locales (simp_all add: plain_session_json session_of_doc_session_json)

lemma serialize_session_write_text: "serialize_session env session = session_doc.write_text env session"
  by (simp add: serialize_session_def json_serialize_session_def session_doc.write_text_def)

lemma deserialize_session_read_text: "deserialize_session env data = session_doc.read_text env data"
  by (simp add: deserialize_session_def session_deserializers_def json_deserialize_session_def
      session_doc.read_text_def split: option.split)

end
