(* ===== verification/Peer_Message_Sender.thy ===== *)
theory Peer_Message_Sender
  imports World
begin

text \<open>
  The sending half of \<open>PeerMessageSender\<close> (src/peer_message_sender.cpp): \<open>send\<close> and
  \<open>int_send_msg\<close>. Handing the ACR to the Diameter stack adds the transaction to
  \<open>pending\<close>; the callback half is in theory Ralf_Transaction, because it calls back into
  the session manager. Reading \<open>_ccfs[_which]\<close> outside the vector, an unset message pointer
  and a body without an \<open>event\<close> member are undefined behaviour in the source and a
  \<open>crash\<close> here.
\<close>

definition int_send_msg :: "'w env \<Rightarrow> peer_message_sender \<Rightarrow> 'w io \<Rightarrow> crash + 'w io" where
  "int_send_msg env pm s =
     (case pms_msg pm of
        None \<Rightarrow> Inl UnsetMessage
      | Some msg \<Rightarrow>
          if unat (pms_which pm) < length (pms_ccfs pm) then
            (let ccf = pms_ccfs pm ! unat (pms_which pm);
                 s1 = emit (SasEvent (m_trail msg) BILLING_REQUEST_SENT
                              [m_accounting_record_number msg] [ccf]) s;
                 tsx = new_RalfTransaction pm msg
             in case FindMember (m_received_json msg) ''event'' of
                  None \<Rightarrow> Inl MissingEventMember
                | Some contents \<Rightarrow>
                    (let acr = AccountingRequest (avp_ok env) (m_session_id msg) ccf
                                 (pms_dest_realm pm) (m_accounting_record_number msg) contents;
                         s2 = emit (AcrSent acr (pms_diameter_timeout pm)) s1
                     in Inr (s2\<lparr>pending := pending s2 @ [tsx]\<rparr>)))
          else Inl VectorIndexOutOfRange)"

definition pms_send :: "'w env \<Rightarrow> peer_message_sender \<Rightarrow> message \<Rightarrow> 'w io \<Rightarrow> crash + 'w io" where
  "pms_send env pm msg s =
     int_send_msg env (pm\<lparr>pms_msg := Some msg, pms_ccfs := m_ccfs msg\<rparr>) s"

section \<open>What a send does\<close>

text \<open>The ACR a well-formed sender produces for the CCF it points at.\<close>

definition acr_of :: "'w env \<Rightarrow> peer_message_sender \<Rightarrow> message \<Rightarrow> avp list" where
  "acr_of env pm msg =
     AccountingRequest (avp_ok env) (m_session_id msg) (pms_ccfs pm ! unat (pms_which pm))
       (pms_dest_realm pm) (m_accounting_record_number msg)
       (json_at (m_received_json msg) ''event'')"

lemma int_send_msg_cases:
  "int_send_msg env pm s =
     (case pms_msg pm of
        None \<Rightarrow> Inl UnsetMessage
      | Some msg \<Rightarrow>
          if \<not> unat (pms_which pm) < length (pms_ccfs pm) then Inl VectorIndexOutOfRange
          else if \<not> has_event msg then Inl MissingEventMember
          else Inr (s\<lparr>trace := trace s @
                        [SasEvent (m_trail msg) BILLING_REQUEST_SENT
                           [m_accounting_record_number msg] [pms_ccfs pm ! unat (pms_which pm)],
                         AcrSent (acr_of env pm msg) (pms_diameter_timeout pm)],
                      pending := pending s @ [new_RalfTransaction pm msg]\<rparr>))"
  by (auto simp: int_send_msg_def has_event_def acr_of_def json_at_def emit_def Let_def
      split: option.split)

lemma int_send_msg_wf:
  assumes "wf_sender pm" and "pms_msg pm = Some msg"
  shows "int_send_msg env pm s =
           Inr (s\<lparr>trace := trace s @
                    [SasEvent (m_trail msg) BILLING_REQUEST_SENT
                       [m_accounting_record_number msg] [pms_ccfs pm ! unat (pms_which pm)],
                     AcrSent (acr_of env pm msg) (pms_diameter_timeout pm)],
                  pending := pending s @ [new_RalfTransaction pm msg]\<rparr>)"
  using assms by (simp add: int_send_msg_cases wf_sender_def)

lemma int_send_msg_returns_iff_wf: "(\<exists>s'. int_send_msg env pm s = Inr s') \<longleftrightarrow> wf_sender pm"
  by (auto simp: int_send_msg_cases wf_sender_def split: option.split)

end
