(* ===== verification/Session_Manager.thy ===== *)
theory Session_Manager
  imports Session_Store Peer_Message_Sender
begin

text \<open>
  \<open>SessionManager\<close> (include/session_manager.hpp, src/session_manager.cpp). The object's
  fields that the operations use are the record \<open>session_manager\<close>; a store is named by its
  identifier.

  \<open>handle\<close> restarts itself when the local store reports \<open>DATA_CONTENTION\<close>, and its two
  loops over the remote stores repeat an iteration in that case. Nothing in the code bounds
  these repetitions, so the three are \<open>partial_function (option)\<close>: \<open>None\<close> is a call that
  never returns. A returning \<open>handle\<close> is \<open>Some (Inr s)\<close>, or \<open>Some (Inl c)\<close> when it runs
  into undefined behaviour on the way into the peer message sender.
\<close>

record session_manager =
  local_store :: store_id
  remote_stores :: "store_id list"
  factory :: peer_message_sender_factory

definition NO_TIMER :: string where
  "NO_TIMER = ''NO_TIMER''"

definition timer_tags :: "(string \<times> u32) list" where
  "timer_tags = [(''CALL'', 1)]"

section \<open>Finding the session\<close>

text \<open>The loop over the remote stores: the first one that has the session.\<close>

fun find_remote_session ::
  "'w env \<Rightarrow> message \<Rightarrow> store_id list \<Rightarrow> 'w io \<Rightarrow> session option \<times> 'w io" where
  "find_remote_session env msg [] s = (None, s)"
| "find_remote_session env msg (r # rs) s =
     (let (sess, s1) =
            get_session_data env r (m_call_id msg) (m_role msg) (m_function msg) (m_trail msg) s
      in case sess of
           Some x \<Rightarrow> (Some x, s1)
         | None \<Rightarrow> find_remote_session env msg rs s1)"

text \<open>The session, the \<open>new_session\<close> flag and the state after the reads.\<close>

definition find_session ::
  "'w env \<Rightarrow> session_manager \<Rightarrow> message \<Rightarrow> 'w io \<Rightarrow> (session option \<times> bool) \<times> 'w io" where
  "find_session env sm msg s =
     (let (sess, s1) =
            get_session_data env (local_store sm) (m_call_id msg) (m_role msg) (m_function msg)
              (m_trail msg) s
      in case sess of
           Some x \<Rightarrow> ((Some x, False), s1)
         | None \<Rightarrow>
             (let (rsess, s2) = find_remote_session env msg (remote_stores sm) s1
              in ((rsess, True), s2)))"

section \<open>INTERIM: updating the stores\<close>

definition bump_session :: "session \<Rightarrow> session" where
  "bump_session sess = sess\<lparr>s_acct_record_number := s_acct_record_number sess + 1\<rparr>"

text \<open>One iteration of the loop over the remote stores.\<close>

definition interim_remote_once ::
  "'w env \<Rightarrow> message \<Rightarrow> session \<Rightarrow> store_id \<Rightarrow> 'w io \<Rightarrow> store_status \<times> 'w io" where
  "interim_remote_once env msg sess r s =
     (let (remote_sess, s1) =
            get_session_data env r (m_call_id msg) (m_role msg) (m_function msg) (m_trail msg) s;
          (x, new_session) =
            (case remote_sess of
               None \<Rightarrow> (sess, True)
             | Some y \<Rightarrow> (bump_session y, False))
      in set_session_data env r (m_call_id msg) (m_role msg) (m_function msg) x new_session s1)"

partial_function (option) interim_remotes ::
  "'w env \<Rightarrow> message \<Rightarrow> session \<Rightarrow> store_id list \<Rightarrow> 'w io \<Rightarrow> 'w io option" where
  "interim_remotes env msg sess rs s =
     (case rs of
        [] \<Rightarrow> Some s
      | r # rest \<Rightarrow>
          (let (rc, s1) = interim_remote_once env msg sess r s
           in if rc \<noteq> DATA_CONTENTION
              then interim_remotes env msg sess rest s1
              else interim_remotes env msg sess (r # rest) s1))"

text \<open>What the branch of a record type leaves: start again, or carry on.\<close>

datatype 'a attempt = Restart 'a | Proceed 'a

definition interim_update ::
  "'w env \<Rightarrow> session_manager \<Rightarrow> message \<Rightarrow> session \<Rightarrow> bool \<Rightarrow> 'w io \<Rightarrow> 'w io attempt option" where
  "interim_update env sm msg sess new_session s =
     (let (rc, s1) = set_session_data env (local_store sm) (m_call_id msg) (m_role msg)
                       (m_function msg) sess new_session s
      in if rc = DATA_CONTENTION then Some (Restart s1)
         else map_option Proceed (interim_remotes env msg sess (remote_stores sm) s1))"

section \<open>STOP: removing the session\<close>

partial_function (option) stop_remotes ::
  "'w env \<Rightarrow> message \<Rightarrow> store_id list \<Rightarrow> 'w io \<Rightarrow> 'w io option" where
  "stop_remotes env msg rs s =
     (case rs of
        [] \<Rightarrow> Some s
      | r # rest \<Rightarrow>
          (let (rc, s1) = delete_session_data env r (m_call_id msg) (m_role msg) (m_function msg) s
           in if rc \<noteq> DATA_CONTENTION
              then stop_remotes env msg rest s1
              else stop_remotes env msg (r # rest) s1))"

definition delete_timer :: "'w env \<Rightarrow> string \<Rightarrow> 'w io \<Rightarrow> 'w io" where
  "delete_timer env timer_id s =
     (let (status, w) = send_delete env timer_id (world s)
      in called w (TimerDelete timer_id) s)"

definition stop_update ::
  "'w env \<Rightarrow> session_manager \<Rightarrow> message \<Rightarrow> session \<Rightarrow> 'w io \<Rightarrow> 'w io attempt option" where
  "stop_update env sm msg sess s =
     (let (rc, s1) = delete_session_data_cas env (local_store sm) (m_call_id msg) (m_role msg)
                       (m_function msg) sess s
      in if rc = DATA_CONTENTION then Some (Restart s1)
         else map_option
                (\<lambda>s2. Proceed (if s_timer_id sess \<noteq> ''NO_TIMER''
                               then delete_timer env (s_timer_id sess) s2 else s2))
                (stop_remotes env msg (remote_stores sm) s1))"

text \<open>The two branches on the record type of a message for an existing session.\<close>

definition update_stores ::
  "'w env \<Rightarrow> session_manager \<Rightarrow> message \<Rightarrow> session \<Rightarrow> bool \<Rightarrow> 'w io \<Rightarrow> 'w io attempt option" where
  "update_stores env sm msg sess new_session s =
     (if isInterim (m_record_type msg)
      then interim_update env sm msg sess new_session s
      else stop_update env sm msg sess s)"

section \<open>handle\<close>

text \<open>The fields of the message that come from the session.\<close>

definition fill_from_session :: "message \<Rightarrow> session \<Rightarrow> message" where
  "fill_from_session msg sess =
     msg\<lparr>m_accounting_record_number := s_acct_record_number sess,
         m_ccfs := s_ccf sess,
         m_session_id := s_session_id sess,
         m_timer_id := s_timer_id sess,
         m_session_refresh_time :=
           (if m_session_refresh_time msg = 0 then s_session_refresh_time sess
            else m_session_refresh_time msg),
         m_interim_interval := s_interim_interval sess\<rparr>"

text \<open>\<open>go to the Diameter stack\<close>\<close>

definition send_to_peer :: "'w env \<Rightarrow> session_manager \<Rightarrow> message \<Rightarrow> 'w io \<Rightarrow> crash + 'w io" where
  "send_to_peer env sm msg s = pms_send env (newSender (factory sm) (m_trail msg)) msg s"

partial_function (option) handle ::
  "'w env \<Rightarrow> session_manager \<Rightarrow> message \<Rightarrow> 'w io \<Rightarrow> (crash + 'w io) option" where
  "handle env sm msg s =
     (if isInterim (m_record_type msg) \<or> isStop (m_record_type msg) then
        (let ((found, new_session), s1) = find_session env sm msg s
         in case found of
              None \<Rightarrow> Some (Inr (emit MessageDeleted s1))
            | Some sess0 \<Rightarrow>
                (let sess = bump_session sess0
                 in Option.bind
                      (update_stores env sm msg sess new_session s1)
                      (\<lambda>r. case r of
                             Restart s2 \<Rightarrow> handle env sm msg s2
                           | Proceed s2 \<Rightarrow>
                               Some (send_to_peer env sm (fill_from_session msg sess) s2))))
      else Some (send_to_peer env sm (msg\<lparr>m_accounting_record_number := 1\<rparr>) s))"

end
