(* ===== verification/Manager_Induction.thy ===== *)
theory Manager_Induction
  imports Session_Manager
begin

text \<open>
  Induction over the attempts of the operations that retry on contention. Each rule fixes the
  arguments that a retry does not change and follows the calls of an operation that has returned.
\<close>

lemma interim_remotes_induct [consumes 1, case_names finished iteration]:
  assumes "interim_remotes env msg sess rs s = Some s'"
    and finished: "\<And>s. P [] s s"
    and iteration: "\<And>r rest s rc s1 s'. interim_remote_once env msg sess r s = (rc, s1) \<Longrightarrow>
      P (if rc = DATA_CONTENTION then r # rest else rest) s1 s' \<Longrightarrow> P (r # rest) s s'"
  shows "P rs s s'"
proof -
  have "env' = env \<and> msg' = msg \<and> sess' = sess \<longrightarrow> P rs s s'"
    if "interim_remotes env' msg' sess' rs s = Some s'" for env' msg' sess' rs s s'
    using that
    by (rule interim_remotes.raw_induct [rotated, where
          P = "\<lambda>env' msg' sess' rs s s'. env' = env \<and> msg' = msg \<and> sess' = sess \<longrightarrow> P rs s s'"])
       (auto split: list.splits prod.splits if_splits intro: finished iteration)
  with assms(1) show ?thesis by blast
qed

lemma stop_remotes_induct [consumes 1, case_names finished iteration]:
  assumes "stop_remotes env msg rs s = Some s'"
    and finished: "\<And>s. P [] s s"
    and iteration: "\<And>r rest s rc s1 s'.
      delete_session_data env r (m_call_id msg) (m_role msg) (m_function msg) s = (rc, s1) \<Longrightarrow>
      P (if rc = DATA_CONTENTION then r # rest else rest) s1 s' \<Longrightarrow> P (r # rest) s s'"
  shows "P rs s s'"
proof -
  have "env' = env \<and> msg' = msg \<longrightarrow> P rs s s'"
    if "stop_remotes env' msg' rs s = Some s'" for env' msg' rs s s'
    using that
    by (rule stop_remotes.raw_induct [rotated, where
          P = "\<lambda>env' msg' rs s s'. env' = env \<and> msg' = msg \<longrightarrow> P rs s s'"])
       (auto split: list.splits prod.splits if_splits intro: finished iteration)
  with assms(1) show ?thesis by blast
qed

lemma handle_induct [consumes 1, case_names first missing restart proceed]:
  assumes "handle env sm msg s = Some r"
    and first: "\<And>s. \<not> (isInterim (m_record_type msg) \<or> isStop (m_record_type msg)) \<Longrightarrow>
      P s (send_to_peer env sm (msg\<lparr>m_accounting_record_number := 1\<rparr>) s)"
    and missing: "\<And>s new s1. isInterim (m_record_type msg) \<or> isStop (m_record_type msg) \<Longrightarrow>
      find_session env sm msg s = ((None, new), s1) \<Longrightarrow> P s (Inr (emit MessageDeleted s1))"
    and restart: "\<And>s x new s1 s2 r. isInterim (m_record_type msg) \<or> isStop (m_record_type msg) \<Longrightarrow>
      find_session env sm msg s = ((Some x, new), s1) \<Longrightarrow>
      update_stores env sm msg (bump_session x) new s1 = Some (Restart s2) \<Longrightarrow> P s2 r \<Longrightarrow> P s r"
    and proceed: "\<And>s x new s1 s2. isInterim (m_record_type msg) \<or> isStop (m_record_type msg) \<Longrightarrow>
      find_session env sm msg s = ((Some x, new), s1) \<Longrightarrow>
      update_stores env sm msg (bump_session x) new s1 = Some (Proceed s2) \<Longrightarrow>
      P s (send_to_peer env sm (fill_from_session msg (bump_session x)) s2)"
  shows "P s r"
proof -
  have "env' = env \<and> sm' = sm \<and> msg' = msg \<longrightarrow> P s r"
    if "handle env' sm' msg' s = Some r" for env' sm' msg' s r
    using that
    by (rule handle.raw_induct [rotated, where
          P = "\<lambda>env' sm' msg' s r. env' = env \<and> sm' = sm \<and> msg' = msg \<longrightarrow> P s r"])
       (auto simp: Let_def split: if_splits prod.splits option.splits Option.bind_splits attempt.splits
         intro: first missing restart proceed)
  with assms(1) show ?thesis by blast
qed

end
