(* ===== verification/Task_Steps.thy ===== *)
theory Task_Steps
  imports Manager_Induction
begin

text \<open>
  \<open>SessionManager::handle\<close> one call at a time. Ralf serves requests on several threads, and two
  of them, or two Ralf nodes that share the stores, can be inside \<open>handle\<close> for the same session
  at once; between any two calls to a store the contents of the stores may change. A
  \<open>task_pc\<close> is the point a thread has reached together with its local variables, and
  \<open>task_step\<close> executes the code up to and including the next call that leaves Ralf.

  The equivalence at the end says that a thread that runs undisturbed computes what the recursive
  definition of theory Session_Manager computes, and returns exactly when that does.
\<close>

section \<open>The points of handle\<close>

datatype task_pc =
    GetLocal
  | GetRemote "store_id list"
  | SetLocal session bool
  | NextRemote session "store_id list"
  | SetRemote session session bool store_id "store_id list"
  | DeleteLocal session
  | DeleteRemote session "store_id list"
  | SendAcr message
  | Returned "crash option"

definition task_start :: "message \<Rightarrow> task_pc" where
  "task_start msg =
     (if isInterim (m_record_type msg) \<or> isStop (m_record_type msg) then GetLocal
      else SendAcr (msg\<lparr>m_accounting_record_number := 1\<rparr>))"

text \<open>The session has been found: its number is incremented and the branch on the type is taken.\<close>

definition session_found :: "message \<Rightarrow> session \<Rightarrow> bool \<Rightarrow> task_pc" where
  "session_found msg sess new_session =
     (if isInterim (m_record_type msg) then SetLocal (bump_session sess) new_session
      else DeleteLocal (bump_session sess))"

fun task_step ::
  "'w env \<Rightarrow> session_manager \<Rightarrow> message \<Rightarrow> task_pc \<times> 'w io \<Rightarrow> task_pc \<times> 'w io" where
  "task_step env sm msg (GetLocal, s) =
     (let (found, s1) = get_session_data env (local_store sm) (m_call_id msg) (m_role msg)
                          (m_function msg) (m_trail msg) s
      in case found of
           Some sess \<Rightarrow> (session_found msg sess False, s1)
         | None \<Rightarrow> (GetRemote (remote_stores sm), s1))"
| "task_step env sm msg (GetRemote [], s) = (Returned None, emit MessageDeleted s)"
| "task_step env sm msg (GetRemote (r # rs), s) =
     (let (found, s1) = get_session_data env r (m_call_id msg) (m_role msg) (m_function msg)
                          (m_trail msg) s
      in case found of
           Some sess \<Rightarrow> (session_found msg sess True, s1)
         | None \<Rightarrow> (GetRemote rs, s1))"
| "task_step env sm msg (SetLocal sess new_session, s) =
     (let (rc, s1) = set_session_data env (local_store sm) (m_call_id msg) (m_role msg)
                       (m_function msg) sess new_session s
      in if rc = DATA_CONTENTION then (GetLocal, s1) else (NextRemote sess (remote_stores sm), s1))"
| "task_step env sm msg (NextRemote sess [], s) = (SendAcr (fill_from_session msg sess), s)"
| "task_step env sm msg (NextRemote sess (r # rs), s) =
     (let (found, s1) = get_session_data env r (m_call_id msg) (m_role msg) (m_function msg)
                          (m_trail msg) s
      in case found of
           None \<Rightarrow> (SetRemote sess sess True r rs, s1)
         | Some y \<Rightarrow> (SetRemote sess (bump_session y) False r rs, s1))"
| "task_step env sm msg (SetRemote sess x new_session r rs, s) =
     (let (rc, s1) = set_session_data env r (m_call_id msg) (m_role msg) (m_function msg) x new_session s
      in if rc \<noteq> DATA_CONTENTION then (NextRemote sess rs, s1) else (NextRemote sess (r # rs), s1))"
| "task_step env sm msg (DeleteLocal sess, s) =
     (let (rc, s1) = delete_session_data_cas env (local_store sm) (m_call_id msg) (m_role msg)
                       (m_function msg) sess s
      in if rc = DATA_CONTENTION then (GetLocal, s1) else (DeleteRemote sess (remote_stores sm), s1))"
| "task_step env sm msg (DeleteRemote sess [], s) =
     (SendAcr (fill_from_session msg sess),
      if s_timer_id sess \<noteq> ''NO_TIMER'' then delete_timer env (s_timer_id sess) s else s)"
| "task_step env sm msg (DeleteRemote sess (r # rs), s) =
     (let (rc, s1) = delete_session_data env r (m_call_id msg) (m_role msg) (m_function msg) s
      in if rc \<noteq> DATA_CONTENTION then (DeleteRemote sess rs, s1) else (DeleteRemote sess (r # rs), s1))"
| "task_step env sm msg (SendAcr m, s) =
     (case send_to_peer env sm m s of
        Inl c \<Rightarrow> (Returned (Some c), s)
      | Inr s1 \<Rightarrow> (Returned None, s1))"
| "task_step env sm msg (Returned r, s) = (Returned r, s)"

text \<open>Every step of a thread that has not returned changes something.\<close>

lemma task_step_moves:
  assumes "task_step env sm msg (pc, s) = (pc, s)"
  shows "\<exists>r. pc = Returned r"
proof (cases "(env, sm, msg, (pc, s))" rule: task_step.cases)
  case (10 env sm msg sess r rs s)
  have "delete_session_data env r call role func s \<noteq> (rc, s)" for call role func rc
    by (auto simp: delete_session_data_def Let_def split: prod.split dest: arg_cong [of _ _ trace])
  with 10 assms show ?thesis by (auto split: prod.splits if_splits)
qed (use assms in \<open>auto simp: session_found_def split: prod.splits option.splits if_splits sum.splits\<close>)

section \<open>Undisturbed runs\<close>

definition task_run ::
  "'w env \<Rightarrow> session_manager \<Rightarrow> message \<Rightarrow> task_pc \<times> 'w io \<Rightarrow> task_pc \<times> 'w io \<Rightarrow> bool" where
  "task_run env sm msg c c' \<longleftrightarrow> (\<exists>n. (task_step env sm msg ^^ n) c = c')"

definition task_outcome :: "crash option \<Rightarrow> 'w io \<Rightarrow> crash + 'w io" where
  "task_outcome r s = (case r of None \<Rightarrow> Inr s | Some c \<Rightarrow> Inl c)"

lemma task_run_refl [simp, intro]: "task_run env sm msg c c"
  unfolding task_run_def by (rule exI [of _ 0]) simp

lemma task_run_step: "task_run env sm msg (task_step env sm msg c) c' \<Longrightarrow> task_run env sm msg c c'"
  unfolding task_run_def
proof (elim exE)
  fix n assume "(task_step env sm msg ^^ n) (task_step env sm msg c) = c'"
  then have "(task_step env sm msg ^^ Suc n) c = c'" by (simp only: funpow_Suc_right o_apply)
  then show "\<exists>n. (task_step env sm msg ^^ n) c = c'" by blast
qed

lemma task_run_trans:
  assumes "task_run env sm msg c c'" "task_run env sm msg c' c''"
  shows "task_run env sm msg c c''"
proof -
  obtain n m where "(task_step env sm msg ^^ n) c = c'" "(task_step env sm msg ^^ m) c' = c''"
    using assms by (auto simp: task_run_def)
  then have "(task_step env sm msg ^^ (m + n)) c = c''" by (simp add: funpow_add)
  then show ?thesis unfolding task_run_def by blast
qed

lemma task_run_GetRemote:
  assumes "find_remote_session env msg rs s = (found, s')"
  shows "task_run env sm msg (GetRemote rs, s)
    (case found of None \<Rightarrow> (GetRemote [], s') | Some x \<Rightarrow> (session_found msg x True, s'))"
  using assms
proof (induction rs arbitrary: s)
  case (Cons r rs)
  obtain y s1 where g: "get_session_data env r (m_call_id msg) (m_role msg) (m_function msg)
      (m_trail msg) s = (y, s1)" by fastforce
  show ?case
  proof (cases y)
    case None
    with Cons.prems g have "find_remote_session env msg rs s1 = (found, s')" by simp
    from Cons.IH [OF this] g None show ?thesis by (auto intro: task_run_step)
  next
    case (Some x)
    with Cons.prems g show ?thesis by (auto intro: task_run_step)
  qed
qed simp

text \<open>Looking for the session: the thread stops at the branch, or deletes the message.\<close>

lemma task_run_find_session:
  assumes "find_session env sm msg s = ((found, new), s')"
  shows "task_run env sm msg (GetLocal, s)
    (case found of None \<Rightarrow> (Returned None, emit MessageDeleted s')
     | Some x \<Rightarrow> (session_found msg x new, s'))"
proof -
  obtain y s1 where g: "get_session_data env (local_store sm) (m_call_id msg) (m_role msg)
      (m_function msg) (m_trail msg) s = (y, s1)" by fastforce
  show ?thesis
  proof (cases y)
    case (Some x)
    with assms g show ?thesis by (auto simp: find_session_def intro: task_run_step)
  next
    case None
    with assms g have f: "find_remote_session env msg (remote_stores sm) s1 = (found, s')" "new"
      by (auto simp: find_session_def split: prod.splits)
    have "task_run env sm msg (GetRemote [], s') (Returned None, emit MessageDeleted s')"
      by (rule task_run_step) simp
    with task_run_GetRemote [OF f(1), of sm] f(2)
    have "task_run env sm msg (GetRemote (remote_stores sm), s1)
       (case found of None \<Rightarrow> (Returned None, emit MessageDeleted s')
        | Some x \<Rightarrow> (session_found msg x new, s'))"
      by (auto split: option.splits intro: task_run_trans)
    with g None show ?thesis by (intro task_run_step [of _ _ _ "(GetLocal, s)"]) simp
  qed
qed

lemma task_run_interim_remotes:
  assumes "interim_remotes env msg sess rs s = Some s'"
  shows "task_run env sm msg (NextRemote sess rs, s) (SendAcr (fill_from_session msg sess), s')"
  using assms
proof (induction rule: interim_remotes_induct)
  case (finished s)
  show ?case by (rule task_run_step) simp
next
  case (iteration r rest s rc s1 s')
  have "task_run env sm msg (NextRemote sess (r # rest), s)
      (NextRemote sess (if rc = DATA_CONTENTION then r # rest else rest), s1)"
    using iteration(1)
    by (intro task_run_step [of _ _ _ "(NextRemote _ _, _)"]
          task_run_step [of _ _ _ "task_step env sm msg (NextRemote sess (r # rest), s)"])
       (auto simp: interim_remote_once_def split: prod.splits option.splits)
  then show ?case using iteration(2) by (rule task_run_trans)
qed

lemma task_run_stop_remotes:
  assumes "stop_remotes env msg rs s = Some s'"
  shows "task_run env sm msg (DeleteRemote sess rs, s) (SendAcr (fill_from_session msg sess),
    if s_timer_id sess \<noteq> ''NO_TIMER'' then delete_timer env (s_timer_id sess) s' else s')"
  using assms
proof (induction rule: stop_remotes_induct)
  case (finished s)
  show ?case by (rule task_run_step) simp
next
  case (iteration r rest s rc s1 s')
  have "task_run env sm msg (DeleteRemote sess (r # rest), s)
      (DeleteRemote sess (if rc = DATA_CONTENTION then r # rest else rest), s1)"
    using iteration(1) by (intro task_run_step [of _ _ _ "(DeleteRemote _ _, _)"]) auto
  then show ?case using iteration(2) by (rule task_run_trans)
qed

text \<open>One attempt at the stores: it ends back at the start or in front of the ACR.\<close>

lemma task_run_update_stores:
  assumes "update_stores env sm msg (bump_session x) new s = Some a"
  shows "task_run env sm msg (session_found msg x new, s)
    (case a of Restart s' \<Rightarrow> (GetLocal, s')
     | Proceed s' \<Rightarrow> (SendAcr (fill_from_session msg (bump_session x)), s'))"
proof (cases "isInterim (m_record_type msg)")
  case True
  obtain rc s1 where p: "set_session_data env (local_store sm) (m_call_id msg) (m_role msg)
      (m_function msg) (bump_session x) new s = (rc, s1)" by fastforce
  show ?thesis
    using assms True p
    by (intro task_run_step [of _ _ _ "(session_found _ _ _, _)"])
       (auto simp: update_stores_def interim_update_def session_found_def split: if_splits
         intro: task_run_interim_remotes)
next
  case False
  obtain rc s1 where p: "delete_session_data_cas env (local_store sm) (m_call_id msg) (m_role msg)
      (m_function msg) (bump_session x) s = (rc, s1)" by fastforce
  show ?thesis
  proof (cases "rc = DATA_CONTENTION")
    case True
    with assms False p show ?thesis
      by (intro task_run_step [of _ _ _ "(session_found _ _ _, _)"])
         (auto simp: update_stores_def stop_update_def session_found_def)
  next
    case proceed: False
    with assms False p obtain s2 where r: "stop_remotes env msg (remote_stores sm) s1 = Some s2"
      "a = Proceed (if s_timer_id (bump_session x) \<noteq> ''NO_TIMER''
         then delete_timer env (s_timer_id (bump_session x)) s2 else s2)"
      by (auto simp: update_stores_def stop_update_def)
    with False p proceed task_run_stop_remotes [OF r(1), of sm "bump_session x"] show ?thesis
      by (intro task_run_step [of _ _ _ "(session_found _ _ _, _)"])
         (simp add: session_found_def)
  qed
qed

lemma task_run_send:
  "\<exists>c s'. task_run env sm msg (SendAcr m, s) (Returned c, s') \<and> task_outcome c s' = send_to_peer env sm m s"
proof (cases "send_to_peer env sm m s")
  case (Inl c)
  then have "task_run env sm msg (SendAcr m, s) (Returned (Some c), s)"
    by (intro task_run_step [of _ _ _ "(SendAcr m, s)"]) simp
  with Inl show ?thesis by (fastforce simp: task_outcome_def)
next
  case (Inr s')
  then have "task_run env sm msg (SendAcr m, s) (Returned None, s')"
    by (intro task_run_step [of _ _ _ "(SendAcr m, s)"]) simp
  with Inr show ?thesis by (fastforce simp: task_outcome_def)
qed

lemma handle_task_run:
  assumes "handle env sm msg s = Some r"
  shows "\<exists>c s'. task_run env sm msg (task_start msg, s) (Returned c, s') \<and> task_outcome c s' = r"
  using assms
proof (induction rule: handle_induct)
  case (first s)
  then show ?case using task_run_send by (simp add: task_start_def)
next
  case (missing s new s1)
  then show ?case using task_run_find_session [OF missing(2)]
    by (auto simp: task_start_def task_outcome_def intro!: exI [of _ None])
next
  case (restart s x new s1 s2 r)
  have "task_run env sm msg (GetLocal, s) (GetLocal, s2)"
    using task_run_trans [OF task_run_find_session [OF restart(2)]] task_run_update_stores [OF restart(3)]
    by simp
  with restart(1,4) show ?case by (auto simp: task_start_def intro: task_run_trans)
next
  case (proceed s x new s1 s2)
  have "task_run env sm msg (GetLocal, s) (SendAcr (fill_from_session msg (bump_session x)), s2)"
    using task_run_trans [OF task_run_find_session [OF proceed(2)]] task_run_update_stores [OF proceed(3)]
    by simp
  with proceed(1) task_run_send show ?case by (fastforce simp: task_start_def intro: task_run_trans)
qed

section \<open>What a thread still has to do\<close>

text \<open>
  The remaining work at each point, in terms of the recursive definitions. A step of the thread
  never changes it.
\<close>

definition rest_of_attempt ::
  "'w env \<Rightarrow> session_manager \<Rightarrow> message \<Rightarrow> session \<Rightarrow> 'w io attempt option \<Rightarrow> (crash + 'w io) option" where
  "rest_of_attempt env sm msg x a =
     Option.bind a (\<lambda>r. case r of Restart s \<Rightarrow> handle env sm msg s
                        | Proceed s \<Rightarrow> Some (send_to_peer env sm (fill_from_session msg x) s))"

fun task_rest ::
  "'w env \<Rightarrow> session_manager \<Rightarrow> message \<Rightarrow> task_pc \<times> 'w io \<Rightarrow> (crash + 'w io) option" where
  "task_rest env sm msg (GetLocal, s) = handle env sm msg s"
| "task_rest env sm msg (GetRemote rs, s) =
     (case find_remote_session env msg rs s of
        (None, s1) \<Rightarrow> Some (Inr (emit MessageDeleted s1))
      | (Some x, s1) \<Rightarrow>
          rest_of_attempt env sm msg (bump_session x) (update_stores env sm msg (bump_session x) True s1))"
| "task_rest env sm msg (SetLocal x new, s) = rest_of_attempt env sm msg x (interim_update env sm msg x new s)"
| "task_rest env sm msg (NextRemote x rs, s) =
     rest_of_attempt env sm msg x (map_option Proceed (interim_remotes env msg x rs s))"
| "task_rest env sm msg (SetRemote x y new r rs, s) =
     (let (rc, s1) = set_session_data env r (m_call_id msg) (m_role msg) (m_function msg) y new s
      in rest_of_attempt env sm msg x (map_option Proceed
           (interim_remotes env msg x (if rc \<noteq> DATA_CONTENTION then rs else r # rs) s1)))"
| "task_rest env sm msg (DeleteLocal x, s) = rest_of_attempt env sm msg x (stop_update env sm msg x s)"
| "task_rest env sm msg (DeleteRemote x rs, s) =
     rest_of_attempt env sm msg x
       (map_option (\<lambda>s2. Proceed (if s_timer_id x \<noteq> ''NO_TIMER'' then delete_timer env (s_timer_id x) s2
           else s2))
          (stop_remotes env msg rs s))"
| "task_rest env sm msg (SendAcr m, s) = Some (send_to_peer env sm m s)"
| "task_rest env sm msg (Returned c, s) = Some (task_outcome c s)"

lemma task_rest_session_found:
  "task_rest env sm msg (session_found msg x new, s) =
     rest_of_attempt env sm msg (bump_session x) (update_stores env sm msg (bump_session x) new s)"
  by (simp add: session_found_def update_stores_def)

lemma handle_rest_of_attempt:
  assumes "isInterim (m_record_type msg) \<or> isStop (m_record_type msg)"
  shows "handle env sm msg s =
    (case find_session env sm msg s of
       ((None, new), s1) \<Rightarrow> Some (Inr (emit MessageDeleted s1))
     | ((Some x, new), s1) \<Rightarrow>
         rest_of_attempt env sm msg (bump_session x) (update_stores env sm msg (bump_session x) new s1))"
  using assms by (subst handle.simps) (simp add: rest_of_attempt_def Let_def split: prod.split option.split)

lemma task_rest_GetLocal:
  assumes "isInterim (m_record_type msg) \<or> isStop (m_record_type msg)"
  shows "task_rest env sm msg (task_step env sm msg (GetLocal, s)) = task_rest env sm msg (GetLocal, s)"
  unfolding task_rest.simps(1) handle_rest_of_attempt [OF assms]
  by (auto simp: find_session_def task_rest_session_found split: prod.split option.split)

lemma task_rest_remote:
  "task_rest env sm msg (task_step env sm msg (NextRemote x rs, s)) = task_rest env sm msg (NextRemote x rs, s)"
  "task_rest env sm msg (task_step env sm msg (DeleteRemote x rs, s)) =
      task_rest env sm msg (DeleteRemote x rs, s)"
proof -
  show "task_rest env sm msg (task_step env sm msg (NextRemote x rs, s)) =
      task_rest env sm msg (NextRemote x rs, s)"
  proof (cases rs)
    case Nil
    then show ?thesis by (simp add: rest_of_attempt_def interim_remotes.simps)
  next
    case (Cons r rest)
    have "interim_remotes env msg x (r # rest) s =
        (let (rc, s1) = interim_remote_once env msg x r s
         in interim_remotes env msg x (if rc \<noteq> DATA_CONTENTION then rest else r # rest) s1)"
      by (subst interim_remotes.simps) (simp split: prod.split)
    with Cons show ?thesis
      by (auto simp: interim_remote_once_def split: prod.splits option.splits)
  qed
  show "task_rest env sm msg (task_step env sm msg (DeleteRemote x rs, s)) =
      task_rest env sm msg (DeleteRemote x rs, s)"
    by (cases rs) (auto simp: rest_of_attempt_def stop_remotes.simps [of _ _ "_ # _"]
        stop_remotes.simps [of _ _ "[]"] split: prod.split)
qed

lemma task_rest_step:
  assumes "isInterim (m_record_type msg) \<or> isStop (m_record_type msg)"
  shows "task_rest env sm msg (task_step env sm msg c) = task_rest env sm msg c"
proof (cases "(env, sm, msg, c)" rule: task_step.cases)
  case (1 env' sm' msg' s)
  with task_rest_GetLocal [OF assms] show ?thesis by (simp del: task_step.simps task_rest.simps)
next
  case (3 env' sm' msg' r rs s)
  then show ?thesis by (auto simp: task_rest_session_found split: prod.split option.split)
next
  case (4 env' sm' msg' x new s)
  then show ?thesis by (auto simp: interim_update_def rest_of_attempt_def split: prod.split)
next
  case (5 env' sm' msg' x s)
  with task_rest_remote(1) [of env sm msg x "[]"] show ?thesis by simp
next
  case (6 env' sm' msg' x r rs s)
  with task_rest_remote(1) [of env sm msg x "r # rs"] show ?thesis
      by (simp del: task_step.simps task_rest.simps)
next
  case (7 env' sm' msg' x y new r rs s)
  then show ?thesis by (auto split: prod.split)
next
  case (8 env' sm' msg' x s)
  then show ?thesis by (auto simp: stop_update_def rest_of_attempt_def split: prod.split)
next
  case (9 env' sm' msg' x s)
  with task_rest_remote(2) [of env sm msg x "[]"] show ?thesis by (simp del: task_step.simps task_rest.simps)
next
  case (10 env' sm' msg' x r rs s)
  with task_rest_remote(2) [of env sm msg x "r # rs"] show ?thesis
      by (simp del: task_step.simps task_rest.simps)
next
  case (11 env' sm' msg' m s)
  then show ?thesis by (auto simp: task_outcome_def split: sum.split)
qed (auto simp: task_outcome_def)

lemma task_rest_run:
  assumes "isInterim (m_record_type msg) \<or> isStop (m_record_type msg)" "task_run env sm msg c c'"
  shows "task_rest env sm msg c' = task_rest env sm msg c"
proof -
  have "task_rest env sm msg ((task_step env sm msg ^^ n) c) = task_rest env sm msg c" for n
    by (induction n) (simp_all add: task_rest_step [OF assms(1)])
  with assms(2) show ?thesis by (auto simp: task_run_def)
qed

lemma task_step_SendAcr_run:
  assumes "task_run env sm msg (SendAcr m, s) (Returned c, s')"
  shows "task_outcome c s' = send_to_peer env sm m s"
proof -
  let ?late = "\<lambda>c. fst c = SendAcr m \<or> fst c \<in> range Returned"
  have step: "task_rest env sm msg (task_step env sm msg c) = task_rest env sm msg c \<and>
      ?late (task_step env sm msg c)"
    if "?late c" for c
    using that by (cases c) (auto simp: task_outcome_def split: sum.split)
  have "task_rest env sm msg ((task_step env sm msg ^^ n) (SendAcr m, s)) = Some (send_to_peer env sm m s) \<and>
      ?late ((task_step env sm msg ^^ n) (SendAcr m, s))" for n
    by (induction n) (use step in auto)
  with assms show ?thesis by (metis task_run_def task_rest.simps(9) option.inject)
qed

lemma task_run_handle:
  assumes "task_run env sm msg (task_start msg, s) (Returned c, s')"
  shows "handle env sm msg s = Some (task_outcome c s')"
proof (cases "isInterim (m_record_type msg) \<or> isStop (m_record_type msg)")
  case True
  with task_rest_run [OF True assms] show ?thesis by (simp add: task_start_def)
next
  case False
  with assms task_step_SendAcr_run [of env sm msg "msg\<lparr>m_accounting_record_number := 1\<rparr>" s c s']
  show ?thesis by (subst handle.simps) (simp add: task_start_def)
qed

lemma handle_iff_task_run:
  "handle env sm msg s = Some r \<longleftrightarrow>
     (\<exists>c s'. task_run env sm msg (task_start msg, s) (Returned c, s') \<and> task_outcome c s' = r)"
  using handle_task_run task_run_handle by blast

end
