(* ===== verification/Ccf_Response.thy ===== *)
theory Ccf_Response
  imports Session_Manager
begin

text \<open>
  The second half of \<open>SessionManager\<close> (src/session_manager.cpp): what happens when the CCF
  has answered. \<open>on_ccf_response\<close> logs the outcome, creates or updates the Chronos timer,
  writes or deletes the session and disposes of the message. It has no retry loop: every write
  is attempted once per store.
\<close>

section \<open>Helpers\<close>

definition opaque_json :: "message \<Rightarrow> json" where
  "opaque_json msg =
     JObject
       [(''event'', JObject
          [(''Service-Information'', JObject
             [(''IMS-Information'', JObject
                [(''Role-Of-Node'', JInt (m_role msg)),
                 (''Node-Functionality'', JInt (m_function msg))])]),
           (''Accounting-Record-Type'', JInt 3)])]"

definition create_opaque_data :: "'w env \<Rightarrow> message \<Rightarrow> string" where
  "create_opaque_data env msg = c_str (json_write env (opaque_json msg))"

definition callback_uri :: "'w env \<Rightarrow> message \<Rightarrow> string" where
  "callback_uri env msg = ''/call-id/'' @ url_escape env (m_call_id msg) @ ''?timer-interim=true''"

definition sas_log_ccf_response :: "bool \<Rightarrow> string \<Rightarrow> message \<Rightarrow> 'w io \<Rightarrow> 'w io" where
  "sas_log_ccf_response accepted session_id msg s =
     (let log = (\<lambda>event_id. emit (SasEvent (m_trail msg) event_id
                   [u32_of_int (m_role msg), u32_of_int (m_function msg)] [session_id]) s)
      in if isStart (m_record_type msg)
         then log (if accepted then NEW_RF_SESSION_OK else NEW_RF_SESSION_ERR)
         else if isInterim (m_record_type msg)
         then log (if accepted then CONTINUED_RF_SESSION_OK else CONTINUED_RF_SESSION_ERR)
         else if isStop (m_record_type msg)
         then log (if accepted then END_RF_SESSION_OK else END_RF_SESSION_ERR)
         else s)"

text \<open>\<open>send_post\<close> takes its timer identifier by reference: what it leaves there is returned.\<close>

definition timer_post ::
  "'w env \<Rightarrow> string \<Rightarrow> u32 \<Rightarrow> u32 \<Rightarrow> string \<Rightarrow> string \<Rightarrow> 'w io \<Rightarrow> (http_code \<times> string) \<times> 'w io" where
  "timer_post env timer_id interval repeat_for uri opaque s =
     (let ((status, timer_id'), w) =
            send_post env timer_id interval repeat_for uri opaque timer_tags (world s)
      in ((status, timer_id'),
          called w (TimerPost interval repeat_for uri opaque timer_tags status timer_id') s))"

definition timer_put ::
  "'w env \<Rightarrow> string \<Rightarrow> u32 \<Rightarrow> u32 \<Rightarrow> string \<Rightarrow> string \<Rightarrow> 'w io \<Rightarrow> string \<times> 'w io" where
  "timer_put env timer_id interval repeat_for uri opaque s =
     (let ((status, timer_id'), w) =
            send_put env timer_id interval repeat_for uri opaque timer_tags (world s)
      in (timer_id',
          called w (TimerPut timer_id interval repeat_for uri opaque timer_tags timer_id') s))"

definition send_chronos_update ::
  "'w env \<Rightarrow> string \<Rightarrow> u32 \<Rightarrow> u32 \<Rightarrow> string \<Rightarrow> string \<Rightarrow> 'w io \<Rightarrow> string \<times> 'w io" where
  "send_chronos_update env timer_id interim_interval session_refresh_time uri opaque s =
     (if timer_id = NO_TIMER
      then (let ((status, timer_id'), s1) =
                  timer_post env timer_id interim_interval session_refresh_time uri opaque s
            in (timer_id', s1))
      else timer_put env timer_id interim_interval session_refresh_time uri opaque s)"

fun update_timer_id_loop ::
  "'w env \<Rightarrow> store_id list \<Rightarrow> string \<Rightarrow> message \<Rightarrow> 'w io \<Rightarrow> message \<times> 'w io" where
  "update_timer_id_loop env [] timer_id msg s = (msg, s)"
| "update_timer_id_loop env (store # stores) timer_id msg s =
     (let (found, s1) =
            get_session_data env store (m_call_id msg) (m_role msg) (m_function msg) (m_trail msg) s
      in case found of
           None \<Rightarrow> update_timer_id_loop env stores timer_id msg s1
         | Some sess \<Rightarrow>
             (let (rc, s2) = set_session_data env store (m_call_id msg) (m_role msg)
                               (m_function msg) (sess\<lparr>s_timer_id := timer_id\<rparr>) False s1
              in update_timer_id_loop env stores timer_id (msg\<lparr>m_timer_id := timer_id\<rparr>) s2))"

definition update_timer_id ::
  "'w env \<Rightarrow> session_manager \<Rightarrow> message \<Rightarrow> string \<Rightarrow> 'w io \<Rightarrow> message \<times> 'w io" where
  "update_timer_id env sm msg timer_id s =
     update_timer_id_loop env (local_store sm # remote_stores sm) timer_id msg s"

text \<open>The two loops that visit every store once and ignore the status.\<close>

fun set_all_stores ::
  "'w env \<Rightarrow> message \<Rightarrow> session \<Rightarrow> store_id list \<Rightarrow> 'w io \<Rightarrow> 'w io" where
  "set_all_stores env msg sess [] s = s"
| "set_all_stores env msg sess (store # stores) s =
     (let (rc, s1) = set_session_data env store (m_call_id msg) (m_role msg) (m_function msg)
                       sess True s
      in set_all_stores env msg sess stores s1)"

fun delete_all_stores :: "'w env \<Rightarrow> message \<Rightarrow> store_id list \<Rightarrow> 'w io \<Rightarrow> 'w io" where
  "delete_all_stores env msg [] s = s"
| "delete_all_stores env msg (store # stores) s =
     (let (rc, s1) = delete_session_data env store (m_call_id msg) (m_role msg) (m_function msg) s
      in delete_all_stores env msg stores s1)"

section \<open>on_ccf_response\<close>

definition effective_interval :: "u32 \<Rightarrow> message \<Rightarrow> u32" where
  "effective_interval interim_interval msg =
     (if interim_interval = 0
      then (if m_interim_interval msg = 0 then m_session_refresh_time msg
            else m_interim_interval msg)
      else interim_interval)"

text \<open>The timer update of an INTERIM, and the new identifier written back when it has changed.\<close>

definition renew_timer ::
  "'w env \<Rightarrow> session_manager \<Rightarrow> u32 \<Rightarrow> message \<Rightarrow> bool \<Rightarrow> 'w io \<Rightarrow> 'w io" where
  "renew_timer env sm interim_interval msg log_renewal s =
     (let (timer_id, s1) =
            send_chronos_update env (m_timer_id msg) interim_interval (m_session_refresh_time msg)
              (callback_uri env msg) (create_opaque_data env msg) s;
          s2 = (if log_renewal
                then emit (SasEvent (m_trail msg) INTERIM_TIMER_RENEWED [interim_interval] []) s1
                else s1)
      in if timer_id \<noteq> m_timer_id msg then snd (update_timer_id env sm msg timer_id s2) else s2)"

definition start_timer ::
  "'w env \<Rightarrow> u32 \<Rightarrow> message \<Rightarrow> 'w io \<Rightarrow> string \<times> 'w io" where
  "start_timer env interim_interval msg s =
     (if m_session_refresh_time msg > interim_interval
      then (let ((status, timer_id), s1) =
                  timer_post env NO_TIMER interim_interval (m_session_refresh_time msg)
                    (callback_uri env msg) (create_opaque_data env msg) s
            in (timer_id,
                if status = HTTP_OK
                then emit (SasEvent (m_trail msg) INTERIM_TIMER_CREATED [interim_interval] []) s1
                else s1))
      else (NO_TIMER, s))"

definition started_session :: "u32 \<Rightarrow> string \<Rightarrow> string \<Rightarrow> message \<Rightarrow> session" where
  "started_session interim_interval session_id timer_id msg =
     new_Session\<lparr>s_session_id := session_id, s_interim_interval := interim_interval,
       s_timer_id := timer_id, s_ccf := m_ccfs msg,
       s_acct_record_number := m_accounting_record_number msg,
       s_session_refresh_time := m_session_refresh_time msg\<rparr>"

text \<open>
  The code also stores the timer identifier in the message, which is freed right afterwards and
  not read in between.
\<close>

definition record_start ::
  "'w env \<Rightarrow> session_manager \<Rightarrow> u32 \<Rightarrow> string \<Rightarrow> message \<Rightarrow> 'w io \<Rightarrow> 'w io" where
  "record_start env sm interim_interval session_id msg s =
     (let (timer_id, s1) = start_timer env interim_interval msg s;
          sess = started_session interim_interval session_id timer_id msg
      in set_all_stores env msg sess (local_store sm # remote_stores sm) s1)"

definition on_ccf_response ::
  "'w env \<Rightarrow> session_manager \<Rightarrow> bool \<Rightarrow> u32 \<Rightarrow> string \<Rightarrow> int \<Rightarrow> message \<Rightarrow> 'w io \<Rightarrow> 'w io" where
  "on_ccf_response env sm accepted interim_interval0 session_id rc msg s =
     (let s1 = sas_log_ccf_response accepted session_id msg s;
          interim_interval = effective_interval interim_interval0 msg;
          s2 =
            (if accepted then
               emit HealthCheckPassed
                 (if isInterim (m_record_type msg) \<and> \<not> m_timer_interim msg \<and>
                     m_session_refresh_time msg > interim_interval
                  then renew_timer env sm interim_interval msg True s1
                  else if isStart (m_record_type msg)
                  then record_start env sm interim_interval session_id msg s1
                  else s1)
             else if isInterim (m_record_type msg) then
               (if rc = 5002
                then delete_all_stores env msg (local_store sm # remote_stores sm) s1
                else if \<not> m_timer_interim msg \<and> m_session_refresh_time msg > interim_interval
                then renew_timer env sm interim_interval msg False s1
                else s1)
             else s1)
      in emit MessageDeleted s2)"

end
