(* ===== verification/Answer_Steps.thy ===== *)
theory Answer_Steps
  imports Ccf_Response
begin

text \<open>
  \<open>SessionManager::on_ccf_response\<close> one call at a time. Answers of the CCF arrive on the threads of
  the Diameter stack, and while one of them is being handled the stores may change under it, as they
  may under \<open>handle\<close> (theory Task_Steps). An \<open>answer_pc\<close> is the point the thread has reached, with its
  local variables; \<open>answer_step\<close> executes the code up to and including the next call that leaves
  Ralf. A thread that runs undisturbed does what the definition of theory Ccf_Response does.
\<close>

section \<open>The points of on\_ccf\_response\<close>

text \<open>The parameters of the call.\<close>

record answer =
  a_accepted :: bool
  a_interim_interval :: u32
  a_session_id :: string
  a_rc :: int
  a_msg :: message

datatype answer_pc =
    AnswerStart
  | SetStarted session "store_id list"
  | DeleteGone "store_id list"
  | NextTimer string "store_id list"
  | SetTimer string session store_id "store_id list"
  | AnswerEnd
  | AnswerDone

text \<open>The update of the timer, in both branches that have one.\<close>

definition renew_step ::
  "'w env \<Rightarrow> session_manager \<Rightarrow> u32 \<Rightarrow> message \<Rightarrow> bool \<Rightarrow> 'w io \<Rightarrow> answer_pc \<times> 'w io" where
  "renew_step env sm interim_interval msg log_renewal s =
     (let (timer_id, s1) =
            send_chronos_update env (m_timer_id msg) interim_interval (m_session_refresh_time msg)
              (callback_uri env msg) (create_opaque_data env msg) s;
          s2 = (if log_renewal
                then emit (SasEvent (m_trail msg) INTERIM_TIMER_RENEWED [interim_interval] []) s1
                else s1)
      in (if timer_id \<noteq> m_timer_id msg then NextTimer timer_id (local_store sm # remote_stores sm)
          else AnswerEnd, s2))"

definition answer_begin :: "'w env \<Rightarrow> session_manager \<Rightarrow> answer \<Rightarrow> 'w io \<Rightarrow> answer_pc \<times> 'w io" where
  "answer_begin env sm a s =
     (let msg = a_msg a;
          s1 = sas_log_ccf_response (a_accepted a) (a_session_id a) msg s;
          interim_interval = effective_interval (a_interim_interval a) msg;
          due = (\<not> m_timer_interim msg \<and> m_session_refresh_time msg > interim_interval)
      in if a_accepted a then
           (if isInterim (m_record_type msg) \<and> due
            then renew_step env sm interim_interval msg True s1
            else if isStart (m_record_type msg)
            then (let (timer_id, s2) = start_timer env interim_interval msg s1
                  in (SetStarted (started_session interim_interval (a_session_id a) timer_id msg)
                        (local_store sm # remote_stores sm), s2))
            else (AnswerEnd, s1))
         else if isInterim (m_record_type msg) then
           (if a_rc a = 5002 then (DeleteGone (local_store sm # remote_stores sm), s1)
            else if due then renew_step env sm interim_interval msg False s1
            else (AnswerEnd, s1))
         else (AnswerEnd, s1))"

fun answer_step ::
  "'w env \<Rightarrow> session_manager \<Rightarrow> answer \<Rightarrow> answer_pc \<times> 'w io \<Rightarrow> answer_pc \<times> 'w io" where
  "answer_step env sm a (AnswerStart, s) = answer_begin env sm a s"
| "answer_step env sm a (SetStarted x [], s) = (AnswerEnd, s)"
| "answer_step env sm a (SetStarted x (st # sts), s) =
     (SetStarted x sts, snd (set_session_data env st (m_call_id (a_msg a)) (m_role (a_msg a))
        (m_function (a_msg a)) x True s))"
| "answer_step env sm a (DeleteGone [], s) = (AnswerEnd, s)"
| "answer_step env sm a (DeleteGone (st # sts), s) =
     (DeleteGone sts, snd (delete_session_data env st (m_call_id (a_msg a)) (m_role (a_msg a))
        (m_function (a_msg a)) s))"
| "answer_step env sm a (NextTimer timer_id [], s) = (AnswerEnd, s)"
| "answer_step env sm a (NextTimer timer_id (st # sts), s) =
     (let (found, s1) = get_session_data env st (m_call_id (a_msg a)) (m_role (a_msg a))
                          (m_function (a_msg a)) (m_trail (a_msg a)) s
      in case found of
           None \<Rightarrow> (NextTimer timer_id sts, s1)
         | Some sess \<Rightarrow> (SetTimer timer_id (sess\<lparr>s_timer_id := timer_id\<rparr>) st sts, s1))"
| "answer_step env sm a (SetTimer timer_id x st sts, s) =
     (NextTimer timer_id sts, snd (set_session_data env st (m_call_id (a_msg a)) (m_role (a_msg a))
        (m_function (a_msg a)) x False s))"
| "answer_step env sm a (AnswerEnd, s) =
     (AnswerDone, emit MessageDeleted (if a_accepted a then emit HealthCheckPassed s else s))"
| "answer_step env sm a (AnswerDone, s) = (AnswerDone, s)"

section \<open>Undisturbed runs\<close>

definition answer_run ::
  "'w env \<Rightarrow> session_manager \<Rightarrow> answer \<Rightarrow> answer_pc \<times> 'w io \<Rightarrow> answer_pc \<times> 'w io \<Rightarrow> bool" where
  "answer_run env sm a c c' \<longleftrightarrow> (\<exists>n. (answer_step env sm a ^^ n) c = c')"

lemma answer_run_refl [simp, intro]: "answer_run env sm a c c"
  unfolding answer_run_def by (rule exI [of _ 0]) simp

lemma answer_run_step: "answer_run env sm a (answer_step env sm a c) c' \<Longrightarrow> answer_run env sm a c c'"
  unfolding answer_run_def by (metis funpow_Suc_right o_apply)

lemma answer_run_trans:
  "answer_run env sm a c c' \<Longrightarrow> answer_run env sm a c' c'' \<Longrightarrow> answer_run env sm a c c''"
  unfolding answer_run_def by (metis funpow_add o_apply)

lemma answer_run_SetStarted:
  "answer_run env sm a (SetStarted x sts, s) (AnswerEnd, set_all_stores env (a_msg a) x sts s)"
  by (induction sts arbitrary: s) (simp_all add: answer_run_step split_beta)

lemma answer_run_DeleteGone:
  "answer_run env sm a (DeleteGone sts, s) (AnswerEnd, delete_all_stores env (a_msg a) sts s)"
  by (induction sts arbitrary: s) (simp_all add: answer_run_step split_beta)

text \<open>The loop reads only fields of the message that it does not change.\<close>

lemma answer_run_NextTimer:
  assumes "m_call_id m = m_call_id (a_msg a)" "m_role m = m_role (a_msg a)"
    "m_function m = m_function (a_msg a)" "m_trail m = m_trail (a_msg a)"
  shows "answer_run env sm a (NextTimer i sts, s) (AnswerEnd, snd (update_timer_id_loop env sts i m s))"
  using assms
proof (induction sts arbitrary: s m)
  case (Cons st sts)
  obtain found s1 where g: "get_session_data env st (m_call_id m) (m_role m) (m_function m) (m_trail m) s =
      (found, s1)" by fastforce
  show ?case
  proof (cases found)
    case None
    with Cons g show ?thesis by (auto intro: answer_run_step [of _ _ _ "(NextTimer i (st # sts), s)"])
  next
    case (Some x)
    obtain rc s2 where p: "set_session_data env st (m_call_id m) (m_role m) (m_function m)
        (x\<lparr>s_timer_id := i\<rparr>) False s1 = (rc, s2)" by fastforce
    from Cons.IH [of "m\<lparr>m_timer_id := i\<rparr>" s2] Cons.prems
    have "answer_run env sm a (NextTimer i sts, s2)
        (AnswerEnd, snd (update_timer_id_loop env sts i (m\<lparr>m_timer_id := i\<rparr>) s2))" by simp
    with p Cons.prems have "answer_run env sm a (SetTimer i (x\<lparr>s_timer_id := i\<rparr>) st sts, s1)
        (AnswerEnd, snd (update_timer_id_loop env sts i (m\<lparr>m_timer_id := i\<rparr>) s2))"
      by (intro answer_run_step [of _ _ _ "(SetTimer i (x\<lparr>s_timer_id := i\<rparr>) st sts, s1)"]) simp
    with Some g p Cons.prems show ?thesis
      by (intro answer_run_step [of _ _ _ "(NextTimer i (st # sts), s)"]) simp
  qed
qed (simp add: answer_run_step)

definition answer_outcome :: "'w env \<Rightarrow> session_manager \<Rightarrow> answer \<Rightarrow> 'w io \<Rightarrow> 'w io" where
  "answer_outcome env sm a s = on_ccf_response env sm (a_accepted a) (a_interim_interval a)
     (a_session_id a) (a_rc a) (a_msg a) s"

lemma answer_run_end:
  assumes "answer_run env sm a (pc, s) (AnswerEnd, s1)"
  shows "answer_run env sm a (pc, s)
    (AnswerDone, emit MessageDeleted (if a_accepted a then emit HealthCheckPassed s1 else s1))"
  by (rule answer_run_trans [OF assms], rule answer_run_step) simp

lemma renew_step_run:
  assumes "answer_step env sm a c = renew_step env sm n (a_msg a) log s"
  shows "answer_run env sm a c (AnswerEnd, renew_timer env sm n (a_msg a) log s)"
proof (rule answer_run_step)
  show "answer_run env sm a (answer_step env sm a c) (AnswerEnd, renew_timer env sm n (a_msg a) log s)"
    unfolding assms
    by (auto simp: renew_step_def renew_timer_def update_timer_id_def Let_def split_beta
        simp del: update_timer_id_loop.simps intro!: answer_run_NextTimer)
qed

text \<open>The branches of \<open>on_ccf_response\<close>, as the point they lead to and what the whole branch does.\<close>

lemma answer_begin_cases:
  fixes env sm a s
  defines "s1 \<equiv> sas_log_ccf_response (a_accepted a) (a_session_id a) (a_msg a) s"
    and "n \<equiv> effective_interval (a_interim_interval a) (a_msg a)"
    and "finish \<equiv> (\<lambda>s. emit MessageDeleted (if a_accepted a then emit HealthCheckPassed s else s))"
  obtains (renew) "answer_begin env sm a s = renew_step env sm n (a_msg a) (a_accepted a) s1"
      "answer_outcome env sm a s = finish (renew_timer env sm n (a_msg a) (a_accepted a) s1)"
  | (start) "answer_begin env sm a s = (let (timer_id, s2) = start_timer env n (a_msg a) s1
        in (SetStarted (started_session n (a_session_id a) timer_id (a_msg a)) (local_store sm #
            remote_stores sm), s2))"
      "answer_outcome env sm a s = finish (record_start env sm n (a_session_id a) (a_msg a) s1)"
  | (gone) "answer_begin env sm a s = (DeleteGone (local_store sm # remote_stores sm), s1)"
      "answer_outcome env sm a s = finish (delete_all_stores env (a_msg a) (local_store sm #
          remote_stores sm) s1)"
  | (quiet) "answer_begin env sm a s = (AnswerEnd, s1)" "answer_outcome env sm a s = finish s1"
proof -
  note defs = answer_begin_def answer_outcome_def on_ccf_response_def s1_def n_def finish_def Let_def
  show ?thesis
  proof (cases "a_accepted a")
    case acc: True
    consider "isInterim (m_record_type (a_msg a)) \<and> \<not> m_timer_interim (a_msg a) \<and>
        m_session_refresh_time (a_msg a) > n"
      | "\<not> (isInterim (m_record_type (a_msg a)) \<and> \<not> m_timer_interim (a_msg a) \<and>
          m_session_refresh_time (a_msg a) > n)"
        "isStart (m_record_type (a_msg a))"
      | "\<not> (isInterim (m_record_type (a_msg a)) \<and> \<not> m_timer_interim (a_msg a) \<and>
          m_session_refresh_time (a_msg a) > n)"
        "\<not> isStart (m_record_type (a_msg a))" by blast
    then show ?thesis
    proof cases
      case 1 with acc show ?thesis by (intro renew) (simp_all add: defs)
    next
      case 2 with acc show ?thesis by (intro start) (auto simp: defs)
    next
      case 3 with acc show ?thesis by (intro quiet) (auto simp: defs)
    qed
  next
    case rej: False
    consider "isInterim (m_record_type (a_msg a))" "a_rc a = 5002"
      | "isInterim (m_record_type (a_msg a))" "a_rc a \<noteq> 5002"
        "\<not> m_timer_interim (a_msg a) \<and> m_session_refresh_time (a_msg a) > n"
      | "isInterim (m_record_type (a_msg a))" "a_rc a \<noteq> 5002"
        "\<not> (\<not> m_timer_interim (a_msg a) \<and> m_session_refresh_time (a_msg a) > n)"
      | "\<not> isInterim (m_record_type (a_msg a))" by blast
    then show ?thesis
    proof cases
      case 1 with rej show ?thesis by (intro gone) (simp_all add: defs del: delete_all_stores.simps)
    next
      case 2 with rej show ?thesis by (intro renew) (simp_all add: defs)
    next
      case 3 with rej show ?thesis by (intro quiet) (auto simp: defs)
    next
      case 4 with rej show ?thesis by (intro quiet) (auto simp: defs)
    qed
  qed
qed

lemma on_ccf_response_run:
  "answer_run env sm a (AnswerStart, s) (AnswerDone, answer_outcome env sm a s)"
proof -
  let ?s1 = "sas_log_ccf_response (a_accepted a) (a_session_id a) (a_msg a) s"
  let ?n = "effective_interval (a_interim_interval a) (a_msg a)"
  have first_step: "answer_run env sm a (AnswerStart, s) (AnswerEnd, s2)"
    if "answer_run env sm a (answer_begin env sm a s) (AnswerEnd, s2)" for s2
    by (rule answer_run_step) (use that in simp)
  show ?thesis
  proof (cases rule: answer_begin_cases [of env sm a s])
    case renew
    have "answer_run env sm a (AnswerStart, s) (AnswerEnd, renew_timer env sm ?n (a_msg a) (a_accepted a) ?s1)"
      by (rule renew_step_run) (simp add: renew(1))
    from answer_run_end [OF this] renew(2) show ?thesis by simp
  next
    case start
    have "answer_run env sm a (AnswerStart, s) (AnswerEnd,
        record_start env sm ?n (a_session_id a) (a_msg a) ?s1)"
      by (rule first_step) (simp add: start(1) record_start_def split_beta answer_run_SetStarted del:
          set_all_stores.simps)
    from answer_run_end [OF this] start(2) show ?thesis by simp
  next
    case gone
    have "answer_run env sm a (AnswerStart, s)
        (AnswerEnd, delete_all_stores env (a_msg a) (local_store sm # remote_stores sm) ?s1)"
      by (rule first_step) (simp add: gone(1) answer_run_DeleteGone del: delete_all_stores.simps)
    from answer_run_end [OF this] gone(2) show ?thesis by simp
  next
    case quiet
    have "answer_run env sm a (AnswerStart, s) (AnswerEnd, ?s1)" by (rule first_step) (simp add: quiet(1))
    from answer_run_end [OF this] quiet(2) show ?thesis by simp
  qed
qed

text \<open>The last state is final, so there is only one.\<close>

lemma answer_done_final: "(answer_step env sm a ^^ n) (AnswerDone, s) = (AnswerDone, s)"
  by (induction n) simp_all

lemma answer_run_unique:
  assumes "answer_run env sm a c (AnswerDone, s1)" "answer_run env sm a c (AnswerDone, s2)"
  shows "s1 = s2"
proof -
  obtain m n where mn: "(answer_step env sm a ^^ m) c = (AnswerDone, s1)"
      "(answer_step env sm a ^^ n) c = (AnswerDone, s2)"
    using assms by (auto simp: answer_run_def)
  then have "(answer_step env sm a ^^ (n + m)) c = (AnswerDone, s1)"
      "(answer_step env sm a ^^ (m + n)) c = (AnswerDone, s2)"
    by (simp_all add: funpow_add answer_done_final)
  then show ?thesis by (simp add: add.commute)
qed

end
