(* ===== verification/Ralf_Transaction.thy ===== *)
theory Ralf_Transaction
  imports Ccf_Response
begin

text \<open>
  The callback half of the Diameter exchange: \<open>RalfTransaction\<close> (src/ralf_transaction.cpp) and
  \<open>PeerMessageSender::send_cb\<close> (src/peer_message_sender.cpp). The two result codes are those
  RFC 6733 assigns.
\<close>

definition ER_DIAMETER_SUCCESS :: int where "ER_DIAMETER_SUCCESS = 2001"
definition ER_DIAMETER_UNABLE_TO_DELIVER :: int where "ER_DIAMETER_UNABLE_TO_DELIVER = 3002"

lemmas diameter_codes = ER_DIAMETER_SUCCESS_def ER_DIAMETER_UNABLE_TO_DELIVER_def

definition send_cb ::
  "'w env \<Rightarrow> session_manager \<Rightarrow> peer_message_sender \<Rightarrow> int \<Rightarrow> int \<Rightarrow> string \<Rightarrow> 'w io \<Rightarrow>
   crash + 'w io" where
  "send_cb env sm pm result_code interim_interval session_id s =
     (case pms_msg pm of
        None \<Rightarrow> Inl UnsetMessage
      | Some msg \<Rightarrow>
          if result_code \<noteq> ER_DIAMETER_UNABLE_TO_DELIVER then
            Inr (on_ccf_response env sm (result_code = ER_DIAMETER_SUCCESS)
                   (u32_of_int interim_interval) session_id result_code msg s)
          else if \<not> unat (pms_which pm) < length (pms_ccfs pm) then Inl VectorIndexOutOfRange
          else
            (let s1 = emit (SasEvent (m_trail msg) BILLING_REQUEST_NOT_SENT []
                         [pms_ccfs pm ! unat (pms_which pm)]) s;
                 pm1 = pm\<lparr>pms_which := pms_which pm + 1\<rparr>
             in if unat (pms_which pm1) < length (pms_ccfs pm1) then
                  int_send_msg env pm1
                    (emit (SasEvent (m_trail msg) CDF_FAILOVER []
                             [pms_ccfs pm1 ! unat (pms_which pm1)]) s1)
                else Inr (on_ccf_response env sm False 0 '''' result_code msg s1)))"

text \<open>
  A received answer: the AVPs \<open>on_response\<close> asks for, \<open>None\<close> when one is missing, in which
  case the variable keeps the value it was initialised with.
\<close>

record diameter_answer =
  ans_result_code :: "int option"
  ans_session_id :: "string option"
  ans_interim_interval :: "int option"

definition on_response ::
  "'w env \<Rightarrow> session_manager \<Rightarrow> ralf_transaction \<Rightarrow> diameter_answer \<Rightarrow> 'w io \<Rightarrow> crash + 'w io" where
  "on_response env sm tsx rsp s =
     (let result_code = (case ans_result_code rsp of Some c \<Rightarrow> c | None \<Rightarrow> 0);
          session_id = (case ans_session_id rsp of Some i \<Rightarrow> i
                        | None \<Rightarrow> ''<value not found in Diameter message>'');
          interim_interval = (case ans_interim_interval rsp of Some v \<Rightarrow> v | None \<Rightarrow> 0);
          event_id = (if result_code = 2001 then BILLING_REQUEST_SUCCEEDED
                      else BILLING_REQUEST_REJECTED);
          s1 = emit (SasEvent (m_trail (tsx_msg tsx)) event_id [] [session_id]) s
      in send_cb env sm (tsx_peer_sender tsx) result_code interim_interval session_id s1)"

definition on_timeout ::
  "'w env \<Rightarrow> session_manager \<Rightarrow> ralf_transaction \<Rightarrow> 'w io \<Rightarrow> crash + 'w io" where
  "on_timeout env sm tsx s =
     send_cb env sm (tsx_peer_sender tsx) ER_DIAMETER_UNABLE_TO_DELIVER 0 '''' s"

end
