(* ===== verification/Billing_Handler.thy ===== *)
theory Billing_Handler
  imports Ralf_Transaction
begin

text \<open>
  The HTTP front end: \<open>BillingTask::run\<close> and \<open>BillingTask::parse_body\<close>
  (src/handlers.cpp, include/handlers.hpp). The request is what the HTTP stack answers to the
  accessors the code calls. Debug output of the body is left out.
\<close>

datatype http_method = POST | OtherMethod

record http_request =
  req_method :: http_method
  req_param :: "string \<Rightarrow> string"
  req_file :: string
  req_rx_body :: string

definition TIMER_INTERIM_PARAM :: string where
  "TIMER_INTERIM_PARAM = ''timer-interim''"

section \<open>parse_body\<close>

text \<open>The loop over \<open>peers.ccf\<close>: \<open>None\<close> when an element is not a string.\<close>

fun collect_ccfs :: "json list \<Rightarrow> string list option" where
  "collect_ccfs [] = Some []"
| "collect_ccfs (j # js) =
     (if IsString j then map_option ((#) (GetString j)) (collect_ccfs js) else None)"

text \<open>A document that does not parse is left as the null value.\<close>

definition parsed_body :: "'w env \<Rightarrow> string \<Rightarrow> json" where
  "parsed_body env reqbody =
     (case json_parse env (c_str reqbody) of Some j \<Rightarrow> j | None \<Rightarrow> JNull)"

definition ims_information :: "json \<Rightarrow> json" where
  "ims_information body =
     json_at (json_at (json_at body ''event'') ''Service-Information'') ''IMS-Information''"

text \<open>The message that is built at the end, with the CCFs when there are any.\<close>

definition built_message ::
  "u32 \<Rightarrow> string \<Rightarrow> int \<Rightarrow> int \<Rightarrow> json \<Rightarrow> AccountingRecordType \<Rightarrow> u32 \<Rightarrow> trail_id \<Rightarrow> bool \<Rightarrow> string list \<Rightarrow> message" where
  "built_message uninit call_id role_of_node node_functionality body record_type session_refresh_time trail
     timer_interim ccfs =
     (let msg = new_Message uninit call_id role_of_node node_functionality body record_type
                  session_refresh_time trail timer_interim
      in if ccfs \<noteq> [] then msg\<lparr>m_ccfs := ccfs\<rparr> else msg)"

text \<open>
  The document is created before it is parsed. Every return before the end deletes it; the message
  that is built at the end takes it over.
\<close>

definition parse_body ::
  "'w env \<Rightarrow> string \<Rightarrow> bool \<Rightarrow> string \<Rightarrow> trail_id \<Rightarrow> 'w io \<Rightarrow> (http_code \<times> message option) \<times> 'w io" where
  "parse_body env call_id timer_interim reqbody trail s =
     (let s0 = emit DocumentCreated s;
          body = parsed_body env reqbody;
          event = json_at body ''event'';
          ims = ims_information body
      in
      if \<not> IsObject body \<or> \<not> HasMember body ''event'' \<or> \<not> IsObject event
      then ((HTTP_BAD_REQUEST, None), emit DocumentDeleted s0)
      else if \<not> HasMember event ''Service-Information'' \<or>
              \<not> IsObject (json_at event ''Service-Information'') \<or>
              \<not> HasMember (json_at event ''Service-Information'') ''IMS-Information'' \<or>
              \<not> IsObject ims
      then ((HTTP_BAD_REQUEST, None), emit DocumentDeleted s0)
      else if FindMember ims ''Role-Of-Node'' = None \<or> \<not> IsInt (json_at ims ''Role-Of-Node'')
      then ((HTTP_BAD_REQUEST, None), emit DocumentDeleted s0)
      else if FindMember ims ''Node-Functionality'' = None \<or>
              \<not> IsInt (json_at ims ''Node-Functionality'')
      then ((HTTP_BAD_REQUEST, None), emit DocumentDeleted s0)
      else if \<not> (HasMember event ''Accounting-Record-Type'' \<and>
                 IsInt (json_at event ''Accounting-Record-Type''))
      then ((HTTP_BAD_REQUEST, None), emit DocumentDeleted s0)
      else
      (let role_of_node = GetInt (json_at ims ''Role-Of-Node'');
           node_functionality = GetInt (json_at ims ''Node-Functionality'');
           record_type = accounting_record_type (GetInt (json_at event ''Accounting-Record-Type''))
       in
       if \<not> isValid record_type
       then ((HTTP_BAD_REQUEST, None), emit DocumentDeleted s0)
       else
       (let s1 = emit (SasEvent trail INCOMING_REQUEST
                         [art_code record_type, u32_of_int node_functionality] []) s0;
            session_refresh_time =
              (if HasMember event ''Acct-Interim-Interval'' \<and>
                  IsInt (json_at event ''Acct-Interim-Interval'')
               then u32_of_int (GetInt (json_at event ''Acct-Interim-Interval''))
               else 0);
            build = built_message (uninit_u32 env) call_id role_of_node node_functionality body
                      record_type session_refresh_time trail timer_interim
        in
        if isStart record_type \<or> isEvent record_type
        then
          (if \<not> (HasMember body ''peers'' \<and> IsObject (json_at body ''peers''))
           then ((HTTP_OK, None),
                 emit DocumentDeleted
                   (emit (SasEvent trail INCOMING_REQUEST_NO_PEERS [art_code record_type] []) s1))
           else
           (let peers = json_at body ''peers'';
                ccf = json_at peers ''ccf''
            in
            if \<not> HasMember peers ''ccf'' \<or> \<not> IsArray ccf \<or> GetArray ccf = []
            then ((HTTP_BAD_REQUEST, None), emit DocumentDeleted s1)
            else
            (case collect_ccfs (GetArray ccf) of
               None \<Rightarrow> ((HTTP_BAD_REQUEST, None), emit DocumentDeleted s1)
             | Some ccfs \<Rightarrow>
                 ((HTTP_OK, Some (build ccfs)), emit MessageCreated s1))))
        else ((HTTP_OK, Some (build [])), emit MessageCreated s1))))"

section \<open>run\<close>

definition billing_run ::
  "'w env \<Rightarrow> session_manager \<Rightarrow> http_request \<Rightarrow> trail_id \<Rightarrow> 'w io \<Rightarrow> (crash + 'w io) option" where
  "billing_run env sm req trail s =
     (if req_method req \<noteq> POST then Some (Inr (emit (HttpReply HTTP_METHOD_NOT_ALLOWED) s))
      else
      (let call_id = req_file req;
           timer_interim = (req_param req TIMER_INTERIM_PARAM = ''true'');
           s1 = (if timer_interim
                 then emit (SasEvent trail INTERIM_TIMER_POPPED [] [])
                        (emit (SasMarker trail call_id) s)
                 else s);
           ((rc, parsed), s2) = parse_body env call_id timer_interim (req_rx_body req) trail s1
       in
       if rc \<noteq> HTTP_OK
       then Some (Inr (emit (HttpReply rc)
                         (emit (SasEvent trail REQUEST_REJECTED_INVALID_JSON [] []) s2)))
       else
       (case parsed of
          None \<Rightarrow> Some (Inr (emit (HttpReply rc) s2))
        | Some msg \<Rightarrow>
            map_option (map_sum id (emit (HttpReply rc))) (handle env sm msg s2))))"

text \<open>The SAS logger a request gets (\<open>BillingHandler::sas_logger\<close>).\<close>

datatype sas_logger = CHRONOS_SAS_LOGGER | DEFAULT_SAS_LOGGER | PRIVATE_SAS_LOGGER

definition billing_sas_logger :: "bool \<Rightarrow> http_request \<Rightarrow> sas_logger" where
  "billing_sas_logger http_acr_logging req =
     (if req_param req TIMER_INTERIM_PARAM = ''true'' then CHRONOS_SAS_LOGGER
      else if http_acr_logging then DEFAULT_SAS_LOGGER else PRIVATE_SAS_LOGGER)"

end
