(* ===== verification/Ralf_Threads.thy ===== *)
theory Ralf_Threads
  imports Task_Steps Answer_Steps Billing_Handler
begin

text \<open>
  The running process with all its threads. The HTTP stack calls \<open>BillingTask::run\<close> and the
  Diameter stack calls \<open>RalfTransaction::on_response\<close> and \<open>on_timeout\<close>, each on threads of its
  own; the threads share the stores, Chronos and the outstanding transactions, and nothing in Ralf
  serialises them. A configuration is the list of the threads that are inside Ralf together with the
  shared state; a step of the process lets one thread come in (\<open>arrival\<close>, which also covers what
  happens in the world outside), or lets one of them execute up to its next call that leaves Ralf
      (theories Task_Steps and Answer_Steps).
\<close>

section \<open>Up to the session manager\<close>

text \<open>
  \<open>BillingTask::run\<close> up to its call of \<open>handle\<close>: the message to handle, or \<open>None\<close> when the
  request has been answered.
\<close>

definition billing_accept ::
  "'w env \<Rightarrow> http_request \<Rightarrow> trail_id \<Rightarrow> 'w io \<Rightarrow> message option \<times> 'w io" where
  "billing_accept env req trail s =
     (if req_method req \<noteq> POST then (None, emit (HttpReply HTTP_METHOD_NOT_ALLOWED) s)
      else
      (let call_id = req_file req;
           timer_interim = (req_param req TIMER_INTERIM_PARAM = ''true'');
           s1 = (if timer_interim
                 then emit (SasEvent trail INTERIM_TIMER_POPPED [] [])
                        (emit (SasMarker trail call_id) s)
                 else s);
           ((rc, parsed), s2) = parse_body env call_id timer_interim (req_rx_body req) trail s1
       in
       if rc \<noteq> HTTP_OK
       then (None, emit (HttpReply rc) (emit (SasEvent trail REQUEST_REJECTED_INVALID_JSON [] []) s2))
       else
       (case parsed of
          None \<Rightarrow> (None, emit (HttpReply rc) s2)
        | Some msg \<Rightarrow> (Some msg, s2))))"

text \<open>
  \<open>PeerMessageSender::send_cb\<close> up to its call of \<open>on_ccf_response\<close>, which it makes in two places:
  the arguments of the call, or the state once the ACR has gone to the next CCF.
\<close>

datatype 'w callback = CallbackCrash crash | Resent "'w io" | Answered answer "'w io"

definition ccf_answer :: "bool \<Rightarrow> u32 \<Rightarrow> string \<Rightarrow> int \<Rightarrow> message \<Rightarrow> answer" where
  "ccf_answer accepted interim_interval session_id rc msg =
     \<lparr>a_accepted = accepted, a_interim_interval = interim_interval, a_session_id = session_id,
      a_rc = rc, a_msg = msg\<rparr>"

definition send_cb_begin ::
  "'w env \<Rightarrow> peer_message_sender \<Rightarrow> int \<Rightarrow> int \<Rightarrow> string \<Rightarrow> 'w io \<Rightarrow> 'w callback" where
  "send_cb_begin env pm result_code interim_interval session_id s =
     (case pms_msg pm of
        None \<Rightarrow> CallbackCrash UnsetMessage
      | Some msg \<Rightarrow>
          if result_code \<noteq> ER_DIAMETER_UNABLE_TO_DELIVER then
            Answered (ccf_answer (result_code = ER_DIAMETER_SUCCESS) (u32_of_int interim_interval)
                        session_id result_code msg) s
          else if \<not> unat (pms_which pm) < length (pms_ccfs pm)
          then CallbackCrash VectorIndexOutOfRange
          else
            (let s1 = emit (SasEvent (m_trail msg) BILLING_REQUEST_NOT_SENT []
                         [pms_ccfs pm ! unat (pms_which pm)]) s;
                 pm1 = pm\<lparr>pms_which := pms_which pm + 1\<rparr>
             in if unat (pms_which pm1) < length (pms_ccfs pm1) then
                  (case int_send_msg env pm1
                     (emit (SasEvent (m_trail msg) CDF_FAILOVER []
                              [pms_ccfs pm1 ! unat (pms_which pm1)]) s1) of
                     Inl c \<Rightarrow> CallbackCrash c
                   | Inr s2 \<Rightarrow> Resent s2)
                else Answered (ccf_answer False 0 '''' result_code msg) s1))"

text \<open>The two callbacks of \<open>RalfTransaction\<close>, as far.\<close>

definition on_response_begin ::
  "'w env \<Rightarrow> ralf_transaction \<Rightarrow> diameter_answer \<Rightarrow> 'w io \<Rightarrow> 'w callback" where
  "on_response_begin env tsx rsp s =
     (let result_code = (case ans_result_code rsp of Some c \<Rightarrow> c | None \<Rightarrow> 0);
          session_id = (case ans_session_id rsp of Some i \<Rightarrow> i
                        | None \<Rightarrow> ''<value not found in Diameter message>'');
          interim_interval = (case ans_interim_interval rsp of Some v \<Rightarrow> v | None \<Rightarrow> 0);
          event_id = (if result_code = 2001 then BILLING_REQUEST_SUCCEEDED
                      else BILLING_REQUEST_REJECTED);
          s1 = emit (SasEvent (m_trail (tsx_msg tsx)) event_id [] [session_id]) s
      in send_cb_begin env (tsx_peer_sender tsx) result_code interim_interval session_id s1)"

definition on_timeout_begin :: "'w env \<Rightarrow> ralf_transaction \<Rightarrow> 'w io \<Rightarrow> 'w callback" where
  "on_timeout_begin env tsx s =
     send_cb_begin env (tsx_peer_sender tsx) ER_DIAMETER_UNABLE_TO_DELIVER 0 '''' s"

section \<open>Threads\<close>

datatype thread =
    HttpThread message task_pc
  | AnswerThread answer answer_pc
  | CrashedThread crash

text \<open>
  One step of a thread, \<open>None\<close> when it leaves Ralf: an HTTP thread replies after \<open>handle\<close> has
  returned. A thread that has run into undefined behaviour does nothing more.
\<close>

fun thread_step :: "'w env \<Rightarrow> session_manager \<Rightarrow> thread \<times> 'w io \<Rightarrow> thread option \<times> 'w io" where
  "thread_step env sm (HttpThread msg (Returned None), s) = (None, emit (HttpReply HTTP_OK) s)"
| "thread_step env sm (HttpThread msg (Returned (Some c)), s) = (Some (CrashedThread c), s)"
| "thread_step env sm (HttpThread msg pc, s) =
     (case task_step env sm msg (pc, s) of (pc', s1) \<Rightarrow> (Some (HttpThread msg pc'), s1))"
| "thread_step env sm (AnswerThread a AnswerDone, s) = (None, s)"
| "thread_step env sm (AnswerThread a pc, s) =
     (case answer_step env sm a (pc, s) of (pc', s1) \<Rightarrow> (Some (AnswerThread a pc'), s1))"
| "thread_step env sm (CrashedThread c, s) = (Some (CrashedThread c), s)"

text \<open>The thread at a position after its step, and a thread that has come in.\<close>

definition put_thread :: "nat \<Rightarrow> thread option \<Rightarrow> thread list \<Rightarrow> thread list" where
  "put_thread i r ts = (case r of Some t \<Rightarrow> ts[i := t] | None \<Rightarrow> take i ts @ drop (Suc i) ts)"

definition accepted_threads :: "message option \<Rightarrow> thread list" where
  "accepted_threads r = (case r of None \<Rightarrow> [] | Some msg \<Rightarrow> [HttpThread msg (task_start msg)])"

fun callback_threads :: "'w callback \<Rightarrow> thread list" where
  "callback_threads (CallbackCrash c) = [CrashedThread c]"
| "callback_threads (Resent s) = []"
| "callback_threads (Answered a s) = [AnswerThread a AnswerStart]"

fun callback_state :: "'w callback \<Rightarrow> 'w io \<Rightarrow> 'w io" where
  "callback_state (CallbackCrash c) s = s"
| "callback_state (Resent s1) s = s1"
| "callback_state (Answered a s1) s = s1"

section \<open>The process\<close>

text \<open>The stack forgets a transaction when it calls back.\<close>

definition take_pending :: "nat \<Rightarrow> 'w io \<Rightarrow> 'w io" where
  "take_pending i s = s\<lparr>pending := take i (pending s) @ drop (Suc i) (pending s)\<rparr>"

type_synonym 'w process = "thread list \<times> 'w io"

inductive arrival :: "'w env \<Rightarrow> ('w \<Rightarrow> 'w \<Rightarrow> bool) \<Rightarrow> 'w process \<Rightarrow> 'w process \<Rightarrow> bool"
  for env other where
  request: "billing_accept env req trail s = (r, s') \<Longrightarrow>
    arrival env other (ts, s) (ts @ accepted_threads r, s')"
| response: "i < length (pending s) \<Longrightarrow>
    on_response_begin env (pending s ! i) rsp (take_pending i s) = cb \<Longrightarrow>
    arrival env other (ts, s) (ts @ callback_threads cb, callback_state cb (take_pending i s))"
| timeout: "i < length (pending s) \<Longrightarrow> on_timeout_begin env (pending s ! i) (take_pending i s) = cb \<Longrightarrow>
    arrival env other (ts, s) (ts @ callback_threads cb, callback_state cb (take_pending i s))"
| elsewhere: "other (world s) w \<Longrightarrow> arrival env other (ts, s) (ts, s\<lparr>world := w\<rparr>)"

inductive process_step ::
  "'w env \<Rightarrow> session_manager \<Rightarrow> ('w \<Rightarrow> 'w \<Rightarrow> bool) \<Rightarrow> 'w process \<Rightarrow> 'w process \<Rightarrow> bool"
  for env sm other where
  arrives: "arrival env other p p' \<Longrightarrow> process_step env sm other p p'"
| thread: "i < length ts \<Longrightarrow> thread_step env sm (ts ! i, s) = (r, s') \<Longrightarrow>
    process_step env sm other (ts, s) (put_thread i r ts, s')"

lemmas process_request = process_step.arrives [OF arrival.request]
lemmas process_response = process_step.arrives [OF arrival.response]
lemmas process_timeout = process_step.arrives [OF arrival.timeout]
lemmas process_elsewhere = process_step.arrives [OF arrival.elsewhere]

inductive_cases arrivalE: "arrival env other (ts, s) (ts', s')"
inductive_cases process_stepE: "process_step env sm other (ts, s) (ts', s')"

lemma process_step_cases:
  assumes "process_step env sm other (ts, s) (ts', s')"
  obtains (request) req trail r where "ts' = ts @ accepted_threads r" "billing_accept env req trail s = (r, s')"
  | (response) i rsp cb where "ts' = ts @ callback_threads cb" "s' = callback_state cb (take_pending i s)"
      "i < length (pending s)" "on_response_begin env (pending s ! i) rsp (take_pending i s) = cb"
  | (timeout) i cb where "ts' = ts @ callback_threads cb" "s' = callback_state cb (take_pending i s)"
      "i < length (pending s)" "on_timeout_begin env (pending s ! i) (take_pending i s) = cb"
  | (thread) i r where "ts' = put_thread i r ts" "i < length ts" "thread_step env sm (ts ! i, s) = (r, s')"
  | (elsewhere) w where "ts' = ts" "s' = s\<lparr>world := w\<rparr>" "other (world s) w"
  using assms by (elim process_stepE arrivalE) (erule that, (assumption | rule refl)+)+

definition initial :: "'w io \<Rightarrow> bool" where
  "initial s \<longleftrightarrow> trace s = [] \<and> pending s = []"

definition process_reachable ::
  "'w env \<Rightarrow> session_manager \<Rightarrow> ('w \<Rightarrow> 'w \<Rightarrow> bool) \<Rightarrow> thread list \<Rightarrow> 'w io \<Rightarrow> bool" where
  "process_reachable env sm other ts s \<longleftrightarrow>
     (\<exists>s0. initial s0 \<and> (process_step env sm other)\<^sup>*\<^sup>* ([], s0) (ts, s))"

lemma process_reachable_induct [consumes 1, case_names start step]:
  assumes "process_reachable env sm other ts s" "\<And>s. initial s \<Longrightarrow> P [] s"
    and "\<And>ts s ts' s'. P ts s \<Longrightarrow> process_step env sm other (ts, s) (ts', s') \<Longrightarrow> P ts' s'"
  shows "P ts s"
proof -
  obtain s0 where s0: "initial s0" "(process_step env sm other)\<^sup>*\<^sup>* ([], s0) (ts, s)"
    using assms(1) by (auto simp: process_reachable_def)
  from s0(2) have "case (ts, s) of (ts, s) \<Rightarrow> P ts s"
    by (induction rule: rtranclp_induct) (use s0(1) assms(2,3) in auto)
  then show ?thesis by simp
qed

end
