(* ===== verification/Session_Register.thy ===== *)
theory Session_Register
  imports Session_Store
begin

text \<open>
  The contract between the session manager and the session store: each store is a register per
  key, written with compare-and-set. \<open>cas_store\<close> says what is assumed of the \<open>Store\<close>
  below, a store without outages whose contents are described by a function \<open>view\<close>: a read
  returns what is there; a write succeeds exactly when its CAS is the current one (0 for a key
  that is absent) and gives the entry a fresh CAS, reporting \<open>DATA_CONTENTION\<close> otherwise; an
  entry written with expiry 0 may be gone at once. The locale \<open>session_register\<close> is the
  interface in terms of sessions; its interpretation on the operations of theory Session_Store
  discharges the laws from \<open>cas_store\<close> and the JSON round trip.
\<close>

section \<open>The store below\<close>

type_synonym 'w store_view = "store_id \<Rightarrow> 'w \<Rightarrow> string \<Rightarrow> (string \<times> u64) option"

definition cas_matches :: "(string \<times> u64) option \<Rightarrow> u64 \<Rightarrow> bool" where
  "cas_matches entry cas \<longleftrightarrow> (case entry of None \<Rightarrow> cas = 0 | Some (d, c) \<Rightarrow> cas = c)"

definition cas_get_law :: "'w env \<Rightarrow> 'w store_view \<Rightarrow> bool" where
  "cas_get_law env view \<longleftrightarrow>
     (\<forall>st k w status data cas w'.
        get_data env st ''session'' k w = ((status, data, cas), w') \<longrightarrow>
        (\<forall>st'. view st' w' = view st' w) \<and>
        (case view st w k of None \<Rightarrow> status = NOT_FOUND
         | Some (d, c) \<Rightarrow> status = OK \<and> data = d \<and> cas = c \<and> c \<noteq> 0))"

definition cas_set_law :: "'w env \<Rightarrow> 'w store_view \<Rightarrow> bool" where
  "cas_set_law env view \<longleftrightarrow>
     (\<forall>st k d c e w status w'.
        set_data env st ''session'' k d c e w = (status, w') \<longrightarrow>
        (\<forall>st'. st' \<noteq> st \<longrightarrow> view st' w' = view st' w) \<and>
        (if cas_matches (view st w k) c
         then status = OK \<and>
              ((\<exists>c'. c' \<noteq> 0 \<and> c' \<noteq> c \<and> view st w' = (view st w)(k \<mapsto> (d, c'))) \<or>
               e = 0 \<and> view st w' = (view st w)(k := None))
         else status = DATA_CONTENTION \<and> view st w' = view st w))"

definition cas_delete_law :: "'w env \<Rightarrow> 'w store_view \<Rightarrow> bool" where
  "cas_delete_law env view \<longleftrightarrow>
     (\<forall>st k w status w'.
        delete_data env st ''session'' k w = (status, w') \<longrightarrow>
        status = OK \<and> (\<forall>st'. st' \<noteq> st \<longrightarrow> view st' w' = view st' w) \<and>
        view st w' = (view st w)(k := None))"

definition cas_store :: "'w env \<Rightarrow> 'w store_view \<Rightarrow> bool" where
  "cas_store env view \<longleftrightarrow> cas_get_law env view \<and> cas_set_law env view \<and> cas_delete_law env view"

lemma cas_store_get:
  assumes "cas_store env view" "get_data env st ''session'' k w = ((status, data, cas), w')"
  shows "view st' w' = view st' w"
    and "view st w k = None \<Longrightarrow> status = NOT_FOUND"
    and "view st w k = Some (d, c) \<Longrightarrow> status = OK \<and> data = d \<and> cas = c \<and> c \<noteq> 0"
proof -
  have law: "(\<forall>st'. view st' w' = view st' w) \<and>
        (case view st w k of None \<Rightarrow> status = NOT_FOUND
         | Some (d, c) \<Rightarrow> status = OK \<and> data = d \<and> cas = c \<and> c \<noteq> 0)"
    using assms unfolding cas_store_def cas_get_law_def by blast
  then show "view st' w' = view st' w" by blast
  show "view st w k = None \<Longrightarrow> status = NOT_FOUND" using law by simp
  show "view st w k = Some (d, c) \<Longrightarrow> status = OK \<and> data = d \<and> cas = c \<and> c \<noteq> 0"
    using law by simp
qed

lemma cas_store_set:
  assumes "cas_store env view" "set_data env st ''session'' k d c e w = (status, w')"
  shows "st' \<noteq> st \<Longrightarrow> view st' w' = view st' w"
    and "\<not> cas_matches (view st w k) c \<Longrightarrow> status = DATA_CONTENTION \<and> view st w' = view st w"
    and "cas_matches (view st w k) c \<Longrightarrow> status = OK"
    and "cas_matches (view st w k) c \<Longrightarrow> e \<noteq> 0 \<Longrightarrow>
           \<exists>c'. c' \<noteq> 0 \<and> c' \<noteq> c \<and> view st w' = (view st w)(k \<mapsto> (d, c'))"
    and "cas_matches (view st w k) c \<Longrightarrow>
           (\<exists>c'. view st w' = (view st w)(k \<mapsto> (d, c'))) \<or> view st w' = (view st w)(k := None)"
proof -
  have law: "(\<forall>st'. st' \<noteq> st \<longrightarrow> view st' w' = view st' w) \<and>
        (if cas_matches (view st w k) c
         then status = OK \<and>
              ((\<exists>c'. c' \<noteq> 0 \<and> c' \<noteq> c \<and> view st w' = (view st w)(k \<mapsto> (d, c'))) \<or>
               e = 0 \<and> view st w' = (view st w)(k := None))
         else status = DATA_CONTENTION \<and> view st w' = view st w)"
    using assms unfolding cas_store_def cas_set_law_def by blast
  then show "st' \<noteq> st \<Longrightarrow> view st' w' = view st' w" by blast
  show "\<not> cas_matches (view st w k) c \<Longrightarrow> status = DATA_CONTENTION \<and> view st w' = view st w"
    using law by simp
  assume "cas_matches (view st w k) c"
  with law have w: "status = OK" and
    alt: "(\<exists>c'. c' \<noteq> 0 \<and> c' \<noteq> c \<and> view st w' = (view st w)(k \<mapsto> (d, c'))) \<or>
      e = 0 \<and> view st w' = (view st w)(k := None)"
    by simp_all
  show "status = OK" by (rule w)
  show "e \<noteq> 0 \<Longrightarrow> \<exists>c'. c' \<noteq> 0 \<and> c' \<noteq> c \<and> view st w' = (view st w)(k \<mapsto> (d, c'))"
    using alt by blast
  show "(\<exists>c'. view st w' = (view st w)(k \<mapsto> (d, c'))) \<or> view st w' = (view st w)(k := None)"
    using alt by blast
qed

lemma cas_store_delete:
  assumes "cas_store env view" "delete_data env st ''session'' k w = (status, w')"
  shows "status = OK" "st' \<noteq> st \<Longrightarrow> view st' w' = view st' w"
    "view st w' = (view st w)(k := None)"
  using assms unfolding cas_store_def cas_delete_law_def by blast+

section \<open>The contract in terms of sessions\<close>

text \<open>A session that outlives its own write: its expiry, twice the refresh time, is not 0.\<close>

definition durable :: "session \<Rightarrow> bool" where
  "durable session \<longleftrightarrow> 2 * s_session_refresh_time session \<noteq> 0"

locale session_register =
  fixes ok :: "'e \<Rightarrow> bool"
    and key_of :: "'k \<Rightarrow> string"
    and contents :: "'e \<Rightarrow> store_id \<Rightarrow> 's \<Rightarrow> string \<Rightarrow> session option"
    and absent :: "'e \<Rightarrow> store_id \<Rightarrow> 's \<Rightarrow> string \<Rightarrow> bool"
    and get :: "'e \<Rightarrow> store_id \<Rightarrow> 'k \<Rightarrow> 's \<Rightarrow> session option \<times> 's"
    and put :: "'e \<Rightarrow> store_id \<Rightarrow> 'k \<Rightarrow> session \<Rightarrow> bool \<Rightarrow> 's \<Rightarrow> store_status \<times> 's"
    and del_cas :: "'e \<Rightarrow> store_id \<Rightarrow> 'k \<Rightarrow> session \<Rightarrow> 's \<Rightarrow> store_status \<times> 's"
    and del :: "'e \<Rightarrow> store_id \<Rightarrow> 'k \<Rightarrow> 's \<Rightarrow> store_status \<times> 's"
  assumes absent_contents: "absent e st s key \<Longrightarrow> contents e st s key = None"
    and get_law: "ok e \<Longrightarrow> get e st k s = (r, s') \<Longrightarrow>
          r = contents e st s (key_of k) \<and> contents e st' s' = contents e st' s \<and>
          absent e st' s' = absent e st' s"
    and put_commits: "ok e \<Longrightarrow> put e st k x new s = (rc, s') \<Longrightarrow> durable x \<Longrightarrow>
          (if new then absent e st s (key_of k)
           else \<exists>y. contents e st s (key_of k) = Some y \<and> s_cas y = s_cas x) \<Longrightarrow>
          rc = OK \<and>
          (\<exists>c. (new \<or> c \<noteq> s_cas x) \<and>
               contents e st s' = (contents e st s)(key_of k \<mapsto> (stored_view x)\<lparr>s_cas := c\<rparr>))"
    and put_contends: "ok e \<Longrightarrow> put e st k x new s = (rc, s') \<Longrightarrow>
          contents e st s (key_of k) = Some y \<Longrightarrow> new \<or> s_cas y \<noteq> s_cas x \<Longrightarrow>
          rc = DATA_CONTENTION \<and> contents e st s' = contents e st s"
    and put_frame: "ok e \<Longrightarrow> put e st k x new s = (rc, s') \<Longrightarrow> st' \<noteq> st \<Longrightarrow>
          contents e st' s' = contents e st' s \<and> absent e st' s' = absent e st' s"
    and del_cas_commits: "ok e \<Longrightarrow> del_cas e st k x s = (rc, s') \<Longrightarrow>
          contents e st s (key_of k) = Some y \<Longrightarrow> s_cas y = s_cas x \<Longrightarrow>
          rc = OK \<and> contents e st s' = (contents e st s)(key_of k := None)"
    and del_cas_contends: "ok e \<Longrightarrow> del_cas e st k x s = (rc, s') \<Longrightarrow>
          absent e st s (key_of k) \<Longrightarrow> s_cas x \<noteq> 0 \<Longrightarrow>
          rc = DATA_CONTENTION \<and> contents e st s' = contents e st s \<and>
          absent e st s' = absent e st s"
    and del_cas_stale: "ok e \<Longrightarrow> del_cas e st k x s = (rc, s') \<Longrightarrow>
          contents e st s (key_of k) = Some y \<Longrightarrow> s_cas y \<noteq> s_cas x \<Longrightarrow>
          rc = DATA_CONTENTION \<and> contents e st s' = contents e st s"
    and del_cas_frame: "ok e \<Longrightarrow> del_cas e st k x s = (rc, s') \<Longrightarrow> st' \<noteq> st \<Longrightarrow>
          contents e st' s' = contents e st' s \<and> absent e st' s' = absent e st' s"
    and del_law: "ok e \<Longrightarrow> del e st k s = (rc, s') \<Longrightarrow>
          rc = OK \<and> contents e st s' = (contents e st s)(key_of k := None)"
    and del_frame: "ok e \<Longrightarrow> del e st k s = (rc, s') \<Longrightarrow> st' \<noteq> st \<Longrightarrow>
          contents e st' s' = contents e st' s \<and> absent e st' s' = absent e st' s"
    and contents_cas: "ok e \<Longrightarrow> contents e st s key = Some y \<Longrightarrow> s_cas y \<noteq> 0"
begin

lemma read_own_write:
  assumes "ok e" "put e st k x new s = (OK, s1)" "durable x"
    and "if new then absent e st s (key_of k)
         else \<exists>y. contents e st s (key_of k) = Some y \<and> s_cas y = s_cas x"
    and "get e st k s1 = (r, s2)"
  shows "\<exists>c. r = Some ((stored_view x)\<lparr>s_cas := c\<rparr>)"
  using put_commits [OF assms(1,2,3,4)] get_law [OF assms(1,5)] by auto

text \<open>
  Two read-modify-write cycles that start from the same read: the one that writes second is told
  \<open>DATA_CONTENTION\<close> and changes nothing, so no update is lost.
\<close>

lemma no_lost_update:
  assumes "ok e" and "contents e st s (key_of k) = Some x"
    and first: "put e st k x1 False s = (rc1, s1)" "s_cas x1 = s_cas x" "durable x1"
    and second: "put e st k x2 False s1 = (rc2, s2)" "s_cas x2 = s_cas x"
  shows "rc1 = OK \<and> rc2 = DATA_CONTENTION \<and> contents e st s2 = contents e st s1"
proof -
  from put_commits [OF assms(1) first(1) first(3)] assms(2) first(2)
  obtain c where c: "rc1 = OK" "c \<noteq> s_cas x1"
    "contents e st s1 (key_of k) = Some ((stored_view x1)\<lparr>s_cas := c\<rparr>)"
    by auto
  with put_contends [OF assms(1) second(1), of "(stored_view x1)\<lparr>s_cas := c\<rparr>"] first(2) second(2)
  show ?thesis by simp
qed

text \<open>The same for a safe deletion that lost the race: the concurrent update survives it.\<close>

lemma no_lost_update_by_deletion:
  assumes "ok e" and "contents e st s (key_of k) = Some x"
    and first: "put e st k x1 False s = (rc1, s1)" "s_cas x1 = s_cas x" "durable x1"
    and second: "del_cas e st k x2 s1 = (rc2, s2)" "s_cas x2 = s_cas x"
  shows "rc1 = OK \<and> rc2 = DATA_CONTENTION \<and>
    (\<exists>c. contents e st s2 (key_of k) = Some ((stored_view x1)\<lparr>s_cas := c\<rparr>))"
proof -
  from put_commits [OF assms(1) first(1) first(3)] assms(2) first(2)
  obtain c where c: "rc1 = OK" "c \<noteq> s_cas x1"
    "contents e st s1 (key_of k) = Some ((stored_view x1)\<lparr>s_cas := c\<rparr>)"
    by auto
  with del_cas_stale [OF assms(1) second(1), of "(stored_view x1)\<lparr>s_cas := c\<rparr>"] first(2) second(2)
  show ?thesis by auto
qed

lemma del_then_get:
  assumes "ok e" "del e st k s = (rc, s1)" "get e st k s1 = (r, s2)"
  shows "r = None"
  using del_law [OF assms(1,2)] get_law [OF assms(1,3)] by simp

lemma del_cas_then_get:
  assumes "ok e" "contents e st s (key_of k) = Some y" "s_cas y = s_cas x"
    and "del_cas e st k x s = (rc, s1)" "get e st k s1 = (r, s2)"
  shows "rc = OK \<and> r = None"
  using del_cas_commits [OF assms(1,4,2,3)] get_law [OF assms(1,5)] by simp

end

section \<open>SessionStore keeps the contract\<close>

type_synonym 'w register = "'w env \<times> 'w store_view"
type_synonym session_key = "string \<times> role_of_node_t \<times> node_functionality_t"

definition register_ok :: "'w register \<Rightarrow> bool" where
  "register_ok e \<longleftrightarrow> cas_store (fst e) (snd e) \<and> json_text_ok (fst e) \<and> json_macros_ok (fst e)"

lemma register_okD:
  assumes "register_ok e"
  shows "cas_store (fst e) (snd e)" "json_text_ok (fst e)" "json_macros_ok (fst e)"
  using assms by (simp_all add: register_ok_def)

definition key_string :: "session_key \<Rightarrow> string" where
  "key_string k = create_key (fst k) (fst (snd k)) (snd (snd k))"

definition session_at :: "'w register \<Rightarrow> store_id \<Rightarrow> 'w io \<Rightarrow> string \<Rightarrow> session option" where
  "session_at e st s key =
     (case snd e st (world s) key of
        None \<Rightarrow> None
      | Some (d, c) \<Rightarrow>
          if d = [] then None
          else map_option (\<lambda>x. x\<lparr>s_cas := c\<rparr>) (deserialize_session (fst e) d))"

definition entry_absent :: "'w register \<Rightarrow> store_id \<Rightarrow> 'w io \<Rightarrow> string \<Rightarrow> bool" where
  "entry_absent e st s key \<longleftrightarrow> snd e st (world s) key = None"

lemma session_at_world_cong:
  "snd e st (world s') = snd e st (world s) \<Longrightarrow>
     session_at e st s' = session_at e st s \<and> entry_absent e st s' = entry_absent e st s"
  by (auto simp: session_at_def entry_absent_def fun_eq_iff)

lemma session_at_update:
  assumes "snd e st (world s') = (snd e st (world s))(key \<mapsto> (d, c))"
  shows "session_at e st s' =
    (session_at e st s)(key := (if d = [] then None
       else map_option (\<lambda>x. x\<lparr>s_cas := c\<rparr>) (deserialize_session (fst e) d)))"
  using assms by (auto simp: session_at_def fun_eq_iff)

lemma session_at_remove:
  assumes "snd e st (world s') = (snd e st (world s))(key := None)"
  shows "session_at e st s' = (session_at e st s)(key := None)"
  using assms by (auto simp: session_at_def fun_eq_iff)

lemma deserialize_serialize:
  "json_text_ok env \<Longrightarrow> json_macros_ok env \<Longrightarrow>
     deserialize_session env (serialize_session env x) = Some (stored_view x)"
  by (simp add: serialize_session_write_text deserialize_session_read_text session_doc.read_write)

lemma serialize_nonempty: "json_text_ok env \<Longrightarrow> serialize_session env x \<noteq> []"
  by (simp add: serialize_session_write_text session_doc.write_nonempty)

lemma session_at_cas_nonzero:
  assumes "register_ok e" "session_at e st s key = Some y"
  shows "s_cas y \<noteq> 0"
proof -
  from assms(2) obtain d c where v: "snd e st (world s) key = Some (d, c)" "s_cas y = c"
    by (auto simp: session_at_def split: option.splits prod.splits if_splits)
  obtain status data cas w' where
    "get_data (fst e) st ''session'' key (world s) = ((status, data, cas), w')"
    by (metis prod.exhaust)
  from cas_store_get(3) [OF register_okD(1) [OF assms(1)] this v(1)] v(2) show ?thesis by simp
qed

lemma register_get:
  assumes "register_ok e"
    and "get_session_data (fst e) st call role func trail s = (r, s')"
  shows "r = session_at e st s (create_key call role func)"
    and "snd e st' (world s') = snd e st' (world s)"
proof -
  let ?key = "create_key call role func"
  obtain status data cas w' where
    g: "get_data (fst e) st ''session'' ?key (world s) = ((status, data, cas), w')"
    by (metis prod.exhaust)
  note cs = register_okD(1) [OF assms(1)]
  have w: "world s' = w'"
    using assms(2) g by (auto simp: get_session_data_def Let_def split: if_splits option.splits)
  show "snd e st' (world s') = snd e st' (world s)"
    using cas_store_get(1) [OF cs g] w by simp
  show "r = session_at e st s ?key"
  proof (cases "snd e st (world s) ?key")
    case None
    with cas_store_get(2) [OF cs g] assms(2) g show ?thesis
      by (auto simp: get_session_data_def session_at_def Let_def)
  next
    case (Some dc)
    obtain d c where dc: "dc = (d, c)" by (cases dc)
    with cas_store_get(3) [OF cs g] Some have "status = OK \<and> data = d \<and> cas = c" by simp
    with Some dc assms(2) g show ?thesis
      by (auto simp: get_session_data_def session_at_def Let_def split: if_splits option.splits)
  qed
qed

lemma set_session_data_world:
  "set_session_data env st call role func x new s = (rc, s') \<Longrightarrow>
     set_data env st ''session'' (create_key call role func) (serialize_session env x)
       (if new then 0 else s_cas x) (2 * s_session_refresh_time x) (world s) = (rc, world s')"
  by (auto simp: set_session_data_def Let_def split: prod.splits)

lemma delete_cas_world:
  "delete_session_data_cas env st call role func x s = (rc, s') \<Longrightarrow>
     set_data env st ''session'' (create_key call role func) '''' (s_cas x) 0 (world s)
       = (rc, world s')"
  by (auto simp: delete_session_data_cas_def Let_def split: prod.splits)

lemma delete_world:
  "delete_session_data env st call role func s = (rc, s') \<Longrightarrow>
     delete_data env st ''session'' (create_key call role func) (world s) = (rc, world s')"
  by (auto simp: delete_session_data_def Let_def split: prod.splits)

lemma session_at_SomeE:
  assumes "session_at e st s key = Some y"
  obtains d where "snd e st (world s) key = Some (d, s_cas y)"
  using assms by (auto simp: session_at_def split: option.splits prod.splits if_splits)

lemma register_put_commits:
  assumes "register_ok e"
    and put: "set_session_data (fst e) st call role func x new s = (rc, s')" and "durable x"
    and pre: "if new then entry_absent e st s (create_key call role func)
         else \<exists>y. session_at e st s (create_key call role func) = Some y \<and> s_cas y = s_cas x"
  shows "rc = OK \<and>
    (\<exists>c. (new \<or> c \<noteq> s_cas x) \<and>
         session_at e st s' =
           (session_at e st s)(create_key call role func \<mapsto> (stored_view x)\<lparr>s_cas := c\<rparr>))"
proof -
  let ?key = "create_key call role func"
  note ok = register_okD [OF assms(1)]
  have m: "cas_matches (snd e st (world s) ?key) (if new then 0 else s_cas x)"
    using pre by (auto simp: cas_matches_def entry_absent_def elim!: session_at_SomeE split: if_splits)
  note law = cas_store_set [OF ok(1) set_session_data_world [OF put]]
  from law(4) [OF m] \<open>durable x\<close> obtain c where
    c: "c \<noteq> (if new then 0 else s_cas x)"
       "snd e st (world s') = (snd e st (world s))(?key \<mapsto> (serialize_session (fst e) x, c))"
    by (auto simp: durable_def)
  have "session_at e st s' = (session_at e st s)(?key \<mapsto> (stored_view x)\<lparr>s_cas := c\<rparr>)"
    using session_at_update [OF c(2)] ok by (simp add: deserialize_serialize serialize_nonempty)
  with law(3) [OF m] c(1) show ?thesis by auto
qed

lemma register_put_contends:
  assumes "register_ok e"
    and put: "set_session_data (fst e) st call role func x new s = (rc, s')"
    and "session_at e st s (create_key call role func) = Some y" "new \<or> s_cas y \<noteq> s_cas x"
  shows "rc = DATA_CONTENTION \<and> session_at e st s' = session_at e st s"
proof -
  have "\<not> cas_matches (snd e st (world s) (create_key call role func)) (if new then 0 else s_cas x)"
    using assms(3,4) session_at_cas_nonzero [OF assms(1,3)]
    by (auto simp: cas_matches_def elim!: session_at_SomeE)
  from cas_store_set(2) [OF register_okD(1) [OF assms(1)] set_session_data_world [OF put] this]
  show ?thesis using session_at_world_cong [of e st s' s] by simp
qed

lemma register_del_cas_commits:
  assumes "register_ok e" and del: "delete_session_data_cas (fst e) st call role func x s = (rc, s')"
    and "session_at e st s (create_key call role func) = Some y" "s_cas y = s_cas x"
  shows "rc = OK \<and> session_at e st s' = (session_at e st s)(create_key call role func := None)"
proof -
  note cs = register_okD(1) [OF assms(1)]
  have m: "cas_matches (snd e st (world s) (create_key call role func)) (s_cas x)"
    using assms(3,4) by (auto simp: cas_matches_def elim!: session_at_SomeE)
  note law = cas_store_set [OF cs delete_cas_world [OF del]]
  from law(5) [OF m] have "session_at e st s' = (session_at e st s)(create_key call role func := None)"
    using session_at_update [of e st s' s] session_at_remove [of e st s' s] by auto
  with law(3) [OF m] show ?thesis by simp
qed

lemma register_del_cas_contends:
  assumes "register_ok e" and del: "delete_session_data_cas (fst e) st call role func x s = (rc, s')"
    and "entry_absent e st s (create_key call role func)" "s_cas x \<noteq> 0"
  shows "rc = DATA_CONTENTION \<and> session_at e st s' = session_at e st s \<and>
    entry_absent e st s' = entry_absent e st s"
proof -
  have "\<not> cas_matches (snd e st (world s) (create_key call role func)) (s_cas x)"
    using assms(3,4) by (simp add: cas_matches_def entry_absent_def)
  from cas_store_set(2) [OF register_okD(1) [OF assms(1)] delete_cas_world [OF del] this]
  show ?thesis using session_at_world_cong [of e st s' s] by simp
qed

lemma register_del_cas_stale:
  assumes "register_ok e" and del: "delete_session_data_cas (fst e) st call role func x s = (rc, s')"
    and "session_at e st s (create_key call role func) = Some y" "s_cas y \<noteq> s_cas x"
  shows "rc = DATA_CONTENTION \<and> session_at e st s' = session_at e st s"
proof -
  have "\<not> cas_matches (snd e st (world s) (create_key call role func)) (s_cas x)"
    using assms(3,4) by (auto simp: cas_matches_def elim!: session_at_SomeE)
  from cas_store_set(2) [OF register_okD(1) [OF assms(1)] delete_cas_world [OF del] this]
  show ?thesis using session_at_world_cong [of e st s' s] by simp
qed

lemma register_frames:
  assumes "register_ok e" "st' \<noteq> st"
  shows "set_session_data (fst e) st call role func x new s = (rc, s') \<Longrightarrow>
           snd e st' (world s') = snd e st' (world s)"
    and "delete_session_data_cas (fst e) st call role func x s = (rc, s') \<Longrightarrow>
           snd e st' (world s') = snd e st' (world s)"
    and "delete_session_data (fst e) st call role func s = (rc, s') \<Longrightarrow>
           snd e st' (world s') = snd e st' (world s)"
  by (rule cas_store_set(1) [OF register_okD(1) [OF assms(1)] set_session_data_world assms(2)], assumption,
      rule cas_store_set(1) [OF register_okD(1) [OF assms(1)] delete_cas_world assms(2)], assumption,
      rule cas_store_delete(2) [OF register_okD(1) [OF assms(1)] delete_world assms(2)], assumption)

lemma register_del:
  assumes "register_ok e" "delete_session_data (fst e) st call role func s = (rc, s')"
  shows "rc = OK \<and> session_at e st s' = (session_at e st s)(create_key call role func := None)"
  using cas_store_delete [OF register_okD(1) [OF assms(1)] delete_world [OF assms(2)]]
    session_at_remove [of e st s' s] by simp

lemmas register_laws =
  register_put_commits register_put_contends register_del_cas_commits register_del_cas_contends
  register_del_cas_stale register_del session_at_cas_nonzero

interpretation reg: session_register register_ok key_string session_at entry_absent
  "\<lambda>e st k s. get_session_data (fst e) st (fst k) (fst (snd k)) (snd (snd k)) trail s"
  "\<lambda>e st k x new s. set_session_data (fst e) st (fst k) (fst (snd k)) (snd (snd k)) x new s"
  "\<lambda>e st k x s. delete_session_data_cas (fst e) st (fst k) (fst (snd k)) (snd (snd k)) x s"
  "\<lambda>e st k s. delete_session_data (fst e) st (fst k) (fst (snd k)) (snd (snd k)) s"
  for trail :: trail_id
proof unfold_locales
  fix e :: "'w register" and st st' s s' rc r new x y and k :: session_key and key
  show "entry_absent e st s key \<Longrightarrow> session_at e st s key = None"
    by (simp add: entry_absent_def session_at_def)
  assume ok: "register_ok e"
  show "get_session_data (fst e) st (fst k) (fst (snd k)) (snd (snd k)) trail s = (r, s') \<Longrightarrow>
      r = session_at e st s (key_string k) \<and> session_at e st' s' = session_at e st' s \<and>
      entry_absent e st' s' = entry_absent e st' s"
    using register_get [OF ok] session_at_world_cong [of e st' s' s] by (simp add: key_string_def)
  show "set_session_data (fst e) st (fst k) (fst (snd k)) (snd (snd k)) x new s = (rc, s') \<Longrightarrow>
      st' \<noteq> st \<Longrightarrow>
      session_at e st' s' = session_at e st' s \<and> entry_absent e st' s' = entry_absent e st' s"
    using register_frames(1) [OF ok] session_at_world_cong [of e st' s' s] by blast
  show "delete_session_data_cas (fst e) st (fst k) (fst (snd k)) (snd (snd k)) x s = (rc, s') \<Longrightarrow>
      st' \<noteq> st \<Longrightarrow>
      session_at e st' s' = session_at e st' s \<and> entry_absent e st' s' = entry_absent e st' s"
    using register_frames(2) [OF ok] session_at_world_cong [of e st' s' s] by blast
  show "delete_session_data (fst e) st (fst k) (fst (snd k)) (snd (snd k)) s = (rc, s') \<Longrightarrow>
      st' \<noteq> st \<Longrightarrow>
      session_at e st' s' = session_at e st' s \<and> entry_absent e st' s' = entry_absent e st' s"
    using register_frames(3) [OF ok] session_at_world_cong [of e st' s' s] by blast
qed (unfold key_string_def, (rule register_laws; assumption)+)

end
