(* ===== verification/Manager_Lemmas.thy ===== *)
theory Manager_Lemmas
  imports Session_Register Ccf_Response Manager_Induction
begin

text \<open>
  The library of facts about the session manager's operations: which effects each can have, what
  its writes look like in the trace, and how the retrying operations behave. The properties in
  theory Manager_Properties are short consequences of these.
\<close>

section \<open>The store operations\<close>

lemma get_session_data_effects:
  assumes "get_session_data env st call role func trail s = (r, s')"
  shows "extends store_effect s s'" "pending s' = pending s"
    "settled_stores (effects_of s s') = []" "list_all (\<lambda>e. \<not> is_store_write e) (effects_of s s')"
proof -
  obtain status data cas w where
    g: "get_data env st ''session'' (create_key call role func) (world s) = ((status, data, cas), w)"
    by (metis prod.exhaust)
  have t: "\<exists>es. trace s' = trace s @ es \<and> list_all store_effect es \<and> settled_stores es = [] \<and>
      list_all (\<lambda>e. \<not> is_store_write e) es \<and> pending s' = pending s"
    using assms g by (auto simp: get_session_data_def Let_def split: if_splits option.splits)
  then show "extends store_effect s s'" "pending s' = pending s"
    "settled_stores (effects_of s s') = []" "list_all (\<lambda>e. \<not> is_store_write e) (effects_of s s')"
    by (auto simp: extends_def effects_of_def)
qed

lemma set_session_data_trace:
  assumes "set_session_data env st call role func x new s = (rc, s')"
  shows "trace s' = trace s @
      [StoreSet st (create_key call role func) (serialize_session env x)
         (if new then 0 else s_cas x) (2 * s_session_refresh_time x) rc]"
    and "pending s' = pending s"
  using assms by (auto simp: set_session_data_def Let_def split: prod.splits)

lemma delete_session_data_cas_trace:
  assumes "delete_session_data_cas env st call role func x s = (rc, s')"
  shows "trace s' = trace s @ [StoreSet st (create_key call role func) '''' (s_cas x) 0 rc]"
    and "pending s' = pending s"
  using assms by (auto simp: delete_session_data_cas_def Let_def split: prod.splits)

lemma delete_session_data_trace:
  assumes "delete_session_data env st call role func s = (rc, s')"
  shows "trace s' = trace s @ [StoreDelete st (create_key call role func) rc]"
    and "pending s' = pending s"
  using assms by (auto simp: delete_session_data_def Let_def split: prod.splits)

lemmas store_op_traces =
  set_session_data_trace delete_session_data_cas_trace delete_session_data_trace

interpretation get_op: io_operation store_effect
  "\<lambda>s s'. \<exists>r. get_session_data env st call role func trail s = (r, s')"
  for env st call role func trail
  by unfold_locales (auto dest: get_session_data_effects)

interpretation set_op: io_operation store_effect
  "\<lambda>s s'. \<exists>rc. set_session_data env st call role func x new s = (rc, s')"
  for env st call role func x new
  by unfold_locales (auto simp: extends_def dest: set_session_data_trace)

interpretation delete_op: io_operation store_effect
  "\<lambda>s s'. \<exists>rc. delete_session_data env st call role func s = (rc, s')"
  for env st call role func
  by unfold_locales (auto simp: extends_def dest: delete_session_data_trace)

interpretation delete_cas_op: io_operation store_effect
  "\<lambda>s s'. \<exists>rc. delete_session_data_cas env st call role func x s = (rc, s')"
  for env st call role func x
  by unfold_locales (auto simp: extends_def dest: delete_session_data_cas_trace)

section \<open>Finding the session\<close>

lemma find_remote_session_effects:
  assumes "find_remote_session env msg rs s = (r, s')"
  shows "extends store_effect s s' \<and> pending s' = pending s \<and> settled_stores (effects_of s s') = []"
  using assms
proof (induction rs arbitrary: s)
  case Nil
  then show ?case by simp
next
  case (Cons a rs)
  obtain x s1 where
    g: "get_session_data env a (m_call_id msg) (m_role msg) (m_function msg) (m_trail msg) s = (x, s1)"
    by fastforce
  note e = get_session_data_effects [OF g]
  show ?case
  proof (cases x)
    case None
    with Cons.prems g have "find_remote_session env msg rs s1 = (r, s')" by simp
    with Cons.IH have ih: "extends store_effect s1 s'" "pending s' = pending s1"
      "settled_stores (effects_of s1 s') = []" by blast+
    with e show ?thesis using effects_of_trans [OF e(1) ih(1)] by (auto intro: extends_trans)
  next
    case (Some y)
    with Cons.prems g e show ?thesis by simp
  qed
qed

lemma find_session_effects:
  assumes "find_session env sm msg s = (r, s')"
  shows "extends store_effect s s' \<and> pending s' = pending s \<and> settled_stores (effects_of s s') = []"
proof -
  obtain x s1 where
    g: "get_session_data env (local_store sm) (m_call_id msg) (m_role msg) (m_function msg)
          (m_trail msg) s = (x, s1)"
    by fastforce
  note e = get_session_data_effects [OF g]
  show ?thesis
  proof (cases x)
    case None
    obtain y s2 where f: "find_remote_session env msg (remote_stores sm) s1 = (y, s2)" by fastforce
    note r = find_remote_session_effects [OF f]
    with None assms g f have "s' = s2" by (simp add: find_session_def)
    with e r show ?thesis
      using effects_of_trans [of store_effect s s1 store_effect s2] by (auto intro: extends_trans)
  next
    case (Some y)
    with assms g e show ?thesis by (simp add: find_session_def)
  qed
qed

section \<open>The retrying loops\<close>

lemma interim_remote_once_trace:
  assumes "interim_remote_once env msg sess r s = (rc, s')"
  shows "\<exists>es x new. trace s' = trace s @ es @
           [StoreSet r (create_key (m_call_id msg) (m_role msg) (m_function msg))
              (serialize_session env x) (if new then 0 else s_cas x)
              (2 * s_session_refresh_time x) rc] \<and>
         list_all store_effect es \<and> settled_stores es = []"
    and "pending s' = pending s"
proof -
  obtain x s1 where
    g: "get_session_data env r (m_call_id msg) (m_role msg) (m_function msg) (m_trail msg) s = (x, s1)"
    by fastforce
  note e = get_session_data_effects [OF g]
  obtain y new where
    p: "set_session_data env r (m_call_id msg) (m_role msg) (m_function msg) y new s1 = (rc, s')"
    using assms g by (auto simp: interim_remote_once_def Let_def split: option.splits)
  note t = set_session_data_trace [OF p]
  show "pending s' = pending s" using t(2) e(2) by simp
  show "\<exists>es x new. trace s' = trace s @ es @
           [StoreSet r (create_key (m_call_id msg) (m_role msg) (m_function msg))
              (serialize_session env x) (if new then 0 else s_cas x)
              (2 * s_session_refresh_time x) rc] \<and>
         list_all store_effect es \<and> settled_stores es = []"
    using t(1) extends_effects_of [OF e(1)] extends_list_all [OF e(1)] e(3) by auto
qed

lemma interim_remotes_effects:
  assumes "interim_remotes env msg sess rs s = Some s'"
  shows "extends store_effect s s' \<and> pending s' = pending s \<and> settled_stores (effects_of s s') = rs"
  using assms
proof (induction rule: interim_remotes_induct)
  case (iteration r rest s rc s1 s')
  obtain es e where t: "trace s1 = trace s @ es @ [e]" "list_all store_effect (es @ [e])"
    "settled_stores es = []" "settled e = (rc \<noteq> DATA_CONTENTION)" "effect_store e = r"
    using interim_remote_once_trace(1) [OF iteration(1)] by auto
  have x1: "extends store_effect s s1" using t by (auto simp: extends_def)
  have e1: "settled_stores (effects_of s s1) = (if rc = DATA_CONTENTION then [] else [r])"
    using t by (simp add: effects_of_append)
  from iteration(2) have x2: "extends store_effect s1 s'" by blast
  show ?case
    using iteration(2) extends_trans [OF x1 x2] effects_of_trans [OF x1 x2] e1
      interim_remote_once_trace(2) [OF iteration(1)] by simp
qed simp

lemma stop_remotes_effects:
  assumes "stop_remotes env msg rs s = Some s'"
  shows "extends store_effect s s' \<and> pending s' = pending s \<and> settled_stores (effects_of s s') = rs"
  using assms
proof (induction rule: stop_remotes_induct)
  case (iteration r rest s rc s1 s')
  note t = delete_session_data_trace [OF iteration(1)]
  have x1: "extends store_effect s s1" using t by (auto simp: extends_def)
  have e1: "settled_stores (effects_of s s1) = (if rc = DATA_CONTENTION then [] else [r])"
    using t by (simp add: effects_of_append)
  from iteration(2) have x2: "extends store_effect s1 s'" by blast
  show ?case
    using iteration(2) extends_trans [OF x1 x2] effects_of_trans [OF x1 x2] e1 t(2) by simp
qed simp

interpretation interim_remotes_op: io_operation store_effect
  "\<lambda>s s'. interim_remotes env msg sess rs s = Some s'" for env msg sess rs
  by unfold_locales (auto dest: interim_remotes_effects)

interpretation stop_remotes_op: io_operation store_effect
  "\<lambda>s s'. stop_remotes env msg rs s = Some s'" for env msg rs
  by unfold_locales (auto dest: stop_remotes_effects)

section \<open>One attempt\<close>

fun stop_effect :: "effect \<Rightarrow> bool" where
  "stop_effect (TimerDelete _) = True"
| "stop_effect e = store_effect e"

lemma store_stop_effect: "store_effect e \<Longrightarrow> stop_effect e"
  by (cases e) simp_all

lemma stop_effect_kinds [effect_simps]:
  "stop_effect e \<Longrightarrow> \<not> is_acr e" "stop_effect e \<Longrightarrow> \<not> is_reply e"
  "\<not> stop_effect MessageDeleted" "stop_effect e \<Longrightarrow> \<not> parse_effect e"
  by (cases e; simp)+

lemma interim_update_Restart:
  assumes "interim_update env sm msg sess new s = Some (Restart s')"
  shows "extends store_effect s s' \<and> pending s' = pending s \<and> settled_stores (effects_of s s') = []"
proof -
  from assms have
    "set_session_data env (local_store sm) (m_call_id msg) (m_role msg) (m_function msg) sess new s
       = (DATA_CONTENTION, s')"
    by (auto simp: interim_update_def Let_def split: if_splits prod.splits)
  from set_session_data_trace [OF this] show ?thesis
    by (auto simp: extends_def effects_of_append)
qed

lemma interim_update_Proceed:
  assumes "interim_update env sm msg sess new s = Some (Proceed s')"
  obtains rc s1 where
    "set_session_data env (local_store sm) (m_call_id msg) (m_role msg) (m_function msg) sess new s
       = (rc, s1)" "rc \<noteq> DATA_CONTENTION"
    "interim_remotes env msg sess (remote_stores sm) s1 = Some s'"
  using assms by (auto simp: interim_update_def Let_def split: if_splits prod.splits)

lemma interim_update_Proceed_effects:
  assumes "interim_update env sm msg sess new s = Some (Proceed s')"
  shows "\<exists>rc rest. rc \<noteq> DATA_CONTENTION \<and>
      effects_of s s' =
        StoreSet (local_store sm) (create_key (m_call_id msg) (m_role msg) (m_function msg))
          (serialize_session env sess) (if new then 0 else s_cas sess)
          (2 * s_session_refresh_time sess) rc # rest \<and> settled_stores rest = remote_stores sm"
    and "extends store_effect s s'" and "pending s' = pending s"
proof -
  obtain rc s1 where
    p: "set_session_data env (local_store sm) (m_call_id msg) (m_role msg) (m_function msg) sess new s
       = (rc, s1)" and rc: "rc \<noteq> DATA_CONTENTION"
    and r: "interim_remotes env msg sess (remote_stores sm) s1 = Some s'"
    using assms by (rule interim_update_Proceed)
  note t = set_session_data_trace [OF p] and i = interim_remotes_effects [OF r]
  have x: "extends store_effect s s1" using t by (auto simp: extends_def)
  show "extends store_effect s s'" "pending s' = pending s"
    using x i t by (auto intro: extends_trans)
  show "\<exists>rc rest. rc \<noteq> DATA_CONTENTION \<and>
      effects_of s s' =
        StoreSet (local_store sm) (create_key (m_call_id msg) (m_role msg) (m_function msg))
          (serialize_session env sess) (if new then 0 else s_cas sess)
          (2 * s_session_refresh_time sess) rc # rest \<and> settled_stores rest = remote_stores sm"
    using effects_of_trans [OF x] i rc effects_of_append [OF t(1)] by auto
qed

lemma stop_update_Restart:
  assumes "stop_update env sm msg sess s = Some (Restart s')"
  shows "extends store_effect s s' \<and> pending s' = pending s \<and> settled_stores (effects_of s s') = []"
proof -
  from assms have
    "delete_session_data_cas env (local_store sm) (m_call_id msg) (m_role msg) (m_function msg) sess s
       = (DATA_CONTENTION, s')"
    by (auto simp: stop_update_def Let_def split: if_splits prod.splits)
  from delete_session_data_cas_trace [OF this] show ?thesis
    by (auto simp: extends_def effects_of_append)
qed

lemma delete_timer_trace [simp]:
  "trace (delete_timer env i s) = trace s @ [TimerDelete i]"
  "pending (delete_timer env i s) = pending s"
  by (simp_all add: delete_timer_def split: prod.split)

lemma stop_update_Proceed_effects:
  assumes "stop_update env sm msg sess s = Some (Proceed s')"
  shows "\<exists>rc es. rc \<noteq> DATA_CONTENTION \<and> list_all store_effect es \<and>
      effects_of s s' =
        StoreSet (local_store sm) (create_key (m_call_id msg) (m_role msg) (m_function msg))
          '''' (s_cas sess) 0 rc # es @
        (if s_timer_id sess \<noteq> ''NO_TIMER'' then [TimerDelete (s_timer_id sess)] else []) \<and>
      settled_stores es = remote_stores sm"
    and "extends stop_effect s s'" and "pending s' = pending s"
proof -
  obtain rc s1 s2 where
    d: "delete_session_data_cas env (local_store sm) (m_call_id msg) (m_role msg) (m_function msg)
          sess s = (rc, s1)" and rc: "rc \<noteq> DATA_CONTENTION"
    and r: "stop_remotes env msg (remote_stores sm) s1 = Some s2"
    and s': "s' = (if s_timer_id sess \<noteq> ''NO_TIMER'' then delete_timer env (s_timer_id sess) s2 else s2)"
    using assms by (auto simp: stop_update_def Let_def split: if_splits prod.splits)
  note t = delete_session_data_cas_trace [OF d] and i = stop_remotes_effects [OF r]
  have s2: "trace s2 = trace s1 @ effects_of s1 s2" "list_all store_effect (effects_of s1 s2)"
    using i by (simp_all add: extends_iff)
  let ?head = "StoreSet (local_store sm) (create_key (m_call_id msg) (m_role msg) (m_function msg))
          '''' (s_cas sess) 0 rc"
  let ?tail = "if s_timer_id sess \<noteq> ''NO_TIMER'' then [TimerDelete (s_timer_id sess)] else []"
  have tr: "trace s' = trace s @ ?head # effects_of s1 s2 @ ?tail"
    using s' t(1) s2(1) by simp
  then show "\<exists>rc es. rc \<noteq> DATA_CONTENTION \<and> list_all store_effect es \<and>
      effects_of s s' =
        StoreSet (local_store sm) (create_key (m_call_id msg) (m_role msg) (m_function msg))
          '''' (s_cas sess) 0 rc # es @ ?tail \<and> settled_stores es = remote_stores sm"
    using rc s2(2) i effects_of_append [OF tr] by blast
  have "list_all stop_effect (effects_of s1 s2)"
    using s2(2) by (auto simp: list_all_iff store_stop_effect)
  then show "extends stop_effect s s'" using tr by (auto simp: extends_def)
  show "pending s' = pending s" using s' t(2) i by simp
qed

lemma update_stores_Restart:
  assumes "update_stores env sm msg sess new s = Some (Restart s')"
  shows "extends store_effect s s' \<and> pending s' = pending s \<and> settled_stores (effects_of s s') = []"
  using assms
  by (simp add: update_stores_def split: if_splits) (rule interim_update_Restart stop_update_Restart;
      assumption)+

lemma extends_stop: "extends store_effect s s' \<Longrightarrow> extends stop_effect s s'"
  by (rule extends_mono [OF _ store_stop_effect])

lemma update_stores_Proceed:
  assumes "update_stores env sm msg sess new s = Some (Proceed s')"
  shows "extends stop_effect s s'" "pending s' = pending s"
proof -
  consider "interim_update env sm msg sess new s = Some (Proceed s')"
    | "stop_update env sm msg sess s = Some (Proceed s')"
    using assms by (auto simp: update_stores_def split: if_splits)
  then show "extends stop_effect s s'" "pending s' = pending s"
    by (cases; blast dest: interim_update_Proceed_effects(2,3) stop_update_Proceed_effects(2,3)
        extends_stop)+
qed

section \<open>The last attempt of handle\<close>

text \<open>
  A call of \<open>handle\<close> that returns has made some attempts that the local store refused and
  one, from a state \<open>s0\<close>, that it did not. \<open>last_attempt\<close> describes that one and its
  result; the properties of \<open>handle\<close> follow from it without another induction.
\<close>

definition last_attempt ::
  "'w env \<Rightarrow> session_manager \<Rightarrow> message \<Rightarrow> 'w io \<Rightarrow> crash + 'w io \<Rightarrow> bool" where
  "last_attempt env sm msg s0 r \<longleftrightarrow>
     (\<exists>found new s1. find_session env sm msg s0 = ((found, new), s1) \<and>
        (case found of
           None \<Rightarrow> r = Inr (emit MessageDeleted s1)
         | Some sess0 \<Rightarrow>
             \<exists>s2. update_stores env sm msg (bump_session sess0) new s1 = Some (Proceed s2) \<and>
                  r = send_to_peer env sm (fill_from_session msg (bump_session sess0)) s2))"

lemma handle_last_attempt:
  assumes "handle env sm msg s = Some r"
    and "isInterim (m_record_type msg) \<or> isStop (m_record_type msg)"
  shows "\<exists>s0. extends store_effect s s0 \<and> pending s0 = pending s \<and>
    settled_stores (effects_of s s0) = [] \<and> last_attempt env sm msg s0 r"
  using assms(1)
proof (induction rule: handle_induct)
  case (restart s x new s1 s2 r)
  then obtain s0 where s0: "extends store_effect s2 s0" "pending s0 = pending s2"
    "settled_stores (effects_of s2 s0) = []" "last_attempt env sm msg s0 r" by blast
  note a = find_session_effects [OF restart(2)] and b = update_stores_Restart [OF restart(3)]
  then have ab: "extends store_effect s s2" "settled_stores (effects_of s s2) = []"
    using effects_of_trans [of store_effect s s1 store_effect s2] by (auto intro: extends_trans)
  show ?case
    using s0 a b ab effects_of_trans [OF ab(1) s0(1)] by (auto intro: extends_trans)
next
  case (missing s new s1)
  then have "last_attempt env sm msg s (Inr (emit MessageDeleted s1))" by (simp add: last_attempt_def)
  then show ?case by (intro exI [of _ s]) simp
next
  case (proceed s x new s1 s2)
  then have "last_attempt env sm msg s (send_to_peer env sm (fill_from_session msg (bump_session x)) s2)"
    by (simp add: last_attempt_def)
  then show ?case by (intro exI [of _ s]) simp
qed (use assms(2) in blast)

section \<open>Handing the message to the peer\<close>

definition first_sender :: "session_manager \<Rightarrow> message \<Rightarrow> peer_message_sender" where
  "first_sender sm msg =
     \<lparr>pms_msg = Some msg, pms_which = 0, pms_ccfs = m_ccfs msg, pms_trail = m_trail msg,
      pms_dest_realm = f_dest_realm (factory sm),
      pms_diameter_timeout = f_diameter_timeout (factory sm)\<rparr>"

definition first_acr :: "'w env \<Rightarrow> session_manager \<Rightarrow> message \<Rightarrow> avp list" where
  "first_acr env sm msg =
     AccountingRequest (avp_ok env) (m_session_id msg) (hd (m_ccfs msg))
       (f_dest_realm (factory sm)) (m_accounting_record_number msg)
       (json_at (m_received_json msg) ''event'')"

lemma send_to_peer_cases:
  "send_to_peer env sm msg s =
     (if m_ccfs msg = [] then Inl VectorIndexOutOfRange
      else if \<not> has_event msg then Inl MissingEventMember
      else Inr (s\<lparr>trace := trace s @
                    [SasEvent (m_trail msg) BILLING_REQUEST_SENT
                       [m_accounting_record_number msg] [hd (m_ccfs msg)],
                     AcrSent (first_acr env sm msg) (f_diameter_timeout (factory sm))],
                  pending := pending s @ [new_RalfTransaction (first_sender sm msg) msg]\<rparr>))"
  by (cases "m_ccfs msg")
     (simp_all add: send_to_peer_def pms_send_def newSender_def new_PeerMessageSender_def
       int_send_msg_cases first_sender_def first_acr_def acr_of_def)

lemma send_to_peer_Inr:
  assumes "send_to_peer env sm msg s = Inr s'"
  shows "m_ccfs msg \<noteq> []" "has_event msg" "world s' = world s"
    "effects_of s s' = [SasEvent (m_trail msg) BILLING_REQUEST_SENT
        [m_accounting_record_number msg] [hd (m_ccfs msg)],
      AcrSent (first_acr env sm msg) (f_diameter_timeout (factory sm))]"
    "trace s' = trace s @ effects_of s s'"
    "pending s' = pending s @ [new_RalfTransaction (first_sender sm msg) msg]"
  using assms by (auto simp: send_to_peer_cases effects_of_def split: if_splits)

lemma fill_from_session_simps [simp]:
  "m_accounting_record_number (fill_from_session msg sess) = s_acct_record_number sess"
  "m_ccfs (fill_from_session msg sess) = s_ccf sess"
  "m_session_id (fill_from_session msg sess) = s_session_id sess"
  "m_timer_id (fill_from_session msg sess) = s_timer_id sess"
  "m_trail (fill_from_session msg sess) = m_trail msg"
  "m_record_type (fill_from_session msg sess) = m_record_type msg"
  "m_received_json (fill_from_session msg sess) = m_received_json msg"
  "has_event (fill_from_session msg sess) = has_event msg"
  by (simp_all add: fill_from_session_def has_event_def)

lemma bump_session_simps [simp]:
  "s_ccf (bump_session x) = s_ccf x" "s_session_id (bump_session x) = s_session_id x"
  "s_timer_id (bump_session x) = s_timer_id x" "s_cas (bump_session x) = s_cas x"
  "s_session_refresh_time (bump_session x) = s_session_refresh_time x"
  "s_interim_interval (bump_session x) = s_interim_interval x"
  "s_acct_record_number (bump_session x) = s_acct_record_number x + 1"
  "durable (bump_session x) = durable x"
  by (simp_all add: bump_session_def durable_def)

end
