(* ===== verification/Manager_Termination.thy ===== *)
theory Manager_Termination
  imports Manager_Lemmas
begin

text \<open>
  Why \<open>handle\<close> returns. Its restarts and the repeated iterations of its two loops over the
  remote stores happen only on \<open>DATA_CONTENTION\<close>; if contention is bounded they end, and
  \<open>handle\<close> is total.
\<close>

section \<open>Termination under bounded contention\<close>

text \<open>
  The fairness the retry loops depend on: contention uses up some budget \<open>budget w\<close> of the
  world, which no store call increases. It holds, for instance, when the other writers of a key
  make finitely many writes.
\<close>

definition contention_bounded :: "'w env \<Rightarrow> ('w \<Rightarrow> nat) \<Rightarrow> bool" where
  "contention_bounded env budget \<longleftrightarrow>
     (\<forall>st table k w. budget (snd (get_data env st table k w)) \<le> budget w) \<and>
     (\<forall>st table k d c e w status w'. set_data env st table k d c e w = (status, w') \<longrightarrow>
        budget w' \<le> budget w \<and> (status = DATA_CONTENTION \<longrightarrow> budget w' < budget w)) \<and>
     (\<forall>st table k w status w'. delete_data env st table k w = (status, w') \<longrightarrow>
        budget w' \<le> budget w \<and> (status = DATA_CONTENTION \<longrightarrow> budget w' < budget w))"

lemma get_session_data_budget:
  assumes "contention_bounded env budget"
    and "get_session_data env st call role func trail s = (r, s')"
  shows "budget (world s') \<le> budget (world s)"
proof -
  obtain status data cas w where
    g: "get_data env st ''session'' (create_key call role func) (world s) = ((status, data, cas), w)"
    by (metis prod.exhaust)
  then have "world s' = w"
    using assms(2) by (auto simp: get_session_data_def Let_def split: if_splits option.splits)
  moreover have "budget (snd (get_data env st ''session'' (create_key call role func) (world s)))
      \<le> budget (world s)"
    using assms(1) by (simp add: contention_bounded_def)
  ultimately show ?thesis using g by simp
qed

lemma write_budget:
  assumes "contention_bounded env budget"
  shows "set_session_data env st call role func x new s = (rc, s') \<Longrightarrow>
      budget (world s') \<le> budget (world s) \<and>
      (rc = DATA_CONTENTION \<longrightarrow> budget (world s') < budget (world s))"
    and "delete_session_data_cas env st call role func x s = (rc, s') \<Longrightarrow>
      budget (world s') \<le> budget (world s) \<and>
      (rc = DATA_CONTENTION \<longrightarrow> budget (world s') < budget (world s))"
    and "delete_session_data env st call role func s = (rc, s') \<Longrightarrow>
      budget (world s') \<le> budget (world s) \<and>
      (rc = DATA_CONTENTION \<longrightarrow> budget (world s') < budget (world s))"
  using assms set_session_data_world delete_cas_world delete_world
  unfolding contention_bounded_def by metis+

lemma interim_remote_once_budget:
  assumes "contention_bounded env budget" "interim_remote_once env msg sess r s = (rc, s')"
  shows "budget (world s') \<le> budget (world s) \<and>
    (rc = DATA_CONTENTION \<longrightarrow> budget (world s') < budget (world s))"
proof -
  obtain x s1 where
    g: "get_session_data env r (m_call_id msg) (m_role msg) (m_function msg) (m_trail msg) s = (x, s1)"
    by fastforce
  obtain y new where
    p: "set_session_data env r (m_call_id msg) (m_role msg) (m_function msg) y new s1 = (rc, s')"
    using assms g by (auto simp: interim_remote_once_def Let_def split: option.splits)
  from get_session_data_budget [OF assms(1) g] write_budget(1) [OF assms(1) p] show ?thesis by auto
qed

lemma interim_remotes_returns:
  assumes "contention_bounded env budget"
  shows "\<exists>s'. interim_remotes env msg sess rs s = Some s' \<and> budget (world s') \<le> budget (world s)"
proof (induction rs arbitrary: s)
  case Nil
  then show ?case by (simp add: interim_remotes.simps)
next
  case (Cons r rest)
  show ?case
  proof (induction "budget (world s)" arbitrary: s rule: less_induct)
    case less
    obtain rc s1 where o: "interim_remote_once env msg sess r s = (rc, s1)" by fastforce
    note b = interim_remote_once_budget [OF assms o]
    show ?case
    proof (cases "rc = DATA_CONTENTION")
      case True
      with b less [of s1] o show ?thesis by (subst interim_remotes.simps) auto
    next
      case False
      with b Cons.IH [of s1] o show ?thesis by (subst interim_remotes.simps) auto
    qed
  qed
qed

lemma stop_remotes_returns:
  assumes "contention_bounded env budget"
  shows "\<exists>s'. stop_remotes env msg rs s = Some s' \<and> budget (world s') \<le> budget (world s)"
proof (induction rs arbitrary: s)
  case Nil
  then show ?case by (simp add: stop_remotes.simps)
next
  case (Cons r rest)
  show ?case
  proof (induction "budget (world s)" arbitrary: s rule: less_induct)
    case less
    obtain rc s1 where
      o: "delete_session_data env r (m_call_id msg) (m_role msg) (m_function msg) s = (rc, s1)"
      by fastforce
    note b = write_budget(3) [OF assms o]
    show ?case
    proof (cases "rc = DATA_CONTENTION")
      case True
      with b less [of s1] o show ?thesis by (subst stop_remotes.simps) auto
    next
      case False
      with b Cons.IH [of s1] o show ?thesis by (subst stop_remotes.simps) auto
    qed
  qed
qed

lemma find_remote_session_budget:
  "contention_bounded env budget \<Longrightarrow> find_remote_session env msg rs s = (r, s') \<Longrightarrow>
     budget (world s') \<le> budget (world s)"
proof (induction rs arbitrary: s)
  case (Cons a rs)
  obtain x s1 where
    g: "get_session_data env a (m_call_id msg) (m_role msg) (m_function msg) (m_trail msg) s = (x, s1)"
    by fastforce
  note b = get_session_data_budget [OF Cons.prems(1) g]
  show ?case
  proof (cases x)
    case None
    with Cons.prems(2) g have "find_remote_session env msg rs s1 = (r, s')" by simp
    from Cons.IH [OF Cons.prems(1) this] b show ?thesis by simp
  next
    case (Some y)
    with Cons.prems(2) g b show ?thesis by simp
  qed
qed simp

lemma find_session_budget:
  assumes "contention_bounded env budget" "find_session env sm msg s = (r, s')"
  shows "budget (world s') \<le> budget (world s)"
proof -
  obtain x s1 where
    g: "get_session_data env (local_store sm) (m_call_id msg) (m_role msg) (m_function msg)
          (m_trail msg) s = (x, s1)"
    by fastforce
  obtain y s2 where f: "find_remote_session env msg (remote_stores sm) s1 = (y, s2)" by fastforce
  from get_session_data_budget [OF assms(1) g] find_remote_session_budget [OF assms(1) f] assms(2) g f
  show ?thesis by (cases x) (simp_all add: find_session_def)
qed

lemma update_stores_progress:
  assumes "contention_bounded env budget"
  shows "\<exists>a. update_stores env sm msg sess new s = Some a \<and>
    (\<forall>s'. a = Restart s' \<longrightarrow> budget (world s') < budget (world s))"
proof (cases "isInterim (m_record_type msg)")
  case True
  obtain rc s1 where
    p: "set_session_data env (local_store sm) (m_call_id msg) (m_role msg) (m_function msg) sess new s
       = (rc, s1)" by fastforce
  obtain s2 where "interim_remotes env msg sess (remote_stores sm) s1 = Some s2"
    using interim_remotes_returns [OF assms] by blast
  with write_budget(1) [OF assms p] True p show ?thesis
    by (cases "rc = DATA_CONTENTION") (simp_all add: update_stores_def interim_update_def)
next
  case False
  obtain rc s1 where
    p: "delete_session_data_cas env (local_store sm) (m_call_id msg) (m_role msg) (m_function msg)
          sess s = (rc, s1)" by fastforce
  obtain s2 where "stop_remotes env msg (remote_stores sm) s1 = Some s2"
    using stop_remotes_returns [OF assms] by blast
  with write_budget(2) [OF assms p] False p show ?thesis
    by (cases "rc = DATA_CONTENTION") (simp_all add: update_stores_def stop_update_def)
qed

lemma handle_terminates:
  assumes "contention_bounded env budget"
  shows "\<exists>r. handle env sm msg s = Some r"
proof (induction "budget (world s)" arbitrary: s rule: less_induct)
  case less
  obtain found new s1 where f: "find_session env sm msg s = ((found, new), s1)"
    by (metis prod.exhaust)
  show ?case
  proof (cases found)
    case None
    with f show ?thesis by (subst handle.simps) simp
  next
    case (Some x)
    obtain a where a: "update_stores env sm msg (bump_session x) new s1 = Some a"
      "\<forall>s'. a = Restart s' \<longrightarrow> budget (world s') < budget (world s1)"
      using update_stores_progress [OF assms] by blast
    show ?thesis
    proof (cases a)
      case (Restart s2)
      with a find_session_budget [OF assms f] have "budget (world s2) < budget (world s)" by simp
      from less [OF this] f Some a Restart show ?thesis by (subst handle.simps) simp
    next
      case (Proceed s2)
      with f Some a show ?thesis by (subst handle.simps) simp
    qed
  qed
qed

end
