(* ===== verification/Manager_Refinement.thy ===== *)
theory Manager_Refinement
  imports Manager_Lemmas
begin

text \<open>
  The session manager over stores that keep the register contract. The abstract state is what
  each store holds for the session's key; an INTERIM increments the accounting record number in
  every store that has the session and copies the session into every store that lacks it, a STOP
  removes it everywhere, and both return.
\<close>

definition msg_key :: "message \<Rightarrow> string" where
  "msg_key msg = create_key (m_call_id msg) (m_role msg) (m_function msg)"

lemma msg_key_simps [simp]:
  "create_key (m_call_id msg) (m_role msg) (m_function msg) = msg_key msg"
  by (simp add: msg_key_def)

text \<open>Reading changes nothing any store holds.\<close>

definition same_stores :: "'w register \<Rightarrow> 'w io \<Rightarrow> 'w io \<Rightarrow> bool" where
  "same_stores e s s' \<longleftrightarrow> (\<forall>st. session_at e st s' = session_at e st s \<and> entry_absent e st s' =
      entry_absent e st s)"

lemma same_storesD:
  "same_stores e s s' \<Longrightarrow> session_at e st s' = session_at e st s"
  "same_stores e s s' \<Longrightarrow> entry_absent e st s' = entry_absent e st s"
  by (simp_all add: same_stores_def)

lemma same_stores_refl [simp]: "same_stores e s s"
  by (simp add: same_stores_def)

lemma same_stores_trans: "same_stores e s t \<Longrightarrow> same_stores e t u \<Longrightarrow> same_stores e s u"
  by (simp add: same_stores_def)

lemma get_session_data_register:
  assumes "register_ok e"
    and "get_session_data (fst e) st (m_call_id msg) (m_role msg) (m_function msg) trail s = (r, s')"
  shows "r = session_at e st s (msg_key msg)" "same_stores e s s'"
  using register_get [OF assms] session_at_world_cong [of e _ s' s]
  by (auto simp: same_stores_def)

fun first_session :: "'w register \<Rightarrow> store_id list \<Rightarrow> 'w io \<Rightarrow> string \<Rightarrow> session option" where
  "first_session e [] s key = None"
| "first_session e (r # rs) s key =
     (case session_at e r s key of Some x \<Rightarrow> Some x | None \<Rightarrow> first_session e rs s key)"

lemma first_session_cong: "same_stores e s s' \<Longrightarrow> first_session e rs s' key = first_session e rs s key"
  by (induction rs) (simp_all add: same_storesD(1) split: option.split)

lemma find_remote_session_register:
  assumes "register_ok e" "find_remote_session (fst e) msg rs s = (r, s')"
  shows "r = first_session e rs s (msg_key msg) \<and> same_stores e s s'"
  using assms(2)
proof (induction rs arbitrary: s)
  case Nil
  then show ?case by simp
next
  case (Cons a rs)
  obtain x s1 where
    g: "get_session_data (fst e) a (m_call_id msg) (m_role msg) (m_function msg) (m_trail msg) s = (x, s1)"
    by fastforce
  note l = get_session_data_register [OF assms(1) g]
  show ?case
  proof (cases x)
    case None
    with Cons.prems g have "find_remote_session (fst e) msg rs s1 = (r, s')" by simp
    from Cons.IH [OF this] l None show ?thesis
      by (auto simp: first_session_cong intro: same_stores_trans)
  next
    case (Some y)
    with l(1) have "session_at e a s (msg_key msg) = Some y" by simp
    with Some Cons.prems g l(2) show ?thesis by (auto split: option.split)
  qed
qed

lemma find_session_register:
  assumes "register_ok e" "find_session (fst e) sm msg s = ((found, new), s')"
  shows "found = first_session e (local_store sm # remote_stores sm) s (msg_key msg)"
    and "new \<longleftrightarrow> session_at e (local_store sm) s (msg_key msg) = None"
    and "same_stores e s s'"
proof -
  obtain x s1 where
    g: "get_session_data (fst e) (local_store sm) (m_call_id msg) (m_role msg) (m_function msg)
          (m_trail msg) s = (x, s1)"
    by fastforce
  obtain y s2 where f: "find_remote_session (fst e) msg (remote_stores sm) s1 = (y, s2)" by fastforce
  note l = get_session_data_register [OF assms(1) g]
    and m = find_remote_session_register [OF assms(1) f]
  show "found = first_session e (local_store sm # remote_stores sm) s (msg_key msg)"
    and "new \<longleftrightarrow> session_at e (local_store sm) s (msg_key msg) = None"
    and "same_stores e s s'"
    using assms(2) g f l m
    by (auto simp: find_session_def first_session_cong split: option.splits dest: sym
        intro: same_stores_trans)
qed

text \<open>A store that will accept the update of an INTERIM: it has a durable session or no entry.\<close>

definition store_ready :: "'w register \<Rightarrow> store_id \<Rightarrow> 'w io \<Rightarrow> string \<Rightarrow> bool" where
  "store_ready e st s key \<longleftrightarrow>
     (case session_at e st s key of Some y \<Rightarrow> durable y | None \<Rightarrow> entry_absent e st s key)"

text \<open>What an INTERIM makes of a store's session: its own incremented, or a copy of the given one.\<close>

definition interim_session :: "session \<Rightarrow> session option \<Rightarrow> session" where
  "interim_session sess old = (case old of None \<Rightarrow> sess | Some y \<Rightarrow> bump_session y)"

definition holds_session :: "'w register \<Rightarrow> store_id \<Rightarrow> 'w io \<Rightarrow> string \<Rightarrow> session \<Rightarrow> bool" where
  "holds_session e st s key x \<longleftrightarrow> (\<exists>c. session_at e st s key = Some ((stored_view x)\<lparr>s_cas := c\<rparr>))"

lemma interim_remote_once_register:
  assumes "register_ok e" "durable sess" "store_ready e r s (msg_key msg)"
    and "interim_remote_once (fst e) msg sess r s = (rc, s')"
  shows "rc = OK" "holds_session e r s' (msg_key msg) (interim_session sess (session_at e r s (msg_key msg)))"
    and "st \<noteq> r \<Longrightarrow> session_at e st s' = session_at e st s \<and> entry_absent e st s' = entry_absent e st s"
proof -
  obtain x s1 where
    g: "get_session_data (fst e) r (m_call_id msg) (m_role msg) (m_function msg) (m_trail msg) s = (x, s1)"
    by fastforce
  note l = get_session_data_register [OF assms(1) g]
  let ?y = "interim_session sess x" and ?new = "x = None"
  have p: "set_session_data (fst e) r (m_call_id msg) (m_role msg) (m_function msg) ?y ?new s1 = (rc, s')"
    using assms(4) g by (auto simp: interim_remote_once_def interim_session_def split: option.splits)
  have "durable ?y"
    using assms(2,3) l(1) by (auto simp: interim_session_def store_ready_def split: option.splits)
  moreover have "if ?new then entry_absent e r s1 (msg_key msg)
      else \<exists>y. session_at e r s1 (msg_key msg) = Some y \<and> s_cas y = s_cas ?y"
    using assms(3) l by (auto simp: interim_session_def store_ready_def same_storesD split: option.splits)
  ultimately have "rc = OK \<and> (\<exists>c. session_at e r s' =
      (session_at e r s1)(msg_key msg \<mapsto> (stored_view ?y)\<lparr>s_cas := c\<rparr>))"
    using register_put_commits [OF assms(1) p] unfolding msg_key_simps by blast
  then show "rc = OK" "holds_session e r s' (msg_key msg) (interim_session sess (session_at e r s
      (msg_key msg)))"
    using l(1) by (auto simp: holds_session_def)
  show "st \<noteq> r \<Longrightarrow> session_at e st s' = session_at e st s \<and> entry_absent e st s' = entry_absent e st s"
    using register_frames(1) [OF assms(1) _ p] session_at_world_cong [of e st s' s1] l(2)
    by (auto simp: same_storesD)
qed

lemma interim_remotes_register:
  assumes "register_ok e" "durable sess"
  shows "distinct rs \<Longrightarrow> (\<And>r. r \<in> set rs \<Longrightarrow> store_ready e r s (msg_key msg)) \<Longrightarrow>
    \<exists>s'. interim_remotes (fst e) msg sess rs s = Some s' \<and>
      (\<forall>st. st \<notin> set rs \<longrightarrow> session_at e st s' = session_at e st s) \<and>
      (\<forall>r \<in> set rs. holds_session e r s' (msg_key msg)
          (interim_session sess (session_at e r s (msg_key msg))))"
proof (induction rs arbitrary: s)
  case Nil
  then show ?case by (simp add: interim_remotes.simps)
next
  case (Cons r rs)
  obtain rc s1 where o: "interim_remote_once (fst e) msg sess r s = (rc, s1)" by fastforce
  have "store_ready e r s (msg_key msg)" using Cons.prems by simp
  note l = interim_remote_once_register [OF assms this o]
  have "store_ready e a s1 (msg_key msg)" if "a \<in> set rs" for a
  proof -
    have "a \<noteq> r" using that Cons.prems(1) by auto
    from l(3) [OF this] Cons.prems(2) [of a] that show ?thesis
      by (simp add: store_ready_def split: option.splits)
  qed
  with Cons.IH [of s1] Cons.prems(1) obtain s' where
    s': "interim_remotes (fst e) msg sess rs s1 = Some s'"
    "\<forall>st. st \<notin> set rs \<longrightarrow> session_at e st s' = session_at e st s1"
    "\<forall>a \<in> set rs. holds_session e a s' (msg_key msg)
        (interim_session sess (session_at e a s1 (msg_key msg)))"
    by auto
  have "interim_remotes (fst e) msg sess (r # rs) s = Some s'"
    using o l(1) s'(1) by (subst interim_remotes.simps) simp
  moreover have "holds_session e r s' (msg_key msg) (interim_session sess (session_at e r s (msg_key msg)))"
    using l(2) s'(2) Cons.prems(1) by (simp add: holds_session_def)
  moreover have "session_at e a s1 (msg_key msg) = session_at e a s (msg_key msg)" if "a \<in> set rs" for a
    using l(3) [of a] that Cons.prems(1) by (cases "a = r") auto
  ultimately show ?case
    using s' l(3) by (intro exI [of _ s']) auto
qed

section \<open>The abstract specification\<close>

text \<open>
  The ledger of a key: which store holds which session, forgetting the CAS. The three operations
  on it are what the protocol promises; \<open>spec_interim\<close> increments every copy and fills in
  the missing ones from the first copy found.
\<close>

type_synonym ledger = "store_id \<Rightarrow> session option"

fun first_copy :: "ledger \<Rightarrow> store_id list \<Rightarrow> session option" where
  "first_copy l [] = None"
| "first_copy l (st # sts) = (case l st of Some x \<Rightarrow> Some x | None \<Rightarrow> first_copy l sts)"

definition spec_interim :: "store_id list \<Rightarrow> ledger \<Rightarrow> ledger" where
  "spec_interim stores l =
     (case first_copy l stores of
        None \<Rightarrow> l
      | Some x \<Rightarrow> (\<lambda>st. if st \<in> set stores
                       then Some (bump_session (case l st of Some y \<Rightarrow> y | None \<Rightarrow> x))
                       else l st))"

definition spec_stop :: "store_id list \<Rightarrow> ledger \<Rightarrow> ledger" where
  "spec_stop stores l = (\<lambda>st. if st \<in> set stores then None else l st)"

definition spec_start :: "store_id list \<Rightarrow> session \<Rightarrow> ledger \<Rightarrow> ledger" where
  "spec_start stores x l =
     (\<lambda>st. if st \<in> set stores \<and> l st = None then Some (stored_view x) else l st)"

definition ledger_of :: "'w register \<Rightarrow> 'w io \<Rightarrow> string \<Rightarrow> ledger" where
  "ledger_of e s key = (\<lambda>st. map_option stored_view (session_at e st s key))"

lemma stored_view_simps [simp]:
  "stored_view (stored_view x) = stored_view x"
  "stored_view (x\<lparr>s_cas := c\<rparr>) = stored_view x"
  "stored_view (bump_session x) = bump_session (stored_view x)"
  by (simp_all add: stored_view_def bump_session_def)

lemma first_copy_ledger_of:
  "first_copy (ledger_of e s key) sts = map_option stored_view (first_session e sts s key)"
  by (induction sts) (simp_all add: ledger_of_def split: option.split)

lemma spec_interim_first:
  "first_copy l stores = Some x \<Longrightarrow> spec_interim stores l st =
     (if st \<in> set stores then Some (bump_session (case l st of Some y \<Rightarrow> y | None \<Rightarrow> x)) else l st)"
  by (simp add: spec_interim_def)

lemma ledger_of_holds:
  "holds_session e st s key x \<Longrightarrow> ledger_of e s key st = Some (stored_view x)"
  by (auto simp: holds_session_def ledger_of_def)

lemma same_stores_ledger: "same_stores e s s' \<Longrightarrow> ledger_of e s' key = ledger_of e s key"
  by (simp add: ledger_of_def same_storesD(1))

lemma first_session_SomeD:
  "first_session e sts s key = Some x \<Longrightarrow> \<exists>st \<in> set sts. session_at e st s key = Some x"
  by (induction sts) (auto split: option.splits)

section \<open>INTERIM refines its specification\<close>

lemma same_world_session_at [simp]:
  "session_at e st (s\<lparr>trace := t, pending := p\<rparr>) = session_at e st s"
  by (simp add: session_at_def fun_eq_iff)

lemma same_world_ledger_of: "world s' = world s \<Longrightarrow> ledger_of e s' = ledger_of e s"
  by (simp add: ledger_of_def session_at_def fun_eq_iff)

lemma interim_update_register:
  assumes ok: "register_ok e" and "durable sess" and dist: "distinct (local_store sm # remote_stores sm)"
    and ready: "\<And>st. st \<in> set (local_store sm # remote_stores sm) \<Longrightarrow> store_ready e st s (msg_key msg)"
    and new: "new \<longleftrightarrow> session_at e (local_store sm) s (msg_key msg) = None"
    and cas: "\<And>y. session_at e (local_store sm) s (msg_key msg) = Some y \<Longrightarrow> sess = bump_session y"
  shows "\<exists>s'. interim_update (fst e) sm msg sess new s = Some (Proceed s') \<and>
    (\<forall>st. st \<notin> set (local_store sm # remote_stores sm) \<longrightarrow> session_at e st s' = session_at e st s) \<and>
    (\<forall>st \<in> set (local_store sm # remote_stores sm).
        holds_session e st s' (msg_key msg) (interim_session sess (session_at e st s (msg_key msg))))"
proof -
  let ?l = "local_store sm" and ?key = "msg_key msg"
  obtain rc s1 where
    p: "set_session_data (fst e) ?l (m_call_id msg) (m_role msg) (m_function msg) sess new s = (rc, s1)"
    by fastforce
  have "if new then entry_absent e ?l s ?key
      else \<exists>y. session_at e ?l s ?key = Some y \<and> s_cas y = s_cas sess"
    using ready [of ?l] new cas by (auto simp: store_ready_def split: option.splits)
  then have c: "rc = OK \<and> (\<exists>c. session_at e ?l s1 = (session_at e ?l s)(?key \<mapsto> (stored_view sess)\<lparr>s_cas := c\<rparr>))"
    using register_put_commits [OF ok p \<open>durable sess\<close>] unfolding msg_key_simps by blast
  have fr: "session_at e st s1 = session_at e st s \<and> entry_absent e st s1 = entry_absent e st s"
    if "st \<noteq> ?l" for st
    using register_frames(1) [OF ok that p] session_at_world_cong [of e st s1 s] by blast
  have "store_ready e st s1 ?key" if "st \<in> set (remote_stores sm)" for st
    using fr [of st] ready [of st] that dist by (cases "st =
        ?l") (auto simp: store_ready_def split: option.splits)
  with interim_remotes_register [OF ok \<open>durable sess\<close>, of "remote_stores sm" s1 msg] dist
  obtain s' where s': "interim_remotes (fst e) msg sess (remote_stores sm) s1 = Some s'"
    "\<forall>st. st \<notin> set (remote_stores sm) \<longrightarrow> session_at e st s' = session_at e st s1"
    "\<forall>st \<in> set (remote_stores sm).
       holds_session e st s' ?key (interim_session sess (session_at e st s1 ?key))"
    by auto
  have "interim_update (fst e) sm msg sess new s = Some (Proceed s')"
    using p c s'(1) by (simp add: interim_update_def)
  moreover have "holds_session e ?l s' ?key (interim_session sess (session_at e ?l s ?key))"
    using c s'(2) dist cas by (auto simp: holds_session_def interim_session_def split: option.split)
  moreover have "session_at e st s1 ?key = session_at e st s ?key" if "st \<in> set (remote_stores sm)" for st
    using fr [of st] that dist by (cases "st = ?l") auto
  ultimately show ?thesis using s'(2,3) fr by (intro exI [of _ s']) auto
qed

abbreviation all_stores :: "session_manager \<Rightarrow> store_id list" where
  "all_stores sm \<equiv> local_store sm # remote_stores sm"

lemma find_session_found:
  assumes ok: "register_ok e" and x: "first_session e (all_stores sm) s (msg_key msg) = Some x"
  obtains new s1 where "find_session (fst e) sm msg s = ((Some x, new), s1)"
    "new \<longleftrightarrow> session_at e (local_store sm) s (msg_key msg) = None" "same_stores e s s1"
proof -
  obtain found new s1 where f: "find_session (fst e) sm msg s = ((found, new), s1)"
    by (metis prod.exhaust)
  show ?thesis using that [of new s1] f find_session_register [OF ok f] x by simp
qed

lemma send_filled:
  assumes "s_ccf x \<noteq> []" "has_event msg"
  obtains s' where "send_to_peer env sm (fill_from_session msg x) s = Inr s'"
    "world s' = world s"
    "pending s' = pending s @
      [new_RalfTransaction (first_sender sm (fill_from_session msg x)) (fill_from_session msg x)]"
  using assms that by (simp add: send_to_peer_cases)

text \<open>Once the stores are updated the ACR goes out with the session's number.\<close>

lemma handle_proceeds:
  assumes "isInterim (m_record_type msg) \<or> isStop (m_record_type msg)" "has_event msg" "s_ccf x \<noteq> []"
    and f: "find_session env sm msg s = ((Some x, new), s1)"
    and u: "update_stores env sm msg (bump_session x) new s1 = Some (Proceed s2)"
  shows "\<exists>s'. handle env sm msg s = Some (Inr s') \<and> world s' = world s2 \<and>
    pending s' = pending s @
      [new_RalfTransaction (first_sender sm (fill_from_session msg (bump_session x)))
         (fill_from_session msg (bump_session x))]"
proof -
  obtain s' where s': "send_to_peer env sm (fill_from_session msg (bump_session x)) s2 = Inr s'"
    "world s' = world s2" "pending s' = pending s2 @
      [new_RalfTransaction (first_sender sm (fill_from_session msg (bump_session x)))
         (fill_from_session msg (bump_session x))]"
    using send_filled [of "bump_session x" msg env sm s2] assms(2,3) by auto
  have "handle env sm msg s = Some (Inr s')"
    using assms(1) f u s'(1) by (subst handle.simps) simp
  moreover have "pending s2 = pending s"
    using update_stores_Proceed [OF u] find_session_effects [OF f] by simp
  ultimately show ?thesis using s'(2,3) by auto
qed

lemma handle_interim_refines:
  assumes ok: "register_ok e" and kind: "isInterim (m_record_type msg)" "has_event msg"
    and dist: "distinct (all_stores sm)"
    and ready: "\<And>st. st \<in> set (all_stores sm) \<Longrightarrow> store_ready e st s (msg_key msg)"
    and x: "first_session e (all_stores sm) s (msg_key msg) = Some x" "s_ccf x \<noteq> []"
  shows "\<exists>s'. handle (fst e) sm msg s = Some (Inr s') \<and>
    ledger_of e s' (msg_key msg) = spec_interim (all_stores sm) (ledger_of e s (msg_key msg)) \<and>
    pending s' = pending s @
      [new_RalfTransaction (first_sender sm (fill_from_session msg (bump_session x)))
         (fill_from_session msg (bump_session x))]"
proof -
  obtain new s1 where f: "find_session (fst e) sm msg s = ((Some x, new), s1)"
    and new: "new \<longleftrightarrow> session_at e (local_store sm) s (msg_key msg) = None" and same: "same_stores e s s1"
    using ok x(1) by (rule find_session_found)
  have at: "session_at e st s1 = session_at e st s" "entry_absent e st s1 = entry_absent e st s" for st
    using same by (simp_all add: same_storesD)
  have fc: "first_copy (ledger_of e s (msg_key msg)) (all_stores sm) = Some (stored_view x)"
    unfolding first_copy_ledger_of x(1) by simp
  have dur: "durable (bump_session x)"
    using first_session_SomeD [OF x(1)] ready by (force simp: store_ready_def)
  have r1: "store_ready e st s1 (msg_key msg)" if "st \<in> set (all_stores sm)" for st
    using ready [OF that] by (simp add: store_ready_def at split: option.splits)
  have "bump_session x = bump_session y" if "session_at e (local_store sm) s1 (msg_key msg) = Some y" for y
    using that x(1) at by simp
  with interim_update_register [OF ok dur dist r1, of new] new at obtain s2 where
    u: "interim_update (fst e) sm msg (bump_session x) new s1 = Some (Proceed s2)"
    and out: "\<forall>st. st \<notin> set (all_stores sm) \<longrightarrow> session_at e st s2 = session_at e st s"
    and ins: "\<forall>st \<in> set (all_stores sm).
      holds_session e st s2 (msg_key msg) (interim_session (bump_session x) (session_at e st s (msg_key msg)))"
    by auto
  have "update_stores (fst e) sm msg (bump_session x) new s1 = Some (Proceed s2)"
    using u kind(1) by (simp add: update_stores_def)
  note out_acr = handle_proceeds [OF disjI1 [OF kind(1)] kind(2) x(2) f this]
  have "ledger_of e s2 (msg_key msg) st =
      spec_interim (all_stores sm) (ledger_of e s (msg_key msg)) st" for st
  proof (cases "st \<in> set (all_stores sm)")
    case True
    show ?thesis
      unfolding spec_interim_first [OF fc] ledger_of_holds [OF bspec [OF ins True]] if_P [OF True]
      by (simp add: ledger_of_def interim_session_def split: option.split)
  next
    case False
    then show ?thesis
      using out unfolding spec_interim_first [OF fc] if_not_P [OF False] by (simp add: ledger_of_def)
  qed
  then have "ledger_of e s2 (msg_key msg) = spec_interim (all_stores sm) (ledger_of e s (msg_key msg))"
    unfolding fun_eq_iff by blast
  with out_acr same_world_ledger_of show ?thesis by metis
qed

section \<open>STOP refines its specification\<close>

text \<open>The timer service does not write to the session stores.\<close>

definition timers_separate :: "'w register \<Rightarrow> bool" where
  "timers_separate e \<longleftrightarrow>
     (\<forall>st i n r u q t w. snd e st (snd (send_post (fst e) i n r u q t w)) = snd e st w \<and>
        snd e st (snd (send_put (fst e) i n r u q t w)) = snd e st w \<and>
        snd e st (snd (send_delete (fst e) i w)) = snd e st w)"

lemma timers_separateD:
  assumes "timers_separate e"
  shows "snd e st (snd (send_post (fst e) i n r u q t w)) = snd e st w"
    and "snd e st (snd (send_put (fst e) i n r u q t w)) = snd e st w"
    and "snd e st (snd (send_delete (fst e) i w)) = snd e st w"
  using assms by (simp_all add: timers_separate_def)

lemma stop_remotes_register:
  assumes ok: "register_ok e"
  shows "\<exists>s'. stop_remotes (fst e) msg rs s = Some s' \<and>
    (\<forall>st. st \<notin> set rs \<longrightarrow> session_at e st s' = session_at e st s) \<and>
    (\<forall>r \<in> set rs. session_at e r s' (msg_key msg) = None) \<and>
    (\<forall>st. session_at e st s (msg_key msg) = None \<longrightarrow> session_at e st s' (msg_key msg) = None)"
proof (induction rs arbitrary: s)
  case Nil
  then show ?case by (simp add: stop_remotes.simps)
next
  case (Cons r rs)
  obtain rc s1 where
    o: "delete_session_data (fst e) r (m_call_id msg) (m_role msg) (m_function msg) s = (rc, s1)"
    by fastforce
  note l = register_del [OF ok o, unfolded msg_key_simps]
  have fr: "session_at e st s1 = session_at e st s" if "st \<noteq> r" for st
    using register_frames(3) [OF ok that o] session_at_world_cong [of e st s1 s] by blast
  have keep: "session_at e st s1 (msg_key msg) = None" if "session_at e st s (msg_key msg) = None" for st
    using that l fr [of st] by (cases "st = r") auto
  obtain s' where s': "stop_remotes (fst e) msg rs s1 = Some s'"
    "\<forall>st. st \<notin> set rs \<longrightarrow> session_at e st s' = session_at e st s1"
    "\<forall>r \<in> set rs. session_at e r s' (msg_key msg) = None"
    "\<forall>st. session_at e st s1 (msg_key msg) = None \<longrightarrow> session_at e st s' (msg_key msg) = None"
    using Cons.IH by blast
  have "stop_remotes (fst e) msg (r # rs) s = Some s'"
    using o l s'(1) by (subst stop_remotes.simps) simp
  moreover have "session_at e r s' (msg_key msg) = None" using s'(4) l by simp
  ultimately show ?case using s' fr keep by (intro exI [of _ s']) auto
qed

lemma handle_stop_refines:
  assumes ok: "register_ok e" and kind: "isStop (m_record_type msg)" "has_event msg"
    and x: "session_at e (local_store sm) s (msg_key msg) = Some x" "s_ccf x \<noteq> []"
    and timers: "timers_separate e"
  shows "\<exists>s'. handle (fst e) sm msg s = Some (Inr s') \<and>
    ledger_of e s' (msg_key msg) = spec_stop (all_stores sm) (ledger_of e s (msg_key msg)) \<and>
    pending s' = pending s @
      [new_RalfTransaction (first_sender sm (fill_from_session msg (bump_session x)))
         (fill_from_session msg (bump_session x))]"
proof -
  have "first_session e (all_stores sm) s (msg_key msg) = Some x" using x(1) by simp
  with ok obtain new s1 where f: "find_session (fst e) sm msg s = ((Some x, new), s1)"
    and same: "same_stores e s s1"
    by (rule find_session_found)
  have at: "session_at e st s1 = session_at e st s" for st using same by (simp add: same_storesD)
  obtain rc s2 where d: "delete_session_data_cas (fst e) (local_store sm) (m_call_id msg) (m_role msg)
      (m_function msg) (bump_session x) s1 = (rc, s2)" by fastforce
  have l: "rc = OK" "session_at e (local_store sm) s2 = (session_at e (local_store sm) s)(msg_key msg := None)"
    using register_del_cas_commits [OF ok d, unfolded msg_key_simps at, OF x(1)] by simp_all
  have fr: "session_at e st s2 = session_at e st s" if "st \<noteq> local_store sm" for st
    using register_frames(2) [OF ok that d] session_at_world_cong [of e st s2 s1] at by simp
  obtain s3 where r: "stop_remotes (fst e) msg (remote_stores sm) s2 = Some s3"
    "\<forall>st. st \<notin> set (remote_stores sm) \<longrightarrow> session_at e st s3 = session_at e st s2"
    "\<forall>r \<in> set (remote_stores sm). session_at e r s3 (msg_key msg) = None"
    "\<forall>st. session_at e st s2 (msg_key msg) = None \<longrightarrow> session_at e st s3 (msg_key msg) = None"
    using stop_remotes_register [OF ok] by blast
  let ?s4 = "if s_timer_id x \<noteq> ''NO_TIMER'' then delete_timer (fst e) (s_timer_id x) s3 else s3"
  have u: "stop_update (fst e) sm msg (bump_session x) s1 = Some (Proceed ?s4)"
    using d l(1) r(1) by (simp add: stop_update_def)
  have s4: "session_at e st ?s4 = session_at e st s3" for st
    using timers_separateD(3) [OF timers, of st "s_timer_id x" "world s3"]
      session_at_world_cong [of e st ?s4 s3]
    by (auto simp: delete_timer_def split: prod.splits)
  have "update_stores (fst e) sm msg (bump_session x) new s1 = Some (Proceed ?s4)"
    using u record_type_exclusive(5) [OF kind(1)] by (simp add: update_stores_def del: bump_session_simps)
  note out_acr = handle_proceeds [OF disjI2 [OF kind(1)] kind(2) x(2) f this]
  have "ledger_of e ?s4 (msg_key msg) st =
      spec_stop (all_stores sm) (ledger_of e s (msg_key msg)) st" for st
    using r(2,3,4) l(2) fr [of st] s4 [of st]
    by (cases "st = local_store sm"; cases "st \<in> set (remote_stores sm)")
       (auto simp: spec_stop_def ledger_of_def)
  then have "ledger_of e ?s4 (msg_key msg) = spec_stop (all_stores sm) (ledger_of e s (msg_key msg))"
    unfolding fun_eq_iff by blast
  moreover from out_acr obtain s' where "handle (fst e) sm msg s = Some (Inr s')" "world s' = world ?s4"
    "pending s' = pending s @ [new_RalfTransaction (first_sender sm (fill_from_session msg (bump_session x)))
       (fill_from_session msg (bump_session x))]" by blast
  ultimately show ?thesis using same_world_ledger_of [of s' ?s4 e] by (intro exI [of _ s']) simp
qed

section \<open>A STOP whose session is only in a remote store\<close>

text \<open>
  The CAS of the session then belongs to the remote store, while the deletion goes to the local
  store, which has no entry for the key and refuses any CAS but 0. Every restart sees the same.
\<close>

definition stop_stuck :: "'w register \<Rightarrow> session_manager \<Rightarrow> message \<Rightarrow> 'w io \<Rightarrow> bool" where
  "stop_stuck e sm msg s \<longleftrightarrow> entry_absent e (local_store sm) s (msg_key msg) \<and>
     first_session e (remote_stores sm) s (msg_key msg) \<noteq> None"

lemma stop_stuck_first_session:
  assumes "stop_stuck e sm msg s"
  obtains x where "first_session e (all_stores sm) s (msg_key msg) = Some x"
  using assms reg.absent_contents [of e "local_store sm" s "msg_key msg"]
  by (auto simp: stop_stuck_def)

lemma stop_stuck_update:
  assumes ok: "register_ok e" and stuck: "stop_stuck e sm msg s"
    and x: "first_session e (all_stores sm) s (msg_key msg) = Some x" and same: "same_stores e s s1"
  shows "\<exists>s2. stop_update (fst e) sm msg (bump_session x) s1 = Some (Restart s2) \<and> stop_stuck e sm msg s2"
proof -
  obtain rc s2 where d: "delete_session_data_cas (fst e) (local_store sm) (m_call_id msg)
      (m_role msg) (m_function msg) (bump_session x) s1 = (rc, s2)" by fastforce
  have "s_cas (bump_session x) \<noteq> 0"
    using first_session_SomeD [OF x] session_at_cas_nonzero [OF ok] by auto
  then have c: "rc = DATA_CONTENTION"
    "session_at e (local_store sm) s2 = session_at e (local_store sm) s1"
    "entry_absent e (local_store sm) s2 = entry_absent e (local_store sm) s1"
    using register_del_cas_contends [OF ok d] stuck same
    by (simp_all add: stop_stuck_def same_storesD)
  have "same_stores e s1 s2"
    using c(2,3) register_frames(2) [OF ok _ d] session_at_world_cong [of e _ s2 s1]
    unfolding same_stores_def by metis
  with same have "same_stores e s s2" by (rule same_stores_trans)
  then have "stop_stuck e sm msg s2"
    using stuck by (simp add: stop_stuck_def first_session_cong same_storesD)
  with c(1) d show ?thesis by (simp add: stop_update_def del: bump_session_simps)
qed

lemma handle_stop_remote_only:
  assumes ok: "register_ok e" and kind: "isStop (m_record_type msg)"
    and absent: "entry_absent e (local_store sm) s (msg_key msg)"
    and found: "first_session e (remote_stores sm) s (msg_key msg) \<noteq> None"
  shows "handle (fst e) sm msg s = None"
proof -
  have attempt: "\<exists>x new s1 s2. find_session (fst e) sm msg s = ((Some x, new), s1) \<and>
      update_stores (fst e) sm msg (bump_session x) new s1 = Some (Restart s2) \<and> stop_stuck e sm msg s2"
    if stuck: "stop_stuck e sm msg s" for s
  proof -
    obtain x where x: "first_session e (all_stores sm) s (msg_key msg) = Some x"
      using stop_stuck_first_session [OF stuck] .
    obtain new s1 where "find_session (fst e) sm msg s = ((Some x, new), s1)" "same_stores e s s1"
      using ok x by (rule find_session_found)
    with stop_stuck_update [OF ok stuck x] record_type_exclusive(5) [OF kind] show ?thesis
      by (fastforce simp: update_stores_def simp del: bump_session_simps)
  qed
  have "\<not> stop_stuck e sm msg s" if "handle (fst e) sm msg s = Some r" for r
    using that
  proof (induction rule: handle_induct)
    case (first s)
    with kind show ?case by blast
  qed (use attempt in fastforce)+
  with absent found show ?thesis by (cases "handle (fst e) sm msg s") (auto simp: stop_stuck_def)
qed

end
