(* ===== verification/Response_Lemmas.thy ===== *)
theory Response_Lemmas
  imports Manager_Lemmas
begin

text \<open>
  The library of facts about the response handling of theory Ccf_Response: which effects each
  helper can have and exactly which calls the loops over the stores make.
\<close>

section \<open>Loops over all stores\<close>

lemma set_all_stores_effects:
  "extends store_effect s (set_all_stores env msg x sts s) \<and>
   pending (set_all_stores env msg x sts s) = pending s \<and>
   (\<exists>rcs. length rcs = length sts \<and>
     effects_of s (set_all_stores env msg x sts s) =
       map2 (\<lambda>st rc. StoreSet st (create_key (m_call_id msg) (m_role msg) (m_function msg))
                       (serialize_session env x) 0 (2 * s_session_refresh_time x) rc) sts rcs)"
proof (induction sts arbitrary: s)
  case Nil
  then show ?case by simp
next
  case (Cons st sts)
  obtain rc s1 where
    p: "set_session_data env st (m_call_id msg) (m_role msg) (m_function msg) x True s = (rc, s1)"
    by fastforce
  note t = set_session_data_trace [OF p]
  have x1: "extends store_effect s s1" using t by (auto simp: extends_def)
  let ?s' = "set_all_stores env msg x sts s1"
  obtain rcs where ih: "extends store_effect s1 ?s'" "pending ?s' = pending s1"
    "length rcs = length sts"
    "effects_of s1 ?s' = map2 (\<lambda>st rc. StoreSet st (create_key (m_call_id msg) (m_role msg) (m_function msg))
                       (serialize_session env x) 0 (2 * s_session_refresh_time x) rc) sts rcs"
    using Cons.IH [of s1] by blast
  have "effects_of s ?s' = effects_of s s1 @ effects_of s1 ?s'" using x1 ih(1) by (rule effects_of_trans)
  then show ?case
    using p t ih extends_trans [OF x1 ih(1)] effects_of_append [OF t(1)]
    by (auto intro!: exI [of _ "rc # rcs"])
qed

lemma delete_all_stores_effects:
  "extends store_effect s (delete_all_stores env msg sts s) \<and>
   pending (delete_all_stores env msg sts s) = pending s \<and>
   (\<exists>rcs. length rcs = length sts \<and>
     effects_of s (delete_all_stores env msg sts s) =
       map2 (\<lambda>st rc. StoreDelete st (create_key (m_call_id msg) (m_role msg) (m_function msg)) rc) sts rcs)"
proof (induction sts arbitrary: s)
  case Nil
  then show ?case by simp
next
  case (Cons st sts)
  obtain rc s1 where
    p: "delete_session_data env st (m_call_id msg) (m_role msg) (m_function msg) s = (rc, s1)"
    by fastforce
  note t = delete_session_data_trace [OF p]
  have x1: "extends store_effect s s1" using t by (auto simp: extends_def)
  let ?s' = "delete_all_stores env msg sts s1"
  obtain rcs where ih: "extends store_effect s1 ?s'" "pending ?s' = pending s1"
    "length rcs = length sts"
    "effects_of s1 ?s' =
       map2 (\<lambda>st rc. StoreDelete st (create_key (m_call_id msg) (m_role msg) (m_function msg)) rc) sts rcs"
    using Cons.IH [of s1] by blast
  have "effects_of s ?s' = effects_of s s1 @ effects_of s1 ?s'" using x1 ih(1) by (rule effects_of_trans)
  then show ?case
    using p t ih extends_trans [OF x1 ih(1)] effects_of_append [OF t(1)]
    by (auto intro!: exI [of _ "rc # rcs"])
qed

lemma update_timer_id_loop_effects:
  "update_timer_id_loop env sts i msg s = (msg', s') \<Longrightarrow>
     extends store_effect s s' \<and> pending s' = pending s"
proof (induction sts arbitrary: msg s)
  case Nil
  then show ?case by simp
next
  case (Cons st sts)
  obtain found s1 where
    g: "get_session_data env st (m_call_id msg) (m_role msg) (m_function msg) (m_trail msg) s = (found, s1)"
    by fastforce
  note eg = get_session_data_effects(1,2) [OF g]
  show ?case
  proof (cases found)
    case None
    with Cons g eg show ?thesis by (fastforce intro: extends_trans)
  next
    case (Some x)
    obtain rc s2 where
      p: "set_session_data env st (m_call_id msg) (m_role msg) (m_function msg)
            (x\<lparr>s_timer_id := i\<rparr>) False s1 = (rc, s2)"
      by fastforce
    have "extends store_effect s1 s2" "pending s2 = pending s1"
      using set_op.op_extends set_op.op_pending p by blast+
    moreover have "update_timer_id_loop env sts i (msg\<lparr>m_timer_id := i\<rparr>) s2 = (msg', s')"
      using Cons.prems g Some p by simp
    ultimately show ?thesis using Cons.IH eg by (metis extends_trans)
  qed
qed

section \<open>Timers\<close>

text \<open>Effects of the response handling: stores, timers, SAS, the health check.\<close>

fun response_effect :: "effect \<Rightarrow> bool" where
  "response_effect (TimerPost _ _ _ _ _ _ _) = True"
| "response_effect (TimerPut _ _ _ _ _ _ _) = True"
| "response_effect e = store_effect e"

lemma store_response_effect: "store_effect e \<Longrightarrow> response_effect e"
  by (cases e) simp_all

lemma response_effect_kinds [effect_simps]:
  "response_effect e \<Longrightarrow> \<not> is_acr e" "response_effect e \<Longrightarrow> \<not> is_reply e"
  "\<not> response_effect MessageDeleted" "response_effect e \<Longrightarrow> \<not> parse_effect e"
  "\<not> response_effect HealthCheckPassed" "\<not> response_effect (TimerDelete i)"
  by (cases e; simp)+

lemma extends_response: "extends store_effect s s' \<Longrightarrow> extends response_effect s s'"
  by (rule extends_mono [OF _ store_response_effect])

lemma timer_post_trace:
  assumes "timer_post env i n r u q s = ((status, i'), s')"
  shows "trace s' = trace s @ [TimerPost n r u q timer_tags status i'] \<and> pending s' = pending s"
  using assms by (auto simp: timer_post_def Let_def split: prod.splits)

lemma timer_put_trace:
  assumes "timer_put env i n r u q s = (i', s')"
  shows "trace s' = trace s @ [TimerPut i n r u q timer_tags i'] \<and> pending s' = pending s"
  using assms by (auto simp: timer_put_def Let_def split: prod.splits)

text \<open>The one Chronos request of \<open>send_chronos_update\<close>: a POST without a timer, a PUT with one.\<close>

lemma send_chronos_update_trace:
  assumes "send_chronos_update env i n r u q s = (i', s')"
  shows "\<exists>call. trace s' = trace s @ [call] \<and> pending s' = pending s \<and>
    call = (if i = NO_TIMER then TimerPost n r u q timer_tags
              (fst (fst (send_post env i n r u q timer_tags (world s)))) i'
            else TimerPut i n r u q timer_tags i')"
  using assms
  by (auto simp: send_chronos_update_def timer_post_def timer_put_def Let_def split: if_splits prod.splits)

lemma renew_timer_effects:
  "extends response_effect s (renew_timer env sm n msg log s)"
  "pending (renew_timer env sm n msg log s) = pending s"
proof -
  obtain i s1 where c: "send_chronos_update env (m_timer_id msg) n (m_session_refresh_time msg)
      (callback_uri env msg) (create_opaque_data env msg) s = (i, s1)" by fastforce
  let ?s2 = "if log then emit (SasEvent (m_trail msg) INTERIM_TIMER_RENEWED [n] []) s1 else s1"
  have 2: "extends response_effect s ?s2" "pending ?s2 = pending s"
    using send_chronos_update_trace [OF c] by (auto simp: extends_def)
  obtain msg' s3 where u: "update_timer_id env sm msg i ?s2 = (msg', s3)" by fastforce
  note e = update_timer_id_loop_effects [OF u [unfolded update_timer_id_def]]
  have "renew_timer env sm n msg log s = (if i \<noteq> m_timer_id msg then s3 else ?s2)"
    using c u by (simp add: renew_timer_def)
  then show "extends response_effect s (renew_timer env sm n msg log s)"
    "pending (renew_timer env sm n msg log s) = pending s"
    using 2 e extends_trans [OF 2(1) extends_response] by auto
qed

lemma start_timer_effects:
  assumes "start_timer env n msg s = (i, s')"
  shows "pending s' = pending s"
    and "if m_session_refresh_time msg > n
         then \<exists>status. effects_of s s' = TimerPost n (m_session_refresh_time msg) (callback_uri env msg)
                  (create_opaque_data env msg) timer_tags status i #
                (if status = HTTP_OK then [SasEvent (m_trail msg) INTERIM_TIMER_CREATED [n] []] else [])
         else effects_of s s' = [] \<and> i = NO_TIMER"
    and "extends response_effect s s'"
proof -
  obtain status j s1 where t: "timer_post env NO_TIMER n (m_session_refresh_time msg)
      (callback_uri env msg) (create_opaque_data env msg) s = ((status, j), s1)"
    by (metis prod.exhaust)
  note tr = timer_post_trace [OF t]
  show "pending s' = pending s" "extends response_effect s s'"
    using assms t tr by (auto simp: start_timer_def extends_def split: if_splits)
  show "if m_session_refresh_time msg > n
         then \<exists>status. effects_of s s' = TimerPost n (m_session_refresh_time msg) (callback_uri env msg)
                  (create_opaque_data env msg) timer_tags status i #
                (if status = HTTP_OK then [SasEvent (m_trail msg) INTERIM_TIMER_CREATED [n] []] else [])
         else effects_of s s' = [] \<and> i = NO_TIMER"
    using assms t tr by (auto simp: start_timer_def effects_of_def split: if_splits)
qed

section \<open>on_ccf_response\<close>

lemma sas_log_ccf_response_simps [simp]:
  "world (sas_log_ccf_response accepted session_id msg s) = world s"
  "pending (sas_log_ccf_response accepted session_id msg s) = pending s"
  by (simp_all add: sas_log_ccf_response_def Let_def)

definition sas_outcome :: "bool \<Rightarrow> message \<Rightarrow> sas_event_id option" where
  "sas_outcome accepted msg =
     (if isStart (m_record_type msg) then Some (if accepted then NEW_RF_SESSION_OK else NEW_RF_SESSION_ERR)
      else if isInterim (m_record_type msg)
      then Some (if accepted then CONTINUED_RF_SESSION_OK else CONTINUED_RF_SESSION_ERR)
      else if isStop (m_record_type msg) then Some (if accepted then END_RF_SESSION_OK else END_RF_SESSION_ERR)
      else None)"

definition sas_outcome_events :: "bool \<Rightarrow> string \<Rightarrow> message \<Rightarrow> effect list" where
  "sas_outcome_events accepted session_id msg =
     (case sas_outcome accepted msg of
        None \<Rightarrow> []
      | Some event_id \<Rightarrow> [SasEvent (m_trail msg) event_id
          [u32_of_int (m_role msg), u32_of_int (m_function msg)] [session_id]])"

lemma sas_log_trace:
  "trace (sas_log_ccf_response accepted session_id msg s) =
     trace s @ sas_outcome_events accepted session_id msg"
  by (simp add: sas_log_ccf_response_def sas_outcome_events_def sas_outcome_def Let_def)

lemma sas_outcome_kinds [simp]:
  "list_all store_effect (sas_outcome_events accepted session_id msg)"
  "filter is_timer (sas_outcome_events accepted session_id msg) = []"
  "filter is_store_write (sas_outcome_events accepted session_id msg) = []"
  by (simp_all add: sas_outcome_events_def split: option.split)

lemma sas_log_extends [intro]: "extends response_effect s (sas_log_ccf_response accepted session_id msg s)"
  using extends_response [of s "sas_log_ccf_response accepted session_id msg s"]
  by (simp add: extends_def sas_log_trace)

lemma record_start_effects:
  "extends response_effect s (record_start env sm n session_id msg s)"
  "pending (record_start env sm n session_id msg s) = pending s"
proof -
  obtain i s1 where t: "start_timer env n msg s = (i, s1)" by fastforce
  note e = start_timer_effects [OF t]
  have a: "extends store_effect s1 (record_start env sm n session_id msg s)"
    "pending (record_start env sm n session_id msg s) = pending s1"
    unfolding record_start_def t Let_def prod.case using set_all_stores_effects by blast+
  then show "extends response_effect s (record_start env sm n session_id msg s)"
    "pending (record_start env sm n session_id msg s) = pending s"
    using e(1,3) by (auto intro: extends_trans extends_response)
qed

text \<open>What is done between the SAS event and the health check, branch by branch.\<close>

definition response_work ::
  "'w env \<Rightarrow> session_manager \<Rightarrow> bool \<Rightarrow> u32 \<Rightarrow> string \<Rightarrow> int \<Rightarrow> message \<Rightarrow> 'w io \<Rightarrow> 'w io" where
  "response_work env sm accepted n session_id rc msg s1 =
     (if isInterim (m_record_type msg) then
        (if \<not> accepted \<and> rc = 5002 then delete_all_stores env msg (local_store sm # remote_stores sm) s1
         else if \<not> m_timer_interim msg \<and> m_session_refresh_time msg > n
         then renew_timer env sm n msg accepted s1
         else s1)
      else if isStart (m_record_type msg) \<and> accepted then record_start env sm n session_id msg s1
      else s1)"

lemma on_ccf_response_work:
  "on_ccf_response env sm accepted n session_id rc msg s =
     emit MessageDeleted ((if accepted then emit HealthCheckPassed else id)
       (response_work env sm accepted (effective_interval n msg) session_id rc msg
          (sas_log_ccf_response accepted session_id msg s)))"
  using record_type_exclusive(1)
  by (simp add: on_ccf_response_def response_work_def Let_def del: delete_all_stores.simps)

lemma response_work_effects:
  "extends response_effect s (response_work env sm accepted n session_id rc msg s)"
  "pending (response_work env sm accepted n session_id rc msg s) = pending s"
  using renew_timer_effects [where s = s] record_start_effects [where s = s]
    extends_response [of s "delete_all_stores env msg (local_store sm # remote_stores sm) s"]
    delete_all_stores_effects [where s = s]
  by (auto simp: response_work_def simp del: delete_all_stores.simps)

lemma on_ccf_response_shape:
  "\<exists>es. trace (on_ccf_response env sm accepted n session_id rc msg s) =
      trace s @ es @ (if accepted then [HealthCheckPassed] else []) @ [MessageDeleted] \<and>
    list_all response_effect es \<and>
    pending (on_ccf_response env sm accepted n session_id rc msg s) = pending s"
proof -
  let ?s1 = "sas_log_ccf_response accepted session_id msg s"
  have "extends response_effect s
      (response_work env sm accepted (effective_interval n msg) session_id rc msg ?s1)"
    using response_work_effects(1) by (blast intro: extends_trans)
  then show ?thesis
    by (auto simp: on_ccf_response_work response_work_effects(2) extends_def)
qed

lemma on_ccf_response_pending [simp]:
  "pending (on_ccf_response env sm accepted n session_id rc msg s) = pending s"
  using on_ccf_response_shape [of env sm accepted n session_id rc msg s] by blast

end
