(* ===== verification/Response_Refinement.thy ===== *)
theory Response_Refinement
  imports Manager_Refinement Response_Lemmas
begin

text \<open>
  What the answer of a CCF does to the stores, against the same ledger specification: an accepted
  START creates the session in every store that lacks it, an INTERIM rejected with 5002 removes it
  everywhere. Then the life of a session: START followed by INTERIMs numbers its records
  consecutively.
\<close>

section \<open>The two loops over all stores\<close>

text \<open>No session means no entry: neither an unreadable record nor a deletion in progress.\<close>

definition store_clean :: "'w register \<Rightarrow> store_id \<Rightarrow> 'w io \<Rightarrow> string \<Rightarrow> bool" where
  "store_clean e st s key \<longleftrightarrow> (session_at e st s key = None \<longrightarrow> entry_absent e st s key)"

lemma set_new_register:
  assumes ok: "register_ok e" and "durable x" "store_clean e st s (msg_key msg)"
    and p: "set_session_data (fst e) st (m_call_id msg) (m_role msg) (m_function msg) x True s = (rc, s')"
  shows "ledger_of e s' (msg_key msg) = spec_start [st] x (ledger_of e s (msg_key msg))"
    and "st' \<noteq> st \<Longrightarrow> store_clean e st' s' (msg_key msg) = store_clean e st' s (msg_key msg)"
    and "session_at e st s' (msg_key msg) \<noteq> None"
proof -
  have fr: "session_at e a s' = session_at e a s \<and> entry_absent e a s' = entry_absent e a s"
    if "a \<noteq> st" for a
    using register_frames(1) [OF ok that p] session_at_world_cong [of e a s' s] by blast
  then show "st' \<noteq> st \<Longrightarrow> store_clean e st' s' (msg_key msg) = store_clean e st' s (msg_key msg)"
    by (simp add: store_clean_def)
  have here: "session_at e st s' (msg_key msg) \<noteq> None \<and>
      map_option stored_view (session_at e st s' (msg_key msg)) =
      (case session_at e st s (msg_key msg) of None \<Rightarrow> Some (stored_view x) | Some y \<Rightarrow> Some (stored_view y))"
  proof (cases "session_at e st s (msg_key msg)")
    case None
    with assms(3) have "if True then entry_absent e st s (msg_key msg)
        else \<exists>y. session_at e st s (msg_key msg) = Some y \<and> s_cas y = s_cas x"
      by (simp add: store_clean_def)
    from register_put_commits [OF ok p assms(2), unfolded msg_key_simps, OF this] None show ?thesis
      by auto
  next
    case (Some y)
    with register_put_contends [OF ok p, unfolded msg_key_simps, OF Some] show ?thesis by simp
  qed
  then show "session_at e st s' (msg_key msg) \<noteq> None" by blast
  show "ledger_of e s' (msg_key msg) = spec_start [st] x (ledger_of e s (msg_key msg))"
  proof
    fix a
    show "ledger_of e s' (msg_key msg) a = spec_start [st] x (ledger_of e s (msg_key msg)) a"
      using here fr [of a] by (cases "a = st") (auto simp: ledger_of_def spec_start_def split: option.splits)
  qed
qed

lemma spec_start_Cons: "spec_start sts x (spec_start [st] x l) = spec_start (st # sts) x l"
  by (auto simp: spec_start_def fun_eq_iff)

lemma set_all_stores_register:
  assumes ok: "register_ok e" and "durable x"
  shows "(\<And>st. st \<in> set sts \<Longrightarrow> store_clean e st s (msg_key msg)) \<Longrightarrow>
    ledger_of e (set_all_stores (fst e) msg x sts s) (msg_key msg) =
      spec_start sts x (ledger_of e s (msg_key msg))"
proof (induction sts arbitrary: s)
  case Nil
  then show ?case by (simp add: spec_start_def)
next
  case (Cons st sts)
  obtain rc s1 where
    p: "set_session_data (fst e) st (m_call_id msg) (m_role msg) (m_function msg) x True s = (rc, s1)"
    by fastforce
  note l = set_new_register [OF ok \<open>durable x\<close> _ p]
  have "store_clean e a s1 (msg_key msg)" if "a \<in> set sts" for a
    using that Cons.prems l(2,3) by (cases "a = st") (auto simp: store_clean_def)
  from Cons.IH [OF this] p l(1) Cons.prems show ?case by (simp add: spec_start_Cons)
qed

lemma spec_stop_Cons: "spec_stop sts (spec_stop [st] l) = spec_stop (st # sts) l"
  by (auto simp: spec_stop_def fun_eq_iff)

lemma delete_all_stores_register:
  assumes ok: "register_ok e"
  shows "ledger_of e (delete_all_stores (fst e) msg sts s) (msg_key msg) =
    spec_stop sts (ledger_of e s (msg_key msg))"
proof (induction sts arbitrary: s)
  case Nil
  then show ?case by (simp add: spec_stop_def)
next
  case (Cons st sts)
  obtain rc s1 where
    d: "delete_session_data (fst e) st (m_call_id msg) (m_role msg) (m_function msg) s = (rc, s1)"
    by fastforce
  have "session_at e a s1 = session_at e a s" if "a \<noteq> st" for a
    using register_frames(3) [OF ok that d] session_at_world_cong [of e a s1 s] by blast
  with register_del [OF ok d, unfolded msg_key_simps]
  have "ledger_of e s1 (msg_key msg) = spec_stop [st] (ledger_of e s (msg_key msg))"
    by (auto simp: ledger_of_def spec_stop_def fun_eq_iff)
  with Cons.IH [of s1] d show ?case by (simp add: spec_stop_Cons)
qed

section \<open>on_ccf_response refines the specification\<close>

lemma start_timer_world:
  assumes "timers_separate e" "start_timer (fst e) n msg s = (i, s')"
  shows "snd e st (world s') = snd e st (world s)"
  using assms(2) timers_separateD(1) [OF assms(1)]
  by (auto simp: start_timer_def timer_post_def Let_def split: if_splits prod.splits) (metis snd_conv)+

lemma store_clean_cong:
  "snd e st (world s') = snd e st (world s) \<Longrightarrow> store_clean e st s' key = store_clean e st s key"
  using session_at_world_cong [of e st s' s] by (simp add: store_clean_def)

lemma ledger_of_view_cong:
  "(\<And>st. snd e st (world s') = snd e st (world s)) \<Longrightarrow> ledger_of e s' key = ledger_of e s key"
  using session_at_world_cong [of e _ s' s] by (simp add: ledger_of_def)

lemma start_accepted_refines:
  assumes ok: "register_ok e" "timers_separate e" and kind: "isStart (m_record_type msg)"
    and dur: "2 * m_session_refresh_time msg \<noteq> 0"
    and clean: "\<And>st. st \<in> set (all_stores sm) \<Longrightarrow> store_clean e st s (msg_key msg)"
    and timer: "start_timer (fst e) (effective_interval n msg) msg (sas_log_ccf_response True sid msg s)
        = (i, s1)"
  shows "ledger_of e (on_ccf_response (fst e) sm True n sid rc msg s) (msg_key msg) =
    spec_start (all_stores sm) (started_session (effective_interval n msg) sid i msg)
      (ledger_of e s (msg_key msg))"
proof -
  let ?x = "started_session (effective_interval n msg) sid i msg"
  have w: "snd e st (world s1) = snd e st (world s)" for st
    using start_timer_world [OF ok(2) timer] by simp
  have "durable ?x" using dur by (simp add: durable_def started_session_def)
  moreover have "store_clean e st s1 (msg_key msg)" if "st \<in> set (all_stores sm)" for st
    using clean [OF that] store_clean_cong [OF w] by simp
  ultimately have "ledger_of e (set_all_stores (fst e) msg ?x (all_stores sm) s1) (msg_key msg) =
      spec_start (all_stores sm) ?x (ledger_of e s (msg_key msg))"
    using set_all_stores_register [OF ok(1), of ?x "all_stores sm" s1 msg] ledger_of_view_cong [OF w]
    by simp
  moreover have "world (on_ccf_response (fst e) sm True n sid rc msg s) =
      world (set_all_stores (fst e) msg ?x (all_stores sm) s1)"
    using kind timer record_type_exclusive(7) [OF kind]
    by (simp add: on_ccf_response_def record_start_def del: set_all_stores.simps)
  ultimately show ?thesis using same_world_ledger_of by metis
qed

lemma unknown_session_refines:
  assumes ok: "register_ok e" and kind: "isInterim (m_record_type msg)"
  shows "ledger_of e (on_ccf_response (fst e) sm False n sid 5002 msg s) (msg_key msg) =
    spec_stop (all_stores sm) (ledger_of e s (msg_key msg))"
proof -
  let ?s1 = "sas_log_ccf_response False sid msg s"
  have "world (on_ccf_response (fst e) sm False n sid 5002 msg s) =
      world (delete_all_stores (fst e) msg (all_stores sm) ?s1)"
    using kind by (simp add: on_ccf_response_def del: delete_all_stores.simps)
  then show ?thesis
    using delete_all_stores_register [OF ok, of msg "all_stores sm" ?s1]
      same_world_ledger_of [of ?s1 s e] same_world_ledger_of by (metis sas_log_ccf_response_simps(1))
qed

section \<open>The life of a session\<close>

text \<open>Every store has a copy of the session, with record number \<open>n\<close>, that INTERIMs can use.\<close>

definition recorded :: "store_id list \<Rightarrow> ledger \<Rightarrow> u32 \<Rightarrow> bool" where
  "recorded stores l n \<longleftrightarrow>
     (\<forall>st \<in> set stores. \<exists>y. l st = Some y \<and> durable y \<and> s_ccf y \<noteq> [] \<and> s_acct_record_number y = n)"

lemma stored_view_fields [simp]:
  "durable (stored_view x) = durable x" "s_ccf (stored_view x) = [] \<longleftrightarrow> s_ccf x = []"
  "s_acct_record_number (stored_view x) = s_acct_record_number x"
  by (simp_all add: stored_view_def durable_def)

lemma recorded_session:
  assumes "recorded stores (ledger_of e s key) n" "st \<in> set stores"
  obtains x where "session_at e st s key = Some x" "durable x" "s_ccf x \<noteq> []"
    "s_acct_record_number x = n"
  using assms that by (fastforce simp: recorded_def ledger_of_def)

lemma recorded_spec_interim:
  assumes "recorded stores l n" "first_copy l stores \<noteq> None"
  shows "recorded stores (spec_interim stores l) (n + 1)"
  using assms by (fastforce simp: recorded_def spec_interim_first)

lemma recorded_spec_start:
  assumes "durable x" "s_ccf x \<noteq> []" "\<And>st. st \<in> set stores \<Longrightarrow> l st = None"
  shows "recorded stores (spec_start stores x l) (s_acct_record_number x)"
  using assms by (simp add: recorded_def spec_start_def)

definition record_numbers :: "ralf_transaction list \<Rightarrow> u32 list" where
  "record_numbers ts = map (\<lambda>t. m_accounting_record_number (tsx_msg t)) ts"

lemma handle_interim_recorded:
  assumes ok: "register_ok e" and kind: "isInterim (m_record_type msg)" "has_event msg"
    and dist: "distinct (all_stores sm)"
    and rec: "recorded (all_stores sm) (ledger_of e s (msg_key msg)) n"
  obtains s' t where "handle (fst e) sm msg s = Some (Inr s')"
    "recorded (all_stores sm) (ledger_of e s' (msg_key msg)) (n + 1)"
    "pending s' = pending s @ [t]" "m_accounting_record_number (tsx_msg t) = n + 1"
proof -
  obtain x where x: "session_at e (local_store sm) s (msg_key msg) = Some x" "s_ccf x \<noteq> []"
    "s_acct_record_number x = n"
    using rec by (rule recorded_session) auto
  have "store_ready e st s (msg_key msg)" if "st \<in> set (all_stores sm)" for st
    using rec that by (rule recorded_session) (simp add: store_ready_def)
  with handle_interim_refines [OF ok kind dist, of s x] x obtain s' where
    s': "handle (fst e) sm msg s = Some (Inr s')"
    "ledger_of e s' (msg_key msg) = spec_interim (all_stores sm) (ledger_of e s (msg_key msg))"
    "pending s' = pending s @
      [new_RalfTransaction (first_sender sm (fill_from_session msg (bump_session x)))
         (fill_from_session msg (bump_session x))]"
    by auto
  have "recorded (all_stores sm) (ledger_of e s' (msg_key msg)) (n + 1)"
    unfolding s'(2) using x(1) by (intro recorded_spec_interim rec) (simp add: ledger_of_def)
  with that s'(1,3) x(3) show ?thesis by (simp add: new_RalfTransaction_def)
qed

text \<open>Requests handled one after the other by the same process.\<close>

fun handle_all :: "'w env \<Rightarrow> session_manager \<Rightarrow> message list \<Rightarrow> 'w io \<Rightarrow> (crash + 'w io) option" where
  "handle_all env sm [] s = Some (Inr s)"
| "handle_all env sm (msg # msgs) s =
     (case handle env sm msg s of
        Some (Inr s') \<Rightarrow> handle_all env sm msgs s'
      | r \<Rightarrow> r)"

lemma handle_all_numbers:
  assumes ok: "register_ok e" and dist: "distinct (all_stores sm)"
  shows "recorded (all_stores sm) (ledger_of e s key) n \<Longrightarrow>
    (\<And>msg. msg \<in> set msgs \<Longrightarrow> isInterim (m_record_type msg) \<and> has_event msg \<and> msg_key msg = key) \<Longrightarrow>
    \<exists>s' ts. handle_all (fst e) sm msgs s = Some (Inr s') \<and> pending s' = pending s @ ts \<and>
      record_numbers ts = map (\<lambda>i. n + of_nat (Suc i)) [0..<length msgs] \<and>
      recorded (all_stores sm) (ledger_of e s' key) (n + of_nat (length msgs))"
proof (induction msgs arbitrary: s n)
  case Nil
  then show ?case by (simp add: record_numbers_def)
next
  case (Cons msg msgs)
  have m: "isInterim (m_record_type msg)" "has_event msg" "msg_key msg = key"
    using Cons.prems(2) [of msg] by simp_all
  obtain s1 t where s1: "handle (fst e) sm msg s = Some (Inr s1)"
    "recorded (all_stores sm) (ledger_of e s1 key) (n + 1)"
    "pending s1 = pending s @ [t]" "m_accounting_record_number (tsx_msg t) = n + 1"
    using handle_interim_recorded [OF ok m(1,2) dist, of s n] Cons.prems(1) m(3) by metis
  from Cons.IH [OF s1(2)] Cons.prems(2) obtain s' ts where
    s': "handle_all (fst e) sm msgs s1 = Some (Inr s')" "pending s' = pending s1 @ ts"
    "record_numbers ts = map (\<lambda>i. n + 1 + of_nat (Suc i)) [0..<length msgs]"
    "recorded (all_stores sm) (ledger_of e s' key) (n + 1 + of_nat (length msgs))"
    by auto
  have "record_numbers (t # ts) = map (\<lambda>i. n + of_nat (Suc i)) [0..<length (msg # msgs)]"
    using s'(3) s1(4) by (simp add: record_numbers_def map_upt_Suc ac_simps del: upt_Suc)
  then show ?case
    using s1 s' by (intro exI [of _ s'] exI [of _ "t # ts"]) (simp add: add_ac)
qed

section \<open>A changed timer identifier\<close>

definition spec_retime :: "store_id list \<Rightarrow> string \<Rightarrow> ledger \<Rightarrow> ledger" where
  "spec_retime stores i l =
     (\<lambda>st. if st \<in> set stores then map_option (\<lambda>x. x\<lparr>s_timer_id := c_str i\<rparr>) (l st) else l st)"

lemma spec_retime_Cons:
  "spec_retime sts i (spec_retime [st] i l) = spec_retime (st # sts) i l"
proof
  show "spec_retime sts i (spec_retime [st] i l) a = spec_retime (st # sts) i l a" for a
    by (cases "l a") (auto simp: spec_retime_def)
qed

lemma stored_view_retime:
  "stored_view (x\<lparr>s_timer_id := i\<rparr>) = (stored_view x)\<lparr>s_timer_id := c_str i\<rparr>"
  by (simp add: stored_view_def)

definition all_durable :: "'w register \<Rightarrow> 'w io \<Rightarrow> string \<Rightarrow> bool" where
  "all_durable e s key \<longleftrightarrow> (\<forall>st x. session_at e st s key = Some x \<longrightarrow> durable x)"

lemma msg_key_timer_id [simp]: "msg_key (msg\<lparr>m_timer_id := i\<rparr>) = msg_key msg"
  unfolding msg_key_def by simp

lemma set_retime_register:
  assumes ok: "register_ok e" and dur: "all_durable e s (msg_key msg)"
    and x: "session_at e st s (msg_key msg) = Some x"
    and p: "set_session_data (fst e) st (m_call_id msg) (m_role msg) (m_function msg)
              (x\<lparr>s_timer_id := i\<rparr>) False s = (rc, s')"
  shows "ledger_of e s' (msg_key msg) = spec_retime [st] i (ledger_of e s (msg_key msg))"
    and "all_durable e s' (msg_key msg)"
proof -
  have "durable (x\<lparr>s_timer_id := i\<rparr>)" using dur x by (simp add: all_durable_def durable_def)
  moreover have "if False then entry_absent e st s (msg_key msg)
      else \<exists>y. session_at e st s (msg_key msg) = Some y \<and> s_cas y = s_cas (x\<lparr>s_timer_id := i\<rparr>)"
    using x by simp
  ultimately obtain c where here: "session_at e st s' =
      (session_at e st s)(msg_key msg \<mapsto> (stored_view (x\<lparr>s_timer_id := i\<rparr>))\<lparr>s_cas := c\<rparr>)"
    using register_put_commits [OF ok p] unfolding msg_key_simps by blast
  have fr: "session_at e a s' = session_at e a s" if "a \<noteq> st" for a
    using register_frames(1) [OF ok that p] session_at_world_cong [of e a s' s] by blast
  show "ledger_of e s' (msg_key msg) = spec_retime [st] i (ledger_of e s (msg_key msg))"
  proof
    fix a
    show "ledger_of e s' (msg_key msg) a = spec_retime [st] i (ledger_of e s (msg_key msg)) a"
      using here fr [of a] x
      by (cases "a = st") (simp_all add: ledger_of_def spec_retime_def stored_view_retime)
  qed
  show "all_durable e s' (msg_key msg)"
    unfolding all_durable_def
  proof (intro allI impI)
    fix a y assume "session_at e a s' (msg_key msg) = Some y"
    then show "durable y"
      using here fr [of a] dur x
      by (cases "a = st") (auto simp: all_durable_def durable_def stored_view_def)
  qed
qed

lemma update_timer_id_loop_register:
  assumes ok: "register_ok e"
  shows "all_durable e s (msg_key msg) \<Longrightarrow>
    ledger_of e (snd (update_timer_id_loop (fst e) sts i msg s)) (msg_key msg) =
      spec_retime sts i (ledger_of e s (msg_key msg))"
proof (induction sts arbitrary: s msg)
  case Nil
  then show ?case by (simp add: spec_retime_def)
next
  case (Cons st sts)
  obtain found s1 where
    g: "get_session_data (fst e) st (m_call_id msg) (m_role msg) (m_function msg) (m_trail msg) s = (found, s1)"
    by fastforce
  note l = get_session_data_register [OF ok g]
  have dur: "all_durable e s1 (msg_key msg)"
    using Cons.prems l(2) by (simp add: all_durable_def same_storesD(1))
  have same: "ledger_of e s1 (msg_key msg) = ledger_of e s (msg_key msg)"
    using l(2) by (rule same_stores_ledger)
  show ?case
  proof (cases found)
    case None
    then have "spec_retime [st] i (ledger_of e s (msg_key msg)) = ledger_of e s (msg_key msg)"
      using l(1) by (auto simp: spec_retime_def ledger_of_def fun_eq_iff)
    then show ?thesis
      using Cons.IH [OF dur] g None same spec_retime_Cons [of sts i st "ledger_of e s (msg_key msg)"]
      by simp
  next
    case (Some x)
    with l have x: "session_at e st s1 (msg_key msg) = Some x" by (simp add: same_storesD(1))
    obtain rc s2 where
      p: "set_session_data (fst e) st (m_call_id msg) (m_role msg) (m_function msg)
            (x\<lparr>s_timer_id := i\<rparr>) False s1 = (rc, s2)"
      by fastforce
    note r = set_retime_register [OF ok dur x p]
    have "update_timer_id_loop (fst e) (st # sts) i msg s =
        update_timer_id_loop (fst e) sts i (msg\<lparr>m_timer_id := i\<rparr>) s2"
      using g Some p by simp
    then show ?thesis
      using Cons.IH [of s2 "msg\<lparr>m_timer_id := i\<rparr>"] r same
        spec_retime_Cons [of sts i st "ledger_of e s (msg_key msg)"] by simp
  qed
qed

lemma send_chronos_update_world:
  assumes "timers_separate e" "send_chronos_update (fst e) i n r u q s = (i', s')"
  shows "snd e st (world s') = snd e st (world s)"
  using assms(2) timers_separateD(1,2) [OF assms(1)]
  by (auto simp: send_chronos_update_def timer_post_def timer_put_def Let_def
      split: if_splits prod.splits) (metis snd_conv)+

lemma renew_timer_refines:
  assumes ok: "register_ok e" "timers_separate e" and dur: "all_durable e s (msg_key msg)"
    and c: "send_chronos_update (fst e) (m_timer_id msg) n (m_session_refresh_time msg)
        (callback_uri (fst e) msg) (create_opaque_data (fst e) msg) s = (i, s1)"
  shows "ledger_of e (renew_timer (fst e) sm n msg log s) (msg_key msg) =
    (if i \<noteq> m_timer_id msg then spec_retime (all_stores sm) i (ledger_of e s (msg_key msg))
     else ledger_of e s (msg_key msg))"
proof -
  let ?s2 = "if log then emit (SasEvent (m_trail msg) INTERIM_TIMER_RENEWED [n] []) s1 else s1"
  have w: "snd e st (world ?s2) = snd e st (world s)" for st
    using send_chronos_update_world [OF ok(2) c] by simp
  then have "session_at e st ?s2 = session_at e st s" for st
    using session_at_world_cong by blast
  then have "all_durable e ?s2 (msg_key msg)" using dur by (simp add: all_durable_def)
  then have "ledger_of e (snd (update_timer_id (fst e) sm msg i ?s2)) (msg_key msg) =
      spec_retime (all_stores sm) i (ledger_of e s (msg_key msg))"
    unfolding update_timer_id_def using update_timer_id_loop_register [OF ok(1)] ledger_of_view_cong [OF w]
    by metis
  moreover have "renew_timer (fst e) sm n msg log s =
      (if i \<noteq> m_timer_id msg then snd (update_timer_id (fst e) sm msg i ?s2) else ?s2)"
    using c by (simp add: renew_timer_def)
  ultimately show ?thesis using ledger_of_view_cong [OF w] by simp
qed

end
