(* ===== verification/Reference_Environment.thy ===== *)
theory Reference_Environment
  imports Session_Register
begin

text \<open>
  A concrete, executable environment that meets every contract the theorems assume: stores kept
  as maps with compare-and-set, a timer service that accepts every request, a length-prefixed
  text form of JSON documents with its reader, and accessor macros that behave as documented. It
  models no code of Ralf. It shows that the hypotheses of the theorems can hold together, and it
  is the environment the concrete instances of the theorems run in.
\<close>

section \<open>A text form of documents\<close>

definition net_nat :: "nat \<Rightarrow> string" where
  "net_nat n = nat_to_string n @ '':''"

definition net_string :: "string \<Rightarrow> string" where
  "net_string s = net_nat (length s) @ s"

fun ref_write :: "json \<Rightarrow> string" where
  "ref_write JNull = ''n''"
| "ref_write (JBool b) = (if b then ''t'' else ''f'')"
| "ref_write (JInt i) = (if i < 0 then CHR ''m'' # net_nat (nat (- i)) else CHR ''i'' # net_nat (nat i))"
| "ref_write (JDouble d) = CHR ''d'' # net_nat (unat d)"
| "ref_write (JString s) = CHR ''s'' # net_string s"
| "ref_write (JArray xs) = CHR ''a'' # net_nat (length xs) @ concat (map ref_write xs)"
| "ref_write (JObject ms) =
     CHR ''o'' # net_nat (length ms) @ concat (map (\<lambda>m. net_string (fst m) @ ref_write (snd m)) ms)"

definition read_nat :: "string \<Rightarrow> nat \<times> string" where
  "read_nat s = (digits_to_nat (takeWhile is_digit s), drop 1 (dropWhile is_digit s))"

definition read_string :: "string \<Rightarrow> string \<times> string" where
  "read_string s = (let (n, r) = read_nat s in (take n r, drop n r))"

primrec read_many :: "(string \<Rightarrow> ('a \<times> string) option) \<Rightarrow> nat \<Rightarrow> string \<Rightarrow> ('a list \<times> string) option" where
  "read_many f 0 s = Some ([], s)"
| "read_many f (Suc n) s =
     Option.bind (f s) (\<lambda>(x, r). map_option (\<lambda>(xs, r'). (x # xs, r')) (read_many f n r))"

primrec ref_read :: "nat \<Rightarrow> string \<Rightarrow> (json \<times> string) option" where
  "ref_read 0 s = None"
| "ref_read (Suc fuel) s =
     (case s of
        [] \<Rightarrow> None
      | c # r \<Rightarrow>
          if c = CHR ''n'' then Some (JNull, r)
          else if c = CHR ''t'' then Some (JBool True, r)
          else if c = CHR ''f'' then Some (JBool False, r)
          else if c = CHR ''i'' then (let (n, r') = read_nat r in Some (JInt (int n), r'))
          else if c = CHR ''m'' then (let (n, r') = read_nat r in Some (JInt (- int n), r'))
          else if c = CHR ''d'' then (let (n, r') = read_nat r in Some (JDouble (of_nat n), r'))
          else if c = CHR ''s'' then (let (t, r') = read_string r in Some (JString t, r'))
          else if c = CHR ''a'' then
            (let (n, r') = read_nat r
             in map_option (\<lambda>(xs, r''). (JArray xs, r'')) (read_many (ref_read fuel) n r'))
          else if c = CHR ''o'' then
            (let (n, r') = read_nat r
             in map_option (\<lambda>(ms, r''). (JObject ms, r''))
                  (read_many (\<lambda>q. let (k, q') = read_string q
                                  in map_option (\<lambda>(v, q''). ((k, v), q'')) (ref_read fuel q')) n r'))
          else None)"

definition ref_parse :: "string \<Rightarrow> json option" where
  "ref_parse s = (case ref_read (length s) s of Some (j, []) \<Rightarrow> Some j | _ \<Rightarrow> None)"

lemma read_nat_net_nat [simp]: "read_nat (net_nat n @ r) = (n, r)"
proof -
  have d: "\<forall>c \<in> set (nat_to_string n). is_digit c"
    using nat_to_string_digits by blast
  have "\<not> is_digit CHR '':''" by (simp add: is_digit_def)
  then show ?thesis
    using d by (simp add: read_nat_def net_nat_def)
qed

lemma read_string_net_string [simp]: "read_string (net_string s @ r) = (s, r)"
  by (simp add: read_string_def net_string_def)

lemma read_many_concat:
  "(\<And>x r. x \<in> set xs \<Longrightarrow> f (w x @ r) = Some (x, r)) \<Longrightarrow>
     read_many f (length xs) (concat (map w xs) @ r) = Some (xs, r)"
  by (induction xs arbitrary: r) simp_all

lemma length_concat_member: "x \<in> set xs \<Longrightarrow> length (w x) \<le> length (concat (map w xs))"
  by (induction xs) auto

lemma ref_read_write:
  "length (ref_write j) \<le> fuel \<Longrightarrow> ref_read fuel (ref_write j @ r) = Some (j, r)"
proof (induction j arbitrary: fuel r)
  case (JArray xs)
  then obtain f where f: "fuel = Suc f" by (cases fuel) auto
  have "ref_read f (ref_write x @ q) = Some (x, q)" if "x \<in> set xs" for x q
    using JArray f length_concat_member [OF that, of ref_write] that by simp
  then show ?case using f by (simp add: read_many_concat)
next
  case (JObject ms)
  then obtain f where f: "fuel = Suc f" by (cases fuel) auto
  let ?w = "\<lambda>m. net_string (fst m) @ ref_write (snd m)"
  have "ref_read f (ref_write (snd m) @ q) = Some (snd m, q)" if "m \<in> set ms" for m q
    using JObject.prems f length_concat_member [OF that, of ?w]
      JObject.IH [OF that, of "snd m" f q] by (simp add: snds.intros)
  then have "read_many (\<lambda>q. let (k, q') = read_string q
      in map_option (\<lambda>(v, q''). ((k, v), q'')) (ref_read f q')) (length ms) (concat (map ?w ms) @ r)
      = Some (ms, r)"
    by (intro read_many_concat) simp
  then show ?case using f by simp
next
  case (JInt i)
  then obtain f where "fuel = Suc f" by (cases fuel) (auto split: if_splits)
  then show ?case by (simp add: Let_def)
next
  case JNull
  then obtain f where "fuel = Suc f" by (cases fuel) auto
  then show ?case by simp
next
  case (JBool b)
  then obtain f where "fuel = Suc f" by (cases fuel) (auto split: if_splits)
  then show ?case by simp
next
  case (JDouble d)
  then obtain f where "fuel = Suc f" by (cases fuel) auto
  then show ?case by simp
next
  case (JString t)
  then obtain f where "fuel = Suc f" by (cases fuel) auto
  then show ?case by simp
qed

lemma ref_parse_write: "ref_parse (ref_write j) = Some j"
  using ref_read_write [of j "length (ref_write j)" "[]"] by (simp add: ref_parse_def)

lemma ref_write_nonempty [simp]: "ref_write j \<noteq> []"
  by (cases j) auto

lemma nat_to_string_no_nul [simp]: "CHR 0x00 \<notin> set (nat_to_string n)"
  using nat_to_string_digits [of "CHR 0x00"] by auto

lemma ref_write_no_nul: "plain_json j \<Longrightarrow> CHR 0x00 \<notin> set (ref_write j)"
  by (induction j rule: plain_json.induct)
     (auto simp: net_nat_def net_string_def list_all_iff)

section \<open>Stores, timers and the environment\<close>

type_synonym mem_world = "store_id \<Rightarrow> string \<Rightarrow> (string \<times> u64) option"

definition fresh_cas :: "u64 \<Rightarrow> u64" where
  "fresh_cas c = (if c + 1 = 0 then 1 else c + 1)"

text \<open>
  An entry keeps the number its CAS is computed from, so that no entry has the CAS 0.
\<close>

definition mem_view :: "mem_world store_view" where
  "mem_view st w = (\<lambda>k. map_option (\<lambda>e. (fst e, fresh_cas (snd e))) (w st k))"

definition mem_get :: "store_id \<Rightarrow> string \<Rightarrow> string \<Rightarrow> mem_world \<Rightarrow> (store_status \<times> string \<times> u64) \<times> mem_world" where
  "mem_get st table k w =
     (case mem_view st w k of None \<Rightarrow> ((NOT_FOUND, [], 0), w) | Some (d, c) \<Rightarrow> ((OK, d, c), w))"

definition mem_set :: "store_id \<Rightarrow> string \<Rightarrow> string \<Rightarrow> string \<Rightarrow> u64 \<Rightarrow> u32 \<Rightarrow> mem_world \<Rightarrow> store_status \<times>
    mem_world" where
  "mem_set st table k d c e w =
     (if cas_matches (mem_view st w k) c
      then (OK, w(st := (w st)(k := (if e = 0 then None else Some (d, c)))))
      else (DATA_CONTENTION, w))"

definition mem_delete :: "store_id \<Rightarrow> string \<Rightarrow> string \<Rightarrow> mem_world \<Rightarrow> store_status \<times> mem_world" where
  "mem_delete st table k w = (OK, w(st := (w st)(k := None)))"

definition ref_get_string :: "json \<Rightarrow> string \<Rightarrow> string option" where
  "ref_get_string j k = (case FindMember j k of Some (JString s) \<Rightarrow> Some s | _ \<Rightarrow> None)"

definition ref_get_int :: "json \<Rightarrow> string \<Rightarrow> int option" where
  "ref_get_int j k =
     (case FindMember j k of Some (JInt i) \<Rightarrow> (if fits_int32 i then Some i else None) | _ \<Rightarrow> None)"

definition ref_env :: "mem_world env" where
  "ref_env =
     \<lparr>get_data = mem_get, set_data = mem_set, delete_data = mem_delete,
      send_post = (\<lambda>_ _ _ _ _ _ w. ((HTTP_OK, ''timer-1''), w)),
      send_put = (\<lambda>i _ _ _ _ _ w. ((HTTP_OK, i), w)),
      send_delete = (\<lambda>_ w. (HTTP_OK, w)),
      json_parse = ref_parse, json_write = ref_write,
      get_string_member = ref_get_string, get_int_member = ref_get_int,
      assert_contains = HasMember, assert_array = IsArray, assert_string = IsString,
      url_escape = (\<lambda>u. u), avp_ok = (\<lambda>_ _. True), uninit_u32 = 42\<rparr>"

definition empty_io :: "mem_world io" where
  "empty_io = \<lparr>world = (\<lambda>_ _. None), trace = [], pending = []\<rparr>"

lemma ref_env_json: "json_text_ok ref_env" "json_macros_ok ref_env"
  unfolding json_text_ok_def json_macros_ok_def
  by (auto simp: ref_env_def ref_parse_write ref_write_no_nul ref_get_string_def ref_get_int_def
      json_simps split: option.splits json.splits)

lemma fresh_cas_fresh: "fresh_cas c \<noteq> 0" "fresh_cas c \<noteq> c"
  by (auto simp: fresh_cas_def add_eq_0_iff)

lemma ref_cas_get_law: "cas_get_law ref_env mem_view"
  by (auto simp: cas_get_law_def ref_env_def mem_get_def mem_view_def fresh_cas_fresh
      split: option.splits)

lemma mem_view_update:
  "mem_view st (w(st := (w st)(k := v))) =
     (mem_view st w)(k := map_option (\<lambda>e. (fst e, fresh_cas (snd e))) v)"
  "st' \<noteq> st \<Longrightarrow> mem_view st' (w(st := x)) = mem_view st' w"
  by (auto simp: mem_view_def)

lemma ref_cas_set_law: "cas_set_law ref_env mem_view"
proof -
  have "set_data ref_env st ''session'' k d c e w = (status, w') \<Longrightarrow>
      (\<forall>st'. st' \<noteq> st \<longrightarrow> mem_view st' w' = mem_view st' w) \<and>
      (if cas_matches (mem_view st w k) c
       then status = OK \<and>
            ((\<exists>c'. c' \<noteq> 0 \<and> c' \<noteq> c \<and> mem_view st w' = (mem_view st w)(k \<mapsto> (d, c'))) \<or>
             e = 0 \<and> mem_view st w' = (mem_view st w)(k := None))
       else status = DATA_CONTENTION \<and> mem_view st w' = mem_view st w)"
    for st k d c e w status w'
    using fresh_cas_fresh [of c]
    by (cases "e = 0") (auto simp: ref_env_def mem_set_def mem_view_update split: if_splits)
  then show ?thesis unfolding cas_set_law_def by blast
qed

lemma ref_cas_delete_law: "cas_delete_law ref_env mem_view"
  by (auto simp: cas_delete_law_def ref_env_def mem_delete_def mem_view_def fun_eq_iff)

lemma ref_register_ok: "register_ok (ref_env, mem_view)"
  using ref_cas_get_law ref_cas_set_law ref_cas_delete_law ref_env_json
  by (simp add: register_ok_def cas_store_def)

end
