(* ===== verification/Store_Properties.thy ===== *)
theory Store_Properties
  imports Reference_Environment
begin

text \<open>
  What the session store promises: the JSON form loses nothing the protocol needs, a committed
  write is read back, a stale write or deletion is refused, and how far the key scheme tells
  sessions apart. Each theorem with hypotheses is followed by an instance in the reference
  environment.
\<close>

section \<open>A concrete session\<close>

definition sample_session :: session where
  "sample_session = new_Session\<lparr>s_session_id := ''ralf;1;2'', s_ccf := [''ccf1'', ''ccf2''],
     s_acct_record_number := 7, s_timer_id := ''timer-1'', s_session_refresh_time := 300,
     s_interim_interval := 4294967295\<rparr>"

definition sample_store :: "mem_world io" where
  "sample_store = snd (set_session_data ref_env 0 ''call'' 0 0 sample_session True empty_io)"

lemma sample_session_durable: "durable sample_session"
  by (simp add: durable_def sample_session_def new_Session_def)

lemma entry_absent_empty: "entry_absent (ref_env, mem_view) st empty_io key"
  by (simp add: entry_absent_def empty_io_def mem_view_def)

lemma sample_store_contents:
  "\<exists>c. session_at (ref_env, mem_view) 0 sample_store (create_key ''call'' 0 0) =
     Some ((stored_view sample_session)\<lparr>s_cas := c\<rparr>)"
proof -
  obtain rc s' where p: "set_session_data ref_env 0 ''call'' 0 0 sample_session True empty_io = (rc, s')"
    by fastforce
  with register_put_commits [OF ref_register_ok, of 0 "''call''" 0 0 sample_session True empty_io rc s']
  show ?thesis by (auto simp: sample_session_durable entry_absent_empty sample_store_def)
qed

section \<open>The JSON form\<close>

text \<open>
  C19: a session written to a store is read back unchanged, whatever its three 32-bit counters
  hold (they travel as signed integers): the session identifier, the CCF list and the timer
  identifier up to a NUL byte, and all three numbers exactly. Only the ECF list, which is never
  written, and the CAS, which the store supplies, are not in the text.
\<close>

theorem session_roundtrip:
  assumes "json_text_ok env" "json_macros_ok env"
  shows "deserialize_session env (serialize_session env x) =
    Some (x\<lparr>s_session_id := c_str (s_session_id x), s_ccf := map c_str (s_ccf x),
            s_timer_id := c_str (s_timer_id x), s_ecf := [], s_cas := 0\<rparr>)"
  using deserialize_serialize [OF assms] by (simp add: stored_view_def)

theorem session_roundtrip_witness:
  "deserialize_session ref_env (serialize_session ref_env sample_session) = Some sample_session"
  using session_roundtrip [OF ref_env_json, of sample_session]
  by (simp add: sample_session_def new_Session_def c_str_def)

text \<open>The accessor macros on the members of a plain document.\<close>

lemma plain_member:
  "list_all (\<lambda>m. plain_json (snd m)) ms \<Longrightarrow> map_of ms k = Some v \<Longrightarrow> plain_json v"
  by (fastforce simp: list_all_iff dest: map_of_SomeD)

lemma get_string_member_iff:
  assumes "json_macros_ok env" "list_all (\<lambda>m. plain_json (snd m)) ms"
  shows "get_string_member env (JObject ms) k = Some t \<longleftrightarrow> map_of ms k = Some (JString t)"
proof (cases "\<exists>u. map_of ms k = Some (JString u)")
  case True
  then obtain u where u: "map_of ms k = Some (JString u)" by blast
  with plain_member [OF assms(2) u] json_macros(1) [OF assms(1) u] show ?thesis by simp
next
  case False
  with json_macros_reject(1) [OF assms(1), of ms k] show ?thesis by auto
qed

lemma get_int_member_iff:
  assumes "json_macros_ok env" "list_all (\<lambda>m. plain_json (snd m)) ms"
  shows "get_int_member env (JObject ms) k = Some i \<longleftrightarrow> map_of ms k = Some (JInt i)"
proof (cases "\<exists>u. map_of ms k = Some (JInt u)")
  case True
  then obtain u where u: "map_of ms k = Some (JInt u)" by blast
  with plain_member [OF assms(2) u] json_macros(2) [OF assms(1) u] show ?thesis by simp
next
  case False
  with json_macros_reject(2) [OF assms(1), of ms k] show ?thesis by auto
qed

lemma read_ccfs_iff:
  assumes "json_macros_ok env"
  shows "list_all plain_json js \<Longrightarrow> read_ccfs env js = Some cs \<longleftrightarrow> js = map JString cs"
proof (induction js arbitrary: cs)
  case Nil
  then show ?case by auto
next
  case (Cons j js)
  then show ?case
    by (cases cs; cases j)
       (auto simp: json_macros [OF assms] json_simps IsString_def c_str_id)
qed

lemma ccfs_member_iff:
  assumes "json_macros_ok env" "list_all (\<lambda>m. plain_json (snd m)) ms"
  shows "assert_contains env (JObject ms) k \<and> assert_array env (json_at (JObject ms) k) \<and>
      read_ccfs env (GetArray (json_at (JObject ms) k)) = Some cs \<longleftrightarrow>
    map_of ms k = Some (JArray (map JString cs))"
proof (cases "map_of ms k")
  case None
  then show ?thesis by (simp add: json_macros [OF assms(1)])
next
  case (Some v)
  with plain_member [OF assms(2) Some] show ?thesis
    by (cases v) (simp_all add: json_macros [OF assms(1)] json_simps IsArray_def read_ccfs_iff [OF assms(1)])
qed

lemma session_of_doc_Some:
  "session_of_doc env doc = Some x \<longleftrightarrow>
    (\<exists>sid ccfs num tid refresh int.
       get_string_member env doc JSON_SESSION_ID = Some sid \<and>
       (assert_contains env doc JSON_CCFS \<and> assert_array env (json_at doc JSON_CCFS) \<and>
        read_ccfs env (GetArray (json_at doc JSON_CCFS)) = Some ccfs) \<and>
       get_int_member env doc JSON_ACCT_RECORD_NUM = Some num \<and>
       get_string_member env doc JSON_TIMER_ID = Some tid \<and>
       get_int_member env doc JSON_REFRESH_TIME = Some refresh \<and>
       get_int_member env doc JSON_INTERIM_INTERVAL = Some int \<and>
       new_Session\<lparr>s_session_id := sid, s_ccf := ccfs, s_acct_record_number := u32_of_int num,
             s_timer_id := tid, s_session_refresh_time := u32_of_int refresh,
             s_interim_interval := u32_of_int int\<rparr> = x)"
  by (auto simp: session_of_doc_def bind_eq_Some_conv)

text \<open>
  A stored record is accepted exactly when its six members are there with their types, every
  CCF is a string and every number fits in 32 bits; the session is then built from them. Anything
  else is a format error and yields no session.
\<close>

lemma session_of_doc_iff:
  assumes "json_macros_ok env" "list_all (\<lambda>m. plain_json (snd m)) ms"
  shows "session_of_doc env (JObject ms) = Some x \<longleftrightarrow>
    (\<exists>sid ccfs num tid refresh int.
       map_of ms ''session_id'' = Some (JString sid) \<and>
       map_of ms ''ccfs'' = Some (JArray (map JString ccfs)) \<and>
       map_of ms ''acct_record_num'' = Some (JInt num) \<and>
       map_of ms ''timer_id'' = Some (JString tid) \<and>
       map_of ms ''refresh_time'' = Some (JInt refresh) \<and>
       map_of ms ''interim_interval'' = Some (JInt int) \<and>
       x = new_Session\<lparr>s_session_id := sid, s_ccf := ccfs, s_acct_record_number := u32_of_int num,
             s_timer_id := tid, s_session_refresh_time := u32_of_int refresh,
             s_interim_interval := u32_of_int int\<rparr>)"
  unfolding session_of_doc_Some get_string_member_iff [OF assms] get_int_member_iff [OF assms]
    ccfs_member_iff [OF assms] json_names by blast

definition sample_members :: "(string \<times> json) list" where
  "sample_members = [(''session_id'', JString ''id''), (''ccfs'', JArray [JString ''ccf1'']),
     (''acct_record_num'', JInt 2), (''timer_id'', JString ''t''), (''refresh_time'', JInt (-1)),
     (''interim_interval'', JInt 5)]"

section \<open>The register contract\<close>

text \<open>
  Over a store with compare-and-set, a session written with \<open>set_session_data\<close> (created
  where there is no entry, or updated with the CAS that was read) is committed, and the next
  \<open>get_session_data\<close> for the key returns it, with the CAS the store gave it.
\<close>

lemma store_read_own_write:
  assumes "register_ok e"
    and "set_session_data (fst e) st call role func x new s = (OK, s1)" "durable x"
    and "if new then entry_absent e st s (create_key call role func)
         else \<exists>y. session_at e st s (create_key call role func) = Some y \<and> s_cas y = s_cas x"
  shows "\<exists>c s2. get_session_data (fst e) st call role func trail s1 =
    (Some ((stored_view x)\<lparr>s_cas := c\<rparr>), s2)"
proof -
  obtain r s2 where g: "get_session_data (fst e) st call role func trail s1 = (r, s2)" by fastforce
  with reg.read_own_write [where k = "(call, role, func)" and trail = trail, OF assms(1), of st x new s s1 r s2]
    assms show ?thesis by (auto simp: key_string_def)
qed

text \<open>
  C18: two instances that have read the same session both try to update it. The first write is
  committed; the second, which carries the CAS both have read, is refused with
  \<open>DATA_CONTENTION\<close> and changes nothing, so no accounting record number is lost.
\<close>

theorem store_no_lost_update:
  assumes "register_ok e" "session_at e st s (create_key call role func) = Some x"
    and "set_session_data (fst e) st call role func x1 False s = (rc1, s1)" "s_cas x1 = s_cas x" "durable x1"
    and "set_session_data (fst e) st call role func x2 False s1 = (rc2, s2)" "s_cas x2 = s_cas x"
  shows "rc1 = OK \<and> rc2 = DATA_CONTENTION \<and> session_at e st s2 = session_at e st s1"
  by (rule reg.no_lost_update [where k = "(call, role, func)" and x = x and ?x1.0 = x1 and ?x2.0 =
      x2 and s = s])
     (use assms in \<open>simp_all add: key_string_def\<close>)

theorem store_no_lost_update_witness:
  "\<exists>x s1 s2.
     set_session_data ref_env 0 ''call'' 0 0 (x\<lparr>s_acct_record_number := 8\<rparr>) False sample_store = (OK, s1) \<and>
     set_session_data ref_env 0 ''call'' 0 0 (x\<lparr>s_acct_record_number := 9\<rparr>) False s1 = (DATA_CONTENTION, s2)"
proof -
  obtain c where c: "session_at (ref_env, mem_view) 0 sample_store (create_key ''call'' 0 0) =
     Some ((stored_view sample_session)\<lparr>s_cas := c\<rparr>)"
    using sample_store_contents by blast
  let ?x = "(stored_view sample_session)\<lparr>s_cas := c\<rparr>"
  obtain rc1 s1 where a:
    "set_session_data ref_env 0 ''call'' 0 0 (?x\<lparr>s_acct_record_number := 8\<rparr>) False sample_store = (rc1, s1)"
    by fastforce
  obtain rc2 s2 where b:
    "set_session_data ref_env 0 ''call'' 0 0 (?x\<lparr>s_acct_record_number := 9\<rparr>) False s1 = (rc2, s2)"
    by fastforce
  have "durable (?x\<lparr>s_acct_record_number := 8\<rparr>)"
    using sample_session_durable by (simp add: durable_def stored_view_def)
  with store_no_lost_update [OF ref_register_ok c, of _ rc1 s1 _ rc2 s2] a b show ?thesis by fastforce
qed

text \<open>
  The same race between an update and the safe deletion of a STOP: the deletion that lost is
  refused, and the updated session is still there.
\<close>

lemma update_survives_stale_deletion:
  assumes "register_ok e" "session_at e st s (create_key call role func) = Some x"
    and "set_session_data (fst e) st call role func x1 False s = (rc1, s1)" "s_cas x1 = s_cas x" "durable x1"
    and "delete_session_data_cas (fst e) st call role func x2 s1 = (rc2, s2)" "s_cas x2 = s_cas x"
  shows "rc1 = OK \<and> rc2 = DATA_CONTENTION \<and>
    (\<exists>c. session_at e st s2 (create_key call role func) = Some ((stored_view x1)\<lparr>s_cas := c\<rparr>))"
  using reg.no_lost_update_by_deletion
    [where k = "(call, role, func)" and x = x and ?x1.0 = x1 and ?x2.0 = x2 and s = s and e = e and st = st]
    assms by (simp add: key_string_def)

section \<open>Keys and expiry\<close>

lemma to_string_digit: "0 \<le> i \<Longrightarrow> i < 10 \<Longrightarrow> to_string i = [digit_char (nat i)]"
  by (simp add: to_string_def nat_to_string.simps)

lemma digit_char_inj: "0 \<le> i \<Longrightarrow> i < 10 \<Longrightarrow> 0 \<le> j \<Longrightarrow> j < 10 \<Longrightarrow>
    digit_char (nat i) = digit_char (nat j) \<longleftrightarrow> i = j"
  by (metis digit_val_char nat_eq_iff2 nat_less_iff of_nat_numeral)

text \<open>
  Two different sessions of one call (roles are single digits, functions are not negative)
  have different keys, and so have sessions of different calls as long as the node
  functionalities are single digits.
\<close>

lemma create_key_injective:
  assumes "0 \<le> role" "role < 10" "0 \<le> role'" "role' < 10"
    and "call = call' \<or> (0 \<le> func \<and> func < 10 \<and> 0 \<le> func' \<and> func' < 10)"
    and "create_key call role func = create_key call' role' func'"
  shows "call = call' \<and> role = role' \<and> func = func'"
  using assms by (auto simp: create_key_def to_string_digit digit_char_inj)




end
