(* ===== verification/Manager_Properties.thy ===== *)
theory Manager_Properties
  imports Manager_Termination Response_Refinement Store_Properties
begin

text \<open>
  What \<open>SessionManager::handle\<close> promises. The first section holds in any environment and
  speaks about the calls the manager makes and their order; the second is the refinement of the
  ledger specification over stores that keep the register contract.
\<close>

section \<open>A run of handle, taken apart\<close>

text \<open>
  Either the session was in no store and the message was dropped, or some attempt found a session
  \<open>x\<close> and got its update past the local store.
\<close>

lemma last_attempt_Inr:
  assumes "last_attempt env sm msg s0 (Inr s')"
  shows "\<exists>found new s1. find_session env sm msg s0 = ((found, new), s1) \<and>
    (case found of None \<Rightarrow> s' = emit MessageDeleted s1
     | Some x \<Rightarrow> \<exists>s2. update_stores env sm msg (bump_session x) new s1 = Some (Proceed s2) \<and>
          send_to_peer env sm (fill_from_session msg (bump_session x)) s2 = Inr s')"
  using assms unfolding last_attempt_def
  by (elim exE conjE) (intro exI conjI, assumption, auto split: option.splits)

lemma last_attempt_Inl:
  assumes "last_attempt env sm msg s0 (Inl c)"
  shows "\<exists>x new s1 s2. find_session env sm msg s0 = ((Some x, new), s1) \<and>
    send_to_peer env sm (fill_from_session msg (bump_session x)) s2 = Inl c"
proof -
  obtain found new s1 where f: "find_session env sm msg s0 = ((found, new), s1)"
    and c: "case found of None \<Rightarrow> Inl c = Inr (emit MessageDeleted s1)
      | Some x \<Rightarrow> \<exists>s2. update_stores env sm msg (bump_session x) new s1 = Some (Proceed s2) \<and>
          Inl c = send_to_peer env sm (fill_from_session msg (bump_session x)) s2"
    using assms unfolding last_attempt_def by (elim exE conjE) (rule that)
  show ?thesis
  proof (cases found)
    case None
    with c show ?thesis by simp
  next
    case (Some x)
    with c obtain s2 where "Inl c = send_to_peer env sm (fill_from_session msg (bump_session x)) s2"
      by auto
    with f Some show ?thesis by metis
  qed
qed

lemma handle_returned_cases:
  assumes "handle env sm msg s = Some (Inr s')"
    and kind: "isInterim (m_record_type msg) \<or> isStop (m_record_type msg)"
  obtains
    (dropped) s1 where "extends store_effect s s1" "pending s1 = pending s"
      "settled_stores (effects_of s s1) = []" "s' = emit MessageDeleted s1"
  | (sent) x new s1 s2 where "extends store_effect s s1" "pending s1 = pending s"
      "settled_stores (effects_of s s1) = []"
      "update_stores env sm msg (bump_session x) new s1 = Some (Proceed s2)"
      "send_to_peer env sm (fill_from_session msg (bump_session x)) s2 = Inr s'"
proof -
  obtain s0 where s0: "extends store_effect s s0" "pending s0 = pending s"
    "settled_stores (effects_of s s0) = []" "last_attempt env sm msg s0 (Inr s')"
    using handle_last_attempt [OF assms] by blast
  from s0(4) obtain found new s1 where f: "find_session env sm msg s0 = ((found, new), s1)"
    and c: "case found of None \<Rightarrow> s' = emit MessageDeleted s1
       | Some x \<Rightarrow> \<exists>s2. update_stores env sm msg (bump_session x) new s1 = Some (Proceed s2) \<and>
            send_to_peer env sm (fill_from_session msg (bump_session x)) s2 = Inr s'"
    using last_attempt_Inr by blast
  note e = find_session_effects [OF f]
  have s1: "extends store_effect s s1" "pending s1 = pending s" "settled_stores (effects_of s s1) = []"
    using s0 e effects_of_trans [of store_effect s s0 store_effect s1] by (auto intro: extends_trans)
  show ?thesis
  proof (cases found)
    case None
    with c s1 dropped show ?thesis by simp
  next
    case (Some x)
    with c obtain s2 where "update_stores env sm msg (bump_session x) new s1 = Some (Proceed s2)"
      "send_to_peer env sm (fill_from_session msg (bump_session x)) s2 = Inr s'"
      by auto
    then show ?thesis by (rule sent [OF s1])
  qed
qed

lemma no_acr_store: "list_all store_effect es \<Longrightarrow> filter is_acr es = []"
  by (auto simp: list_all_iff filter_empty_conv store_effect_kinds)

section \<open>A concrete deployment\<close>

text \<open>A local store 0 and a remote store 1; only the local store has the session.\<close>

definition sample_sm :: session_manager where
  "sample_sm = \<lparr>local_store = 0, remote_stores = [1],
     factory = \<lparr>f_dest_realm = ''realm'', f_diameter_timeout = 200\<rparr>\<rparr>"

definition sample_msg :: "int \<Rightarrow> message" where
  "sample_msg t = (new_Message 42 ''call'' 0 0 (JObject [(''event'', JObject [])])
     (accounting_record_type t) 300 9 False)\<lparr>m_ccfs := [''ccf1'']\<rparr>"

lemma sample_sm_simps [simp]:
  "local_store sample_sm = 0" "remote_stores sample_sm = [1]"
  "factory sample_sm = \<lparr>f_dest_realm = ''realm'', f_diameter_timeout = 200\<rparr>"
  by (simp_all add: sample_sm_def)

lemma sample_msg_simps [simp]:
  "m_call_id (sample_msg t) = ''call''" "m_role (sample_msg t) = 0" "m_function (sample_msg t) = 0"
  "m_record_type (sample_msg t) = accounting_record_type t" "m_trail (sample_msg t) = 9"
  "has_event (sample_msg t)" "m_ccfs (sample_msg t) = [''ccf1'']"
  "m_session_refresh_time (sample_msg t) = 300" "m_interim_interval (sample_msg t) = 0"
  "m_timer_interim (sample_msg t) = False"
  by (simp_all add: sample_msg_def new_Message_def has_event_def json_simps)

lemma sample_kinds [simp]:
  "isInterim (accounting_record_type 3)" "isStop (accounting_record_type 4)"
  "isStart (accounting_record_type 2)" "isEvent (accounting_record_type 1)"
  by (simp_all add: record_type_defs accounting_record_type_def)

lemma msg_key_sample: "msg_key (sample_msg t) = create_key ''call'' 0 0"
  by (simp add: msg_key_def)

abbreviation ref :: "mem_world register" where
  "ref \<equiv> (ref_env, mem_view)"

lemma sample_store_other: "st \<noteq> 0 \<Longrightarrow> entry_absent ref st sample_store key"
  using register_frames(1) [OF ref_register_ok, of st 0 "''call''" 0 0 sample_session True empty_io]
    session_at_world_cong [of ref st sample_store empty_io]
  by (auto simp: sample_store_def entry_absent_empty prod_eq_iff)

lemma sample_store_ready:
  "store_ready ref st sample_store (create_key ''call'' 0 0)"
proof (cases "st = 0")
  case True
  then show ?thesis
    using sample_store_contents sample_session_durable
    by (auto simp: store_ready_def durable_def stored_view_def)
next
  case False
  then show ?thesis
    using sample_store_other [OF False] reg.absent_contents [OF sample_store_other [OF False]]
    by (simp add: store_ready_def)
qed

lemma sample_first_session:
  obtains c where "session_at ref 0 sample_store (create_key ''call'' 0 0) =
      Some ((stored_view sample_session)\<lparr>s_cas := c\<rparr>)"
  using sample_store_contents by blast

lemma stored_view_sample: "stored_view sample_session = sample_session"
  by (simp add: stored_view_def sample_session_def new_Session_def c_str_def)

lemma sample_interim_run:
  obtains s' t where "handle ref_env sample_sm (sample_msg 3) sample_store = Some (Inr s')"
    "pending s' = pending sample_store @ [t]"
    "ledger_of ref s' (create_key ''call'' 0 0) =
       spec_interim [0, 1] (ledger_of ref sample_store (create_key ''call'' 0 0))"
proof -
  obtain c where c: "session_at ref 0 sample_store (create_key ''call'' 0 0) =
      Some ((stored_view sample_session)\<lparr>s_cas := c\<rparr>)"
    by (rule sample_first_session)
  have "s_ccf ((stored_view sample_session)\<lparr>s_cas := c\<rparr>) \<noteq> []"
    by (simp add: stored_view_sample) (simp add: sample_session_def)
  with handle_interim_refines [OF ref_register_ok, of "sample_msg 3" sample_sm sample_store
      "(stored_view sample_session)\<lparr>s_cas := c\<rparr>"] c sample_store_ready that
  show ?thesis by (auto simp: msg_key_sample)
qed

section \<open>Calls and their order, in any environment\<close>

text \<open>
  C9: an INTERIM that is sent on has first been written to every store: the local one and then
  each remote one, once each (attempts the store refused for contention aside), and only after
  all of them comes its one ACR. The ACR carries exactly the accounting record number, session
  identifier and first CCF of the session text written to the local store. An INTERIM for which
  no store has a session changes no store and sends nothing, and its message is freed.
\<close>

theorem interim_stores_then_acr:
  assumes "handle env sm msg s = Some (Inr s')" "isInterim (m_record_type msg)"
  shows "(\<exists>es x new rc. effects_of s s' =
      es @ [SasEvent (m_trail msg) BILLING_REQUEST_SENT [s_acct_record_number x] [hd (s_ccf x)],
            AcrSent (AccountingRequest (avp_ok env) (s_session_id x) (hd (s_ccf x))
                       (f_dest_realm (factory sm)) (s_acct_record_number x)
                       (json_at (m_received_json msg) ''event''))
              (f_diameter_timeout (factory sm))] \<and>
      settled_stores es = local_store sm # remote_stores sm \<and> filter is_acr es = [] \<and>
      StoreSet (local_store sm) (msg_key msg) (serialize_session env x)
        (if new then 0 else s_cas x) (2 * s_session_refresh_time x) rc \<in> set es \<and>
      rc \<noteq> DATA_CONTENTION) \<or>
    (\<exists>es. effects_of s s' = es @ [MessageDeleted] \<and> settled_stores es = [] \<and>
      filter is_acr es = [] \<and> pending s' = pending s)"
  using assms(1)
proof (rule handle_returned_cases)
  show "isInterim (m_record_type msg) \<or> isStop (m_record_type msg)" using assms(2) by blast
  fix s1 assume "extends store_effect s s1" "pending s1 = pending s"
    "settled_stores (effects_of s s1) = []" "s' = emit MessageDeleted s1"
  then show ?thesis
    using no_acr_store by (intro disjI2) (auto simp: extends_def effects_of_def)
next
  fix x new s1 s2
  let ?x = "bump_session x"
  assume pre: "extends store_effect s s1" "settled_stores (effects_of s s1) = []"
    and u: "update_stores env sm msg ?x new s1 = Some (Proceed s2)"
    and send: "send_to_peer env sm (fill_from_session msg ?x) s2 = Inr s'"
  from u assms(2) have i: "interim_update env sm msg ?x new s1 = Some (Proceed s2)"
    by (simp add: update_stores_def)
  from interim_update_Proceed_effects(1) [OF i] obtain rc rest where
    w: "rc \<noteq> DATA_CONTENTION" "effects_of s1 s2 =
        StoreSet (local_store sm) (msg_key msg) (serialize_session env ?x)
          (if new then 0 else s_cas ?x) (2 * s_session_refresh_time ?x) rc # rest"
      "settled_stores rest = remote_stores sm"
    by (auto simp del: bump_session_simps)
  note e2 = interim_update_Proceed_effects(2) [OF i]
  have es: "effects_of s s2 = effects_of s s1 @ effects_of s1 s2" "extends store_effect s s2"
    using effects_of_trans [OF pre(1) e2] extends_trans [OF pre(1) e2] by simp_all
  have "effects_of s s' = effects_of s s2 @ effects_of s2 s'"
    using effects_of_snoc [OF es(2) send_to_peer_Inr(5) [OF send]] .
  moreover have "filter is_acr (effects_of s s2) = []"
    using extends_list_all [OF es(2)] by (rule no_acr_store)
  ultimately show ?thesis
    using w pre(2) es(1) send_to_peer_Inr(4) [OF send]
    by (intro disjI1 exI [of _ "effects_of s s2"] exI [of _ ?x] exI [of _ new] exI [of _ rc])
       (simp add: first_acr_def del: bump_session_simps)
qed

theorem interim_stores_then_acr_witness:
  "\<exists>s' es e acr. handle ref_env sample_sm (sample_msg 3) sample_store = Some (Inr s') \<and>
     effects_of sample_store s' = es @ [e, AcrSent acr 200] \<and>
     settled_stores es = [0, 1] \<and> filter is_acr es = []"
proof -
  obtain s' t where h: "handle ref_env sample_sm (sample_msg 3) sample_store = Some (Inr s')"
    and p: "pending s' = pending sample_store @ [t]"
    by (rule sample_interim_run)
  from interim_stores_then_acr [OF h] p h show ?thesis by fastforce
qed


lemma timers_separate_ref: "timers_separate ref"
  by (simp add: timers_separate_def ref_env_def)

lemma sample_stop_run:
  obtains s' t where "handle ref_env sample_sm (sample_msg 4) sample_store = Some (Inr s')"
    "pending s' = pending sample_store @ [t]"
    "ledger_of ref s' (create_key ''call'' 0 0) =
       spec_stop [0, 1] (ledger_of ref sample_store (create_key ''call'' 0 0))"
proof -
  obtain c where c: "session_at ref 0 sample_store (create_key ''call'' 0 0) =
      Some ((stored_view sample_session)\<lparr>s_cas := c\<rparr>)"
    by (rule sample_first_session)
  have "s_ccf ((stored_view sample_session)\<lparr>s_cas := c\<rparr>) \<noteq> []"
    by (simp add: stored_view_sample) (simp add: sample_session_def)
  with handle_stop_refines [OF ref_register_ok, of "sample_msg 4" sample_sm sample_store
      "(stored_view sample_session)\<lparr>s_cas := c\<rparr>"] c that timers_separate_ref
  show ?thesis by (auto simp: msg_key_sample)
qed


text \<open>
  A START or an EVENT (any message that is neither INTERIM nor STOP) goes straight to the
  peer with accounting record number 1, whatever the uninitialised field held before. It touches
  no store and no timer, always returns, and fails only when its CCF list is empty or its body
  has no event.
\<close>

lemma first_acr_is_number_one:
  assumes "\<not> isInterim (m_record_type msg)" "\<not> isStop (m_record_type msg)"
    and "m_ccfs msg \<noteq> []" "has_event msg"
  shows "\<exists>s'. handle env sm (msg\<lparr>m_accounting_record_number := uninit\<rparr>) s = Some (Inr s') \<and>
    world s' = world s \<and>
    effects_of s s' =
      [SasEvent (m_trail msg) BILLING_REQUEST_SENT [1] [hd (m_ccfs msg)],
       AcrSent (AccountingRequest (avp_ok env) (m_session_id msg) (hd (m_ccfs msg))
                  (f_dest_realm (factory sm)) 1 (json_at (m_received_json msg) ''event''))
         (f_diameter_timeout (factory sm))] \<and>
    record_numbers (pending s') = record_numbers (pending s) @ [1]"
  using assms
  by (subst handle.simps)
     (simp add: send_to_peer_cases effects_of_def first_acr_def record_numbers_def new_RalfTransaction_def)


text \<open>Stores that refuse the first writes they are sent: the world is the number still refused.\<close>

definition busy_env :: "nat env" where
  "busy_env =
     \<lparr>get_data = (\<lambda>_ _ _ w. ((OK, serialize_session ref_env sample_session, 1), w)),
      set_data = (\<lambda>_ _ _ _ _ _ w. if w = 0 then (OK, 0) else (DATA_CONTENTION, w - 1)),
      delete_data = (\<lambda>_ _ _ w. if w = 0 then (OK, 0) else (DATA_CONTENTION, w - 1)),
      send_post = (\<lambda>_ _ _ _ _ _ w. ((HTTP_OK, ''timer-1''), w)),
      send_put = (\<lambda>i _ _ _ _ _ w. ((HTTP_OK, i), w)),
      send_delete = (\<lambda>_ w. (HTTP_OK, w)),
      json_parse = ref_parse, json_write = ref_write,
      get_string_member = ref_get_string, get_int_member = ref_get_int,
      assert_contains = HasMember, assert_array = IsArray, assert_string = IsString,
      url_escape = (\<lambda>u. u), avp_ok = (\<lambda>_ _. True), uninit_u32 = 42\<rparr>"


section \<open>The ledger specification, over compare-and-set stores\<close>

text \<open>
  C2: over stores that keep the register contract, an INTERIM refines \<open>spec_interim\<close>: it
  returns, every configured store then has the session with its record number incremented
  (a store that had lost it gets a copy of the first one found), and one request is outstanding
  for the new record number, towards the CCFs of the session and under its session identifier.
\<close>

theorem interim_refinement:
  assumes "register_ok e" "isInterim (m_record_type msg)" "has_event msg"
    and "distinct (all_stores sm)"
    and "\<forall>st \<in> set (all_stores sm). store_ready e st s (msg_key msg)"
    and "first_session e (all_stores sm) s (msg_key msg) = Some x" "s_ccf x \<noteq> []"
  shows "\<exists>s' t. handle (fst e) sm msg s = Some (Inr s') \<and>
    ledger_of e s' (msg_key msg) = spec_interim (all_stores sm) (ledger_of e s (msg_key msg)) \<and>
    pending s' = pending s @ [t] \<and>
    m_accounting_record_number (tsx_msg t) = s_acct_record_number x + 1 \<and>
    m_session_id (tsx_msg t) = s_session_id x \<and> pms_ccfs (tsx_peer_sender t) = s_ccf x"
  using handle_interim_refines [OF assms(1-4) _ assms(6,7)] assms(5)
  by (auto simp: new_RalfTransaction_def first_sender_def simp del: first_session.simps)

theorem interim_refinement_witness:
  "\<exists>s' y z. handle ref_env sample_sm (sample_msg 3) sample_store = Some (Inr s') \<and>
    ledger_of ref s' (create_key ''call'' 0 0) 0 = Some y \<and> s_acct_record_number y = 8 \<and>
    ledger_of ref s' (create_key ''call'' 0 0) 1 = Some z \<and> s_acct_record_number z = 8"
proof -
  obtain c where c: "session_at ref 0 sample_store (create_key ''call'' 0 0) =
      Some (sample_session\<lparr>s_cas := c\<rparr>)"
    using sample_first_session by (metis stored_view_sample)
  let ?l = "ledger_of ref sample_store (create_key ''call'' 0 0)"
  obtain s' where s': "handle ref_env sample_sm (sample_msg 3) sample_store = Some (Inr s')"
    "ledger_of ref s' (create_key ''call'' 0 0) = spec_interim [0, 1] ?l"
    using interim_refinement [OF ref_register_ok, of "sample_msg 3" sample_sm sample_store
        "sample_session\<lparr>s_cas := c\<rparr>"] c sample_store_ready
    by (auto simp: msg_key_sample sample_session_def)
  have 0: "?l 0 = Some sample_session"
    using c stored_view_simps(2) by (simp add: ledger_of_def stored_view_sample)
  have 1: "?l 1 = None"
    using reg.absent_contents [OF sample_store_other] by (simp add: ledger_of_def)
  have "first_copy ?l [0, 1] = Some sample_session" using 0 by simp
  note f = spec_interim_first [OF this]
  have "spec_interim [0, 1] ?l 0 = Some (bump_session sample_session)"
    "spec_interim [0, 1] ?l 1 = Some (bump_session sample_session)"
    using 0 1 by (simp_all only: f) simp_all
  with s' show ?thesis by (simp add: sample_session_def)
qed

text \<open>
  C3: a STOP whose session is in the local store refines \<open>spec_stop\<close>: it returns, no
  configured store has the session afterwards and every other store is as before, and one
  request is outstanding for the incremented record number.
\<close>

theorem stop_refinement:
  assumes "register_ok e" "timers_separate e" "isStop (m_record_type msg)" "has_event msg"
    and "session_at e (local_store sm) s (msg_key msg) = Some x" "s_ccf x \<noteq> []"
  shows "\<exists>s' t. handle (fst e) sm msg s = Some (Inr s') \<and>
    ledger_of e s' (msg_key msg) = spec_stop (all_stores sm) (ledger_of e s (msg_key msg)) \<and>
    pending s' = pending s @ [t] \<and>
    m_accounting_record_number (tsx_msg t) = s_acct_record_number x + 1 \<and>
    m_session_id (tsx_msg t) = s_session_id x \<and> pms_ccfs (tsx_peer_sender t) = s_ccf x"
  using handle_stop_refines [OF assms(1,3-6) assms(2)]
  by (auto simp: new_RalfTransaction_def first_sender_def)

theorem stop_refinement_witness:
  "\<exists>s'. handle ref_env sample_sm (sample_msg 4) sample_store = Some (Inr s') \<and>
    ledger_of ref s' (create_key ''call'' 0 0) 0 = None"
proof -
  obtain c where c: "session_at ref 0 sample_store (create_key ''call'' 0 0) =
      Some (sample_session\<lparr>s_cas := c\<rparr>)"
    using sample_first_session by (metis stored_view_sample)
  with stop_refinement [OF ref_register_ok timers_separate_ref, of "sample_msg 4" sample_sm
      sample_store "sample_session\<lparr>s_cas := c\<rparr>"]
  show ?thesis by (auto simp: msg_key_sample sample_session_def spec_stop_def)
qed

text \<open>
  C21: a STOP whose session is in a remote store but not in the local one never returns over such
  stores: the safe deletion is sent to the local store with the CAS of the remote one, is refused
  because the local store has no entry, and the message is handled again from the start, with
  the same outcome each time.
\<close>

theorem stop_remote_only_never_returns:
  assumes "register_ok e" "isStop (m_record_type msg)"
    and "entry_absent e (local_store sm) s (msg_key msg)"
    and "r \<in> set (remote_stores sm)" "session_at e r s (msg_key msg) \<noteq> None"
  shows "handle (fst e) sm msg s = None"
proof -
  have "first_session e rs s (msg_key msg) \<noteq> None" if "r \<in> set rs" for rs
    using that assms(5) by (induction rs) (auto split: option.split)
  then show ?thesis using handle_stop_remote_only [OF assms(1-3)] assms(4) by blast
qed

theorem stop_remote_only_never_returns_witness:
  "handle ref_env (sample_sm\<lparr>local_store := 1, remote_stores := [0]\<rparr>) (sample_msg 4) sample_store = None"
  using stop_remote_only_never_returns [OF ref_register_ok, of "sample_msg 4"
      "sample_sm\<lparr>local_store := 1, remote_stores := [0]\<rparr>" sample_store 0]
    sample_store_contents sample_store_other
  by (auto simp: msg_key_sample)

end
