(* ===== verification/Response_Properties.thy ===== *)
theory Response_Properties
  imports Manager_Properties
begin

text \<open>
  What \<open>SessionManager::on_ccf_response\<close> promises: the message is disposed of exactly once,
  timers and stores change only for the answers that should change them, and in the way the
  ledger specification says.
\<close>

section \<open>Which calls an answer causes, in any environment\<close>

text \<open>
  Every answer, whatever the record type and result, ends with the message being freed, once;
  the health checker is told exactly when the CCF accepted, just before that; no ACR and no HTTP
  reply is sent and no outstanding transaction is touched.
\<close>

lemma answer_disposes_message:
  "\<exists>es. trace (on_ccf_response env sm accepted n session_id rc msg s) =
      trace s @ es @ (if accepted then [HealthCheckPassed] else []) @ [MessageDeleted] \<and>
    filter (\<lambda>e. is_acr e \<or> is_reply e \<or> e = MessageDeleted \<or> parse_effect e \<or>
              e = HealthCheckPassed) es = [] \<and>
    pending (on_ccf_response env sm accepted n session_id rc msg s) = pending s"
proof -
  let ?Q = "\<lambda>e. is_acr e \<or> is_reply e \<or> e = MessageDeleted \<or> parse_effect e \<or> e = HealthCheckPassed"
  have none: "filter ?Q es = []" if "list_all response_effect es" for es
    using that
  proof (rule list_all_filter_none)
    show "response_effect e \<Longrightarrow> \<not> ?Q e" for e by (cases e) simp_all
  qed
  from on_ccf_response_shape [of env sm accepted n session_id rc msg s] obtain es where
    "trace (on_ccf_response env sm accepted n session_id rc msg s) =
      trace s @ es @ (if accepted then [HealthCheckPassed] else []) @ [MessageDeleted]"
    "list_all response_effect es"
    "pending (on_ccf_response env sm accepted n session_id rc msg s) = pending s"
    by blast
  then show ?thesis using none by (intro exI [of _ es] conjI)
qed

text \<open>
  C30: an accepted START asks Chronos for a timer exactly when the refresh time is longer than the
  interim interval in force (the answer's if it has one, else the message's, else the refresh
  time itself), and then writes one new session, with CAS 0, to every store, the local one first:
  the CCF's session identifier, that interval, the timer's identifier or \<open>NO_TIMER\<close>, and the
  CCFs and record number of the message.
\<close>

theorem start_accepted_calls:
  assumes "isStart (m_record_type msg)"
  shows "\<exists>timer i rcs.
    trace (on_ccf_response env sm True n session_id rc msg s) =
      trace s @ sas_outcome_events True session_id msg @ timer @
      map2 (\<lambda>st r. StoreSet st (msg_key msg)
              (serialize_session env (started_session (effective_interval n msg) session_id i msg))
              0 (2 * m_session_refresh_time msg) r)
        (local_store sm # remote_stores sm) rcs @ [HealthCheckPassed, MessageDeleted] \<and>
    length rcs = Suc (length (remote_stores sm)) \<and>
    (if m_session_refresh_time msg > effective_interval n msg
     then \<exists>status. timer = TimerPost (effective_interval n msg) (m_session_refresh_time msg)
              (callback_uri env msg) (create_opaque_data env msg) timer_tags status i #
            (if status = HTTP_OK
             then [SasEvent (m_trail msg) INTERIM_TIMER_CREATED [effective_interval n msg] []] else [])
     else timer = [] \<and> i = NO_TIMER)"
proof -
  let ?n = "effective_interval n msg" and ?s1 = "sas_log_ccf_response True session_id msg s"
  obtain i s2 where t: "start_timer env ?n msg ?s1 = (i, s2)" by fastforce
  note e = start_timer_effects [OF t]
  let ?x = "started_session ?n session_id i msg"
  let ?s3 = "set_all_stores env msg ?x (local_store sm # remote_stores sm) s2"
  obtain rcs where r: "extends store_effect s2 ?s3" "length rcs = Suc (length (remote_stores sm))"
    "effects_of s2 ?s3 = map2 (\<lambda>st r. StoreSet st (msg_key msg) (serialize_session env ?x) 0
        (2 * m_session_refresh_time msg) r) (local_store sm # remote_stores sm) rcs"
    using set_all_stores_effects [of s2 env msg ?x "local_store sm # remote_stores sm"]
    by (auto simp: started_session_def simp del: set_all_stores.simps)
  have "on_ccf_response env sm True n session_id rc msg s = emit MessageDeleted (emit HealthCheckPassed ?s3)"
    using assms record_type_exclusive(7) [OF assms] t
    by (simp add: on_ccf_response_work response_work_def record_start_def del: set_all_stores.simps)
  moreover have "trace s2 = trace ?s1 @ effects_of ?s1 s2" "trace ?s3 = trace s2 @ effects_of s2 ?s3"
    using extends_effects_of [OF e(3)] extends_effects_of [OF r(1)] by simp_all
  ultimately have "trace (on_ccf_response env sm True n session_id rc msg s) =
      trace s @ sas_outcome_events True session_id msg @ effects_of ?s1 s2 @ effects_of s2 ?s3 @
      [HealthCheckPassed, MessageDeleted]"
    by (simp add: sas_log_trace del: set_all_stores.simps)
  with e(2) r(2,3) show ?thesis
    by (intro exI [of _ "effects_of ?s1 s2"] exI [of _ i] exI [of _ rcs]) (simp del: set_all_stores.simps)
qed

theorem start_accepted_calls_witness:
  "\<exists>timer i rcs.
    trace (on_ccf_response ref_env sample_sm True 60 ''sid'' 2001 (sample_msg 2) empty_io) =
      sas_outcome_events True ''sid'' (sample_msg 2) @ timer @
      map2 (\<lambda>st r. StoreSet st (create_key ''call'' 0 0)
              (serialize_session ref_env (started_session 60 ''sid'' i (sample_msg 2))) 0 600 r)
        [0, 1] rcs @ [HealthCheckPassed, MessageDeleted]"
  using start_accepted_calls [of "sample_msg 2" ref_env sample_sm 60 "''sid''" 2001 empty_io]
  by (simp add: msg_key_sample effective_interval_def empty_io_def del: zip_Cons_Cons) blast

text \<open>
  A rejected START leaves nothing behind, and neither does any answer to a STOP or an EVENT:
  no store and no timer is touched and the world is as it was; only the SAS event and, for an
  accepted request, the health check are issued before the message is freed.
\<close>

lemma answer_changes_nothing:
  assumes "\<not> isInterim (m_record_type msg)" "\<not> (accepted \<and> isStart (m_record_type msg))"
  shows "trace (on_ccf_response env sm accepted n session_id rc msg s) =
      trace s @ sas_outcome_events accepted session_id msg @
      (if accepted then [HealthCheckPassed] else []) @ [MessageDeleted] \<and>
    world (on_ccf_response env sm accepted n session_id rc msg s) = world s"
  using assms by (auto simp: on_ccf_response_work response_work_def sas_log_trace)

lemma filter_timer_store: "extends store_effect s s' \<Longrightarrow> filter is_timer (effects_of s s') = []"
  using extends_list_all list_all_filter_none store_effect_kinds(2) by metis

text \<open>
  The interim requests that Chronos itself triggers never change a timer, so a repeating
  timer is not reset by its own pop, whatever the CCF answers.
\<close>

lemma timer_interim_keeps_timers:
  assumes "m_timer_interim msg" "isInterim (m_record_type msg)"
  shows "filter is_timer (effects_of s (on_ccf_response env sm accepted n session_id rc msg s)) = []"
proof -
  let ?s1 = "sas_log_ccf_response accepted session_id msg s"
  let ?s2 = "response_work env sm accepted (effective_interval n msg) session_id rc msg ?s1"
  have "extends store_effect s ?s1" by (simp add: extends_def sas_log_trace)
  moreover have "extends store_effect ?s1 ?s2"
    using assms delete_all_stores_effects [of ?s1 env msg "local_store sm # remote_stores sm"]
    by (auto simp: response_work_def simp del: delete_all_stores.simps)
  ultimately have x: "extends store_effect s ?s2" by (rule extends_trans)
  have "trace (on_ccf_response env sm accepted n session_id rc msg s) =
      trace ?s2 @ (if accepted then [HealthCheckPassed] else []) @ [MessageDeleted]"
    by (simp add: on_ccf_response_work)
  from effects_of_snoc [OF x this] show ?thesis using filter_timer_store [OF x] by simp
qed

lemma renew_timer_calls:
  "\<exists>status i. filter is_timer (effects_of s (renew_timer env sm n msg log s)) =
     [if m_timer_id msg = NO_TIMER
      then TimerPost n (m_session_refresh_time msg) (callback_uri env msg)
             (create_opaque_data env msg) timer_tags status i
      else TimerPut (m_timer_id msg) n (m_session_refresh_time msg) (callback_uri env msg)
             (create_opaque_data env msg) timer_tags i]"
proof -
  obtain i s1 where c: "send_chronos_update env (m_timer_id msg) n (m_session_refresh_time msg)
      (callback_uri env msg) (create_opaque_data env msg) s = (i, s1)" by fastforce
  let ?s2 = "if log then emit (SasEvent (m_trail msg) INTERIM_TIMER_RENEWED [n] []) s1 else s1"
  obtain msg' s3 where u: "update_timer_id env sm msg i ?s2 = (msg', s3)" by fastforce
  from send_chronos_update_trace [OF c] obtain call where call: "trace s1 = trace s @ [call]"
    "call = (if m_timer_id msg = NO_TIMER then TimerPost n (m_session_refresh_time msg)
        (callback_uri env msg) (create_opaque_data env msg) timer_tags
        (fst (fst (send_post env (m_timer_id msg) n (m_session_refresh_time msg)
           (callback_uri env msg) (create_opaque_data env msg) timer_tags (world s)))) i
      else TimerPut (m_timer_id msg) n (m_session_refresh_time msg) (callback_uri env msg)
        (create_opaque_data env msg) timer_tags i)"
    by blast
  have e: "extends store_effect ?s2 s3"
    using update_timer_id_loop_effects [OF u [unfolded update_timer_id_def]] by blast
  have 2: "filter is_timer (effects_of s ?s2) = [call]" "extends (\<lambda>_. True) s ?s2"
    using call by (auto simp: effects_of_def extends_def list_all_iff)
  have "effects_of s s3 = effects_of s ?s2 @ effects_of ?s2 s3" by (rule effects_of_trans [OF 2(2) e])
  then have 3: "filter is_timer (effects_of s s3) = [call]" using 2(1) filter_timer_store [OF e] by simp
  have "renew_timer env sm n msg log s = (if i \<noteq> m_timer_id msg then s3 else ?s2)"
    using c u by (simp add: renew_timer_def)
  then have "filter is_timer (effects_of s (renew_timer env sm n msg log s)) = [call]"
    using 2(1) 3 by simp
  then show ?thesis unfolding call(2) by blast
qed



section \<open>The ledger specification, over compare-and-set stores\<close>

lemma entry_absent_clean: "entry_absent e st s key \<Longrightarrow> store_clean e st s key"
  by (simp add: store_clean_def)

text \<open>
  C17: an accepted START refines \<open>spec_start\<close>: afterwards every configured store has the new
  session, except that a store which already had a session under this key keeps that one, since
  the write carries CAS 0; other stores are as before.
\<close>

theorem start_refinement:
  assumes "register_ok e" "timers_separate e" "isStart (m_record_type msg)"
    and "2 * m_session_refresh_time msg \<noteq> 0"
    and "\<forall>st \<in> set (all_stores sm). store_clean e st s (msg_key msg)"
  shows "\<exists>i. ledger_of e (on_ccf_response (fst e) sm True n sid rc msg s) (msg_key msg) =
      spec_start (all_stores sm) (started_session (effective_interval n msg) sid i msg)
        (ledger_of e s (msg_key msg)) \<and>
    (m_session_refresh_time msg > effective_interval n msg \<or> i = NO_TIMER)"
proof -
  obtain i s1 where t: "start_timer (fst e) (effective_interval n msg) msg
      (sas_log_ccf_response True sid msg s) = (i, s1)" by fastforce
  have "m_session_refresh_time msg > effective_interval n msg \<or> i = NO_TIMER"
    using start_timer_effects(2) [OF t] by (auto split: if_splits)
  with start_accepted_refines [OF assms(1-4) _ t, of sm rc] assms(5) show ?thesis by blast
qed

theorem start_refinement_witness:
  "\<exists>i. ledger_of ref (on_ccf_response ref_env sample_sm True 60 ''sid'' 2001 (sample_msg 2) empty_io)
      (create_key ''call'' 0 0) 1 =
    Some (stored_view (started_session 60 ''sid'' i (sample_msg 2)))"
proof -
  have "ledger_of ref empty_io key st = None" for key st
    by (simp add: ledger_of_def session_at_def empty_io_def mem_view_def)
  with start_refinement [OF ref_register_ok timers_separate_ref, of "sample_msg 2" sample_sm empty_io
      60 "''sid''" 2001] entry_absent_clean [OF entry_absent_empty]
  show ?thesis by (auto simp: msg_key_sample spec_start_def effective_interval_def)
qed

text \<open>
  When the CCF answers an INTERIM with 5002, an unknown session, the session is removed from
  every configured store and from no other, so that it is not used again.
\<close>

lemma unknown_session_refinement:
  assumes "register_ok e" "isInterim (m_record_type msg)"
  shows "ledger_of e (on_ccf_response (fst e) sm False n sid 5002 msg s) (msg_key msg) =
    (\<lambda>st. if st \<in> set (all_stores sm) then None else ledger_of e s (msg_key msg) st)"
  using unknown_session_refines [OF assms] by (simp add: spec_stop_def)

text \<open>
  C28: any other answer to an INTERIM keeps every session, and the only thing it may change is the
  timer identifier: when Chronos returned another one than the message had, every configured
  store that has the session gets the new identifier.
\<close>

theorem interim_answer_refinement:
  assumes "register_ok e" "timers_separate e" "isInterim (m_record_type msg)"
    and "accepted \<or> rc \<noteq> 5002" "all_durable e s (msg_key msg)"
  shows "\<exists>i. ledger_of e (on_ccf_response (fst e) sm accepted n sid rc msg s) (msg_key msg) =
    (if \<not> m_timer_interim msg \<and> m_session_refresh_time msg > effective_interval n msg \<and>
        i \<noteq> m_timer_id msg
     then (\<lambda>st. if st \<in> set (all_stores sm)
                then map_option (\<lambda>x. x\<lparr>s_timer_id := c_str i\<rparr>) (ledger_of e s (msg_key msg) st)
                else ledger_of e s (msg_key msg) st)
     else ledger_of e s (msg_key msg))"
proof -
  let ?s1 = "sas_log_ccf_response accepted sid msg s" and ?n = "effective_interval n msg"
  obtain i s2 where c: "send_chronos_update (fst e) (m_timer_id msg) ?n (m_session_refresh_time msg)
      (callback_uri (fst e) msg) (create_opaque_data (fst e) msg) ?s1 = (i, s2)" by fastforce
  have l: "ledger_of e ?s1 = ledger_of e s" by (rule same_world_ledger_of) simp
  have "session_at e st ?s1 = session_at e st s" for st
    using session_at_world_cong [of e st ?s1 s] by simp
  then have "all_durable e ?s1 (msg_key msg)" using assms(5) by (simp add: all_durable_def)
  note r = renew_timer_refines [OF assms(1,2) this c, unfolded l]
  have "world (on_ccf_response (fst e) sm accepted n sid rc msg s) =
      world (if \<not> m_timer_interim msg \<and> m_session_refresh_time msg > ?n
             then renew_timer (fst e) sm ?n msg accepted ?s1 else ?s1)"
    using assms(3,4) by (auto simp: on_ccf_response_work response_work_def)
  from same_world_ledger_of [OF this, of e] l r [of sm accepted] show ?thesis
    by (intro exI [of _ i]) (auto simp: spec_retime_def)
qed

theorem interim_answer_refinement_witness:
  "\<exists>y. ledger_of ref (on_ccf_response ref_env sample_sm False 60 ''sid'' 3004 (sample_msg 3) sample_store)
     (create_key ''call'' 0 0) 0 = Some y \<and> s_acct_record_number y = 7"
proof -
  obtain c where c: "session_at ref 0 sample_store (create_key ''call'' 0 0) =
      Some (sample_session\<lparr>s_cas := c\<rparr>)"
    using sample_first_session by (metis stored_view_sample)
  have none: "session_at ref st sample_store (create_key ''call'' 0 0) = None" if "st \<noteq> 0" for st
    using reg.absent_contents [OF sample_store_other [OF that]] .
  have "durable x" if "session_at ref st sample_store (create_key ''call'' 0 0) = Some x" for st x
    using that c none sample_session_durable by (cases "st = 0") (auto simp: durable_def)
  then have dur: "all_durable ref sample_store (create_key ''call'' 0 0)" by (simp add: all_durable_def)
  have l: "ledger_of ref sample_store (create_key ''call'' 0 0) 0 = Some sample_session"
    using c stored_view_simps(2) by (simp add: ledger_of_def stored_view_sample)
  have n: "s_acct_record_number sample_session = 7" by (simp add: sample_session_def)
  from interim_answer_refinement [OF ref_register_ok timers_separate_ref, of "sample_msg 3" False 3004
      sample_store sample_sm 60 "''sid''"] dur
  show ?thesis using l n by (auto simp: msg_key_sample)
qed

end
