(* ===== verification/Transaction_Properties.thy ===== *)
theory Transaction_Properties
  imports Response_Properties Ralf_Transaction
begin

text \<open>
  What the Diameter callbacks promise: they never run into undefined behaviour on a transaction
  that was sent, an answer reaches the session manager exactly once with the right verdict, and
  an undeliverable request is tried at each CCF of the list once, in order.
\<close>

section \<open>Helpers\<close>

definition answer_code :: "diameter_answer \<Rightarrow> int" where
  "answer_code rsp = (case ans_result_code rsp of Some c \<Rightarrow> c | None \<Rightarrow> 0)"

definition answer_session_id :: "diameter_answer \<Rightarrow> string" where
  "answer_session_id rsp = (case ans_session_id rsp of Some i \<Rightarrow> i
     | None \<Rightarrow> ''<value not found in Diameter message>'')"

definition answer_interval :: "diameter_answer \<Rightarrow> int" where
  "answer_interval rsp = (case ans_interim_interval rsp of Some v \<Rightarrow> v | None \<Rightarrow> 0)"

definition answer_logged :: "ralf_transaction \<Rightarrow> diameter_answer \<Rightarrow> 'w io \<Rightarrow> 'w io" where
  "answer_logged t rsp s = emit (SasEvent (m_trail (tsx_msg t))
     (if answer_code rsp = 2001 then BILLING_REQUEST_SUCCEEDED else BILLING_REQUEST_REJECTED) []
     [answer_session_id rsp]) s"

lemma on_response_send_cb:
  "on_response env sm t rsp s = send_cb env sm (tsx_peer_sender t) (answer_code rsp)
     (answer_interval rsp) (answer_session_id rsp) (answer_logged t rsp s)"
  by (simp add: on_response_def answer_code_def answer_interval_def answer_session_id_def
      answer_logged_def Let_def)

text \<open>The sender that points at the next CCF.\<close>

definition next_ccf :: "peer_message_sender \<Rightarrow> peer_message_sender" where
  "next_ccf pm = pm\<lparr>pms_which := pms_which pm + 1\<rparr>"

lemma next_ccf_simps [simp]:
  "pms_msg (next_ccf pm) = pms_msg pm" "pms_ccfs (next_ccf pm) = pms_ccfs pm"
  "pms_dest_realm (next_ccf pm) = pms_dest_realm pm"
  "pms_diameter_timeout (next_ccf pm) = pms_diameter_timeout pm"
  by (simp_all add: next_ccf_def)

lemma unat_next_ccf:
  assumes "unat (pms_which pm) < length (pms_ccfs pm)" "length (pms_ccfs pm) < 2 ^ 32"
  shows "unat (pms_which (next_ccf pm)) = Suc (unat (pms_which pm))"
proof -
  have "pms_which pm \<noteq> - 1"
    using assms by (auto simp: unsigned_minus_1_eq_mask mask_eq_exp_minus_1)
  then show ?thesis by (simp add: next_ccf_def unat_u32_plus_1)
qed

lemma send_cb_dispatch:
  assumes "pms_msg pm = Some msg" "code \<noteq> ER_DIAMETER_UNABLE_TO_DELIVER"
  shows "send_cb env sm pm code v sid s =
    Inr (on_ccf_response env sm (code = ER_DIAMETER_SUCCESS) (u32_of_int v) sid code msg s)"
  using assms by (simp add: send_cb_def)

lemma send_cb_next:
  assumes "wf_sender pm" "pms_msg pm = Some msg"
    and "unat (pms_which (next_ccf pm)) < length (pms_ccfs pm)"
  shows "send_cb env sm pm ER_DIAMETER_UNABLE_TO_DELIVER v sid s =
    Inr (s\<lparr>trace := trace s @
             [SasEvent (m_trail msg) BILLING_REQUEST_NOT_SENT [] [pms_ccfs pm ! unat (pms_which pm)],
              SasEvent (m_trail msg) CDF_FAILOVER [] [pms_ccfs pm ! unat (pms_which (next_ccf pm))],
              SasEvent (m_trail msg) BILLING_REQUEST_SENT [m_accounting_record_number msg]
                [pms_ccfs pm ! unat (pms_which (next_ccf pm))],
              AcrSent (acr_of env (next_ccf pm) msg) (pms_diameter_timeout pm)],
           pending := pending s @ [new_RalfTransaction (next_ccf pm) msg]\<rparr>)"
proof -
  have "wf_sender (next_ccf pm)" using assms by (simp add: wf_sender_def)
  from int_send_msg_wf [OF this, of msg env] assms show ?thesis
    by (simp add: send_cb_def wf_sender_def next_ccf_def emit_def Let_def)
qed

lemma send_cb_exhausted:
  assumes "wf_sender pm" "pms_msg pm = Some msg"
    and "\<not> unat (pms_which (next_ccf pm)) < length (pms_ccfs pm)"
  shows "send_cb env sm pm ER_DIAMETER_UNABLE_TO_DELIVER v sid s =
    Inr (on_ccf_response env sm False 0 '''' ER_DIAMETER_UNABLE_TO_DELIVER msg
      (emit (SasEvent (m_trail msg) BILLING_REQUEST_NOT_SENT []
         [pms_ccfs pm ! unat (pms_which pm)]) s))"
  using assms by (simp add: send_cb_def wf_sender_def next_ccf_def Let_def)

text \<open>Every callback on a well-formed sender returns, and what it sends is well-formed again.\<close>

definition quiet_effect :: "effect \<Rightarrow> bool" where
  "quiet_effect e \<longleftrightarrow> e \<noteq> MessageDeleted \<and> \<not> parse_effect e \<and> \<not> is_acr e \<and> \<not> is_reply e"

lemma quiet_effect_simps [simp]:
  "quiet_effect (SasEvent trail event ns strs)" "quiet_effect HealthCheckPassed"
  by (simp_all add: quiet_effect_def)

lemma response_effect_quiet: "response_effect e \<Longrightarrow> quiet_effect e"
  by (cases e) (simp_all add: quiet_effect_def)

lemma quiet_counts:
  assumes "list_all quiet_effect es"
  shows "filter is_acr es = []" "count_list es MessageDeleted = 0" "count_list es MessageCreated = 0"
    "list_all (\<lambda>e. \<not> parse_effect e) es"
  using assms by (auto simp: quiet_effect_def list_all_iff filter_empty_conv count_list_0_iff)

definition exchange_over :: "'w io \<Rightarrow> 'w io \<Rightarrow> bool" where
  "exchange_over s s' \<longleftrightarrow> pending s' = pending s \<and>
     (\<exists>es. trace s' = trace s @ es @ [MessageDeleted] \<and> list_all quiet_effect es)"

definition exchange_moved :: "ralf_transaction \<Rightarrow> 'w io \<Rightarrow> 'w io \<Rightarrow> bool" where
  "exchange_moved t s s' \<longleftrightarrow> pending s' = pending s @ [t] \<and> wf_transaction t \<and>
     (\<exists>es acr timeout. trace s' = trace s @ es @ [AcrSent acr timeout] \<and> list_all quiet_effect es)"

lemma exchange_after:
  assumes "trace u = trace s @ es" "list_all quiet_effect es" "pending u = pending s"
  shows "exchange_over u s' \<Longrightarrow> exchange_over s s'" "exchange_moved t u s' \<Longrightarrow> exchange_moved t s s'"
  using assms by (fastforce simp: exchange_over_def exchange_moved_def)+

lemma on_ccf_response_over: "exchange_over u (on_ccf_response env sm a n i c msg u)"
proof -
  obtain es where es: "trace (on_ccf_response env sm a n i c msg u) =
      trace u @ es @ (if a then [HealthCheckPassed] else []) @ [MessageDeleted]" "list_all response_effect es"
    using on_ccf_response_shape [of env sm a n i c msg u] by blast
  then have "list_all quiet_effect (es @ (if a then [HealthCheckPassed] else []))"
    by (auto simp: list_all_iff response_effect_quiet)
  with es(1) show ?thesis unfolding exchange_over_def by fastforce
qed

lemma send_cb_wf:
  assumes "wf_sender pm"
  shows "\<exists>s'. send_cb env sm pm code v sid s = Inr s' \<and> (exchange_over s s' \<or> (\<exists>t. exchange_moved t s s'))"
proof -
  obtain msg where msg: "pms_msg pm = Some msg" "has_event msg"
    using assms by (auto simp: wf_sender_def)
  consider "code \<noteq> ER_DIAMETER_UNABLE_TO_DELIVER"
    | "code = ER_DIAMETER_UNABLE_TO_DELIVER" "unat (pms_which (next_ccf pm)) < length (pms_ccfs pm)"
    | "code = ER_DIAMETER_UNABLE_TO_DELIVER" "\<not> unat (pms_which (next_ccf pm)) < length (pms_ccfs pm)"
    by blast
  then show ?thesis
  proof cases
    case 1
    then show ?thesis unfolding send_cb_dispatch [OF msg(1) 1] using on_ccf_response_over by fast
  next
    case 2
    have "wf_transaction (new_RalfTransaction (next_ccf pm) msg)"
      using msg 2(2) by (simp add: wf_transaction_def wf_sender_def new_RalfTransaction_def)
    with send_cb_next [OF assms msg(1) 2(2), of env sm v sid s] 2(1) show ?thesis
      by (fastforce simp: exchange_moved_def)
  next
    case 3
    let ?s1 = "emit (SasEvent (m_trail msg) BILLING_REQUEST_NOT_SENT []
         [pms_ccfs pm ! unat (pms_which pm)]) s"
    have "exchange_over s (on_ccf_response env sm False 0 '''' code msg ?s1)"
      by (rule exchange_after(1) [OF _ _ _ on_ccf_response_over]) (simp, simp, simp)
    with send_cb_exhausted [OF assms msg(1) 3(2), of env sm v sid s] 3(1) show ?thesis by simp
  qed
qed

section \<open>One callback\<close>

text \<open>
  Either the request is finished, and its message is freed exactly once, or exactly one new ACR
  is sent and a well-formed transaction is waiting for its answer.
\<close>

lemma callback_exchange:
  assumes "wf_transaction t"
    and "r = on_timeout env sm t s \<or> r = on_response env sm t rsp s"
  shows "\<exists>s'. r = Inr s' \<and> (exchange_over s s' \<or> (\<exists>t'. exchange_moved t' s s'))"
proof -
  have cb: "\<exists>s'. send_cb env sm (tsx_peer_sender t) code v sid u = Inr s' \<and>
      (exchange_over u s' \<or> (\<exists>t'. exchange_moved t' u s'))" for code v sid u
    using assms(1) by (intro send_cb_wf) (simp add: wf_transaction_def)
  from assms(2) show ?thesis
  proof
    assume "r = on_timeout env sm t s"
    with cb show ?thesis by (simp add: on_timeout_def)
  next
    assume "r = on_response env sm t rsp s"
    then obtain s' where "r = Inr s'" "exchange_over (answer_logged t rsp s) s' \<or>
        (\<exists>t'. exchange_moved t' (answer_logged t rsp s) s')"
      using cb by (metis on_response_send_cb)
    moreover have "\<exists>es. trace (answer_logged t rsp s) = trace s @ es \<and> list_all quiet_effect es"
      "pending (answer_logged t rsp s) = pending s" by (simp_all add: answer_logged_def)
    ultimately show ?thesis using exchange_after by blast
  qed
qed

lemma callback_outcome:
  assumes "wf_transaction t"
    and "r = on_timeout env sm t s \<or> r = on_response env sm t rsp s"
  shows "\<exists>s' es. r = Inr s' \<and> trace s' = trace s @ es \<and> count_list es MessageCreated = 0 \<and>
    (pending s' = pending s \<and> count_list es MessageDeleted = 1 \<and> filter is_acr es = [] \<or>
     (\<exists>t'. pending s' = pending s @ [t'] \<and> wf_transaction t' \<and>
        count_list es MessageDeleted = 0 \<and> length (filter is_acr es) = 1))"
proof -
  obtain s' where r: "r = Inr s'" "exchange_over s s' \<or> (\<exists>t'. exchange_moved t' s s')"
    using callback_exchange [OF assms] by blast
  from r(2) show ?thesis
  proof
    assume "exchange_over s s'"
    then obtain es where "pending s' = pending s" "trace s' = trace s @ es @ [MessageDeleted]"
      "list_all quiet_effect es" by (auto simp: exchange_over_def)
    with r(1) quiet_counts [of es] show ?thesis
      by (intro exI [of _ s'] exI [of _ "es @ [MessageDeleted]"]) simp
  next
    assume "\<exists>t'. exchange_moved t' s s'"
    then obtain t' es acr n where "pending s' = pending s @ [t']" "wf_transaction t'"
      "trace s' = trace s @ es @ [AcrSent acr n]" "list_all quiet_effect es"
      by (auto simp: exchange_moved_def)
    with r(1) quiet_counts [of es] show ?thesis
      by (intro exI [of _ s'] exI [of _ "es @ [AcrSent acr n]"]) simp
  qed
qed

definition sample_tsx :: ralf_transaction where
  "sample_tsx = new_RalfTransaction
     (first_sender sample_sm ((sample_msg 2)\<lparr>m_ccfs := [''ccf1'', ''ccf2'', ''ccf3'']\<rparr>))
     ((sample_msg 2)\<lparr>m_ccfs := [''ccf1'', ''ccf2'', ''ccf3'']\<rparr>)"

lemma sample_tsx_wf: "wf_transaction sample_tsx"
  by (simp add: wf_transaction_def wf_sender_def sample_tsx_def new_RalfTransaction_def first_sender_def)



section \<open>Failover\<close>

text \<open>
  The run in which no CCF can be reached: every transaction that is sent times out in turn. The
  first argument bounds the number of timeouts; one per CCF is enough.
\<close>

fun time_out_all :: "nat \<Rightarrow> 'w env \<Rightarrow> session_manager \<Rightarrow> ralf_transaction \<Rightarrow> 'w io \<Rightarrow> crash + 'w io" where
  "time_out_all 0 env sm t s = Inr s"
| "time_out_all (Suc n) env sm t s =
     (case on_timeout env sm t s of
        Inl c \<Rightarrow> Inl c
      | Inr s' \<Rightarrow> if length (pending s) < length (pending s')
                   then time_out_all n env sm (last (pending s')) s' else Inr s')"

definition acr_to :: "'w env \<Rightarrow> ralf_transaction \<Rightarrow> string \<Rightarrow> effect" where
  "acr_to env t ccf =
     AcrSent (AccountingRequest (avp_ok env) (m_session_id (tsx_msg t)) ccf
                (pms_dest_realm (tsx_peer_sender t)) (m_accounting_record_number (tsx_msg t))
                (json_at (m_received_json (tsx_msg t)) ''event''))
       (pms_diameter_timeout (tsx_peer_sender t))"

lemma on_timeout_next:
  assumes "wf_transaction t" "length (pms_ccfs (tsx_peer_sender t)) < 2 ^ 32"
    and "Suc (unat (pms_which (tsx_peer_sender t))) < length (pms_ccfs (tsx_peer_sender t))"
    and t': "t' = new_RalfTransaction (next_ccf (tsx_peer_sender t)) (tsx_msg t)"
  shows "\<exists>s' es. on_timeout env sm t s = Inr s' \<and> pending s' = pending s @ [t'] \<and> world s' = world s \<and>
      trace s' = trace s @ es @ [acr_to env t (pms_ccfs (tsx_peer_sender t) !
        Suc (unat (pms_which (tsx_peer_sender t))))] \<and> filter is_acr es = []"
    and "wf_transaction t'" "acr_to env t' = acr_to env t"
proof -
  let ?pm = "tsx_peer_sender t"
  have wf: "wf_sender ?pm" "pms_msg ?pm = Some (tsx_msg t)"
    using assms(1) by (simp_all add: wf_transaction_def)
  have which: "unat (pms_which (next_ccf ?pm)) = Suc (unat (pms_which ?pm))"
    using unat_next_ccf [of ?pm] assms(2,3) by simp
  show "\<exists>s' es. on_timeout env sm t s = Inr s' \<and> pending s' = pending s @ [t'] \<and> world s' = world s \<and>
      trace s' = trace s @ es @ [acr_to env t (pms_ccfs ?pm ! Suc (unat (pms_which ?pm)))] \<and>
      filter is_acr es = []"
    using send_cb_next [OF wf, of env sm 0 "''''" s] which assms(3)
    by (simp add: on_timeout_def acr_of_def acr_to_def t')
  show "wf_transaction t'"
    using wf which assms(3) by (auto simp: wf_transaction_def wf_sender_def t' new_RalfTransaction_def)
  show "acr_to env t' = acr_to env t"
    by (simp add: fun_eq_iff acr_to_def t' new_RalfTransaction_def)
qed

lemma on_timeout_last:
  assumes "wf_transaction t" "length (pms_ccfs (tsx_peer_sender t)) < 2 ^ 32"
    and "length (pms_ccfs (tsx_peer_sender t)) = Suc (unat (pms_which (tsx_peer_sender t)))"
  shows "\<exists>s' e. on_timeout env sm t s = Inr (on_ccf_response env sm False 0 '''' 3002 (tsx_msg t) s') \<and>
    world s' = world s \<and> trace s' = trace s @ [e] \<and> pending s' = pending s \<and> \<not> is_acr e"
proof -
  let ?pm = "tsx_peer_sender t"
  have wf: "wf_sender ?pm" "pms_msg ?pm = Some (tsx_msg t)"
    using assms by (simp_all add: wf_transaction_def)
  have "unat (pms_which (next_ccf ?pm)) = Suc (unat (pms_which ?pm))"
    using unat_next_ccf [of ?pm] assms by simp
  with send_cb_exhausted [OF wf, of env sm 0 "''''" s] assms(3) show ?thesis
    by (intro exI [of _ "emit (SasEvent (m_trail (tsx_msg t)) BILLING_REQUEST_NOT_SENT []
         [pms_ccfs ?pm ! unat (pms_which ?pm)]) s"])
       (simp add: on_timeout_def diameter_codes)
qed

lemma time_out_all_from:
  assumes "wf_transaction t" "length (pms_ccfs (tsx_peer_sender t)) < 2 ^ 32"
    and "length (pms_ccfs (tsx_peer_sender t)) = unat (pms_which (tsx_peer_sender t)) + Suc k"
  shows "\<exists>s'. time_out_all (Suc k) env sm t s = Inr (on_ccf_response env sm False 0 '''' 3002 (tsx_msg t) s') \<and>
    world s' = world s \<and> trace s' = trace s @ effects_of s s' \<and>
    filter is_acr (effects_of s s') =
      map (acr_to env t) (drop (Suc (unat (pms_which (tsx_peer_sender t)))) (pms_ccfs (tsx_peer_sender t)))"
  using assms
proof (induction k arbitrary: t s)
  case 0
  then have "length (pms_ccfs (tsx_peer_sender t)) = Suc (unat (pms_which (tsx_peer_sender t)))" by simp
  from on_timeout_last [OF 0(1,2) this, of env sm s] obtain s' e where
    "on_timeout env sm t s = Inr (on_ccf_response env sm False 0 '''' 3002 (tsx_msg t) s')"
    "world s' = world s" "trace s' = trace s @ [e]" "pending s' = pending s" "\<not> is_acr e" by blast
  with 0(3) show ?case by (intro exI [of _ s']) (simp add: effects_of_append)
next
  case (Suc k)
  let ?pm = "tsx_peer_sender t" and ?t' = "new_RalfTransaction (next_ccf (tsx_peer_sender t)) (tsx_msg t)"
  have lt: "Suc (unat (pms_which ?pm)) < length (pms_ccfs ?pm)" using Suc.prems(3) by simp
  note step = on_timeout_next [OF Suc.prems(1,2) lt refl]
  obtain s1 es where s1: "on_timeout env sm t s = Inr s1" "pending s1 = pending s @ [?t']"
    "world s1 = world s" "trace s1 = trace s @ es @ [acr_to env t (pms_ccfs ?pm ! Suc (unat (pms_which ?pm)))]"
    "filter is_acr es = []"
    using step(1) by blast
  have t': "tsx_peer_sender ?t' = next_ccf ?pm" "tsx_msg ?t' = tsx_msg t"
    "unat (pms_which (next_ccf ?pm)) = Suc (unat (pms_which ?pm))"
    using unat_next_ccf [of ?pm] Suc.prems(2) lt by (simp_all add: new_RalfTransaction_def)
  obtain s' where s': "time_out_all (Suc k) env sm ?t' s1 =
      Inr (on_ccf_response env sm False 0 '''' 3002 (tsx_msg t) s')"
    "world s' = world s1" "trace s' = trace s1 @ effects_of s1 s'"
    "filter is_acr (effects_of s1 s') = map (acr_to env t) (drop (Suc (Suc (unat (pms_which ?pm))))
        (pms_ccfs ?pm))"
    using Suc.IH [OF step(2), unfolded t' step(3), of s1] Suc.prems(2,3) by auto
  have tr: "trace s' = trace s @ es @
      acr_to env t (pms_ccfs ?pm ! Suc (unat (pms_which ?pm))) # effects_of s1 s'"
    using s'(3) s1(4) by simp
  have acr: "is_acr (acr_to env t c)" for c by (simp add: acr_to_def)
  have "filter is_acr (effects_of s s') =
      map (acr_to env t) (drop (Suc (unat (pms_which ?pm))) (pms_ccfs ?pm))"
    using effects_of_append [OF tr] s'(4) s1(5) acr
    by (simp add: Cons_nth_drop_Suc [OF lt, symmetric])
  moreover have "time_out_all (Suc (Suc k)) env sm t s =
      Inr (on_ccf_response env sm False 0 '''' 3002 (tsx_msg t) s')"
    using s1(1,2) s'(1) by (subst time_out_all.simps) simp
  ultimately show ?case
    using s1(3) s'(2) effects_of_append [OF tr] tr by (intro exI [of _ s']) (simp del: time_out_all.simps)
qed

text \<open>
  C16: if no CCF can be reached, the request is tried at every CCF of the list, once each and in
  the order of the list, always with the same session identifier and record number; then the
  session manager is told once that the request failed with 3002. The index does not wrap
  around as long as the list has fewer than $2^{32}$ entries.
\<close>

theorem failover_visits_every_ccf:
  assumes "wf_transaction t" "pms_which (tsx_peer_sender t) = 0"
    and "length (pms_ccfs (tsx_peer_sender t)) < 2 ^ 32"
  shows "\<exists>s'. time_out_all (length (pms_ccfs (tsx_peer_sender t))) env sm t s =
      Inr (on_ccf_response env sm False 0 '''' 3002 (tsx_msg t) s') \<and>
    world s' = world s \<and> trace s' = trace s @ effects_of s s' \<and>
    filter is_acr (effects_of s s') = map (acr_to env t) (tl (pms_ccfs (tsx_peer_sender t)))"
proof -
  have "pms_ccfs (tsx_peer_sender t) \<noteq> []" using assms(1) by (auto simp: wf_transaction_def wf_sender_def)
  then obtain k where k: "length (pms_ccfs (tsx_peer_sender t)) = Suc k"
    by (cases "pms_ccfs (tsx_peer_sender t)") auto
  with time_out_all_from [OF assms(1,3), of k env sm s] assms(2) show ?thesis by (simp add: drop_Suc)
qed

theorem failover_visits_every_ccf_witness:
  "\<exists>s'. time_out_all 3 ref_env sample_sm sample_tsx empty_io =
      Inr (on_ccf_response ref_env sample_sm False 0 '''' 3002 (tsx_msg sample_tsx) s') \<and>
    filter is_acr (effects_of empty_io s') =
        [acr_to ref_env sample_tsx ''ccf2'', acr_to ref_env sample_tsx ''ccf3'']"
proof -
  have "pms_ccfs (tsx_peer_sender sample_tsx) = [''ccf1'', ''ccf2'', ''ccf3'']"
    "pms_which (tsx_peer_sender sample_tsx) = 0"
    by (simp_all add: sample_tsx_def new_RalfTransaction_def first_sender_def)
  with failover_visits_every_ccf [OF sample_tsx_wf, of ref_env sample_sm empty_io] show ?thesis
    by (auto simp: numeral_3_eq_3 simp del: time_out_all.simps)
qed

end
