(* ===== verification/Handler_Properties.thy ===== *)
theory Handler_Properties
  imports Transaction_Properties Billing_Handler
begin

text \<open>
  What the HTTP front end promises: the messages it builds are the ones the session manager
  expects, each request gets exactly one reply, and every message that is created is either
  freed or waiting for an answer.
\<close>

section \<open>parse_body\<close>

text \<open>The messages \<open>parse_body\<close> builds.\<close>

definition wf_message :: "message \<Rightarrow> bool" where
  "wf_message msg \<longleftrightarrow>
     has_event msg \<and> isValid (m_record_type msg) \<and>
     (m_ccfs msg \<noteq> [] \<longleftrightarrow> isStart (m_record_type msg) \<or> isEvent (m_record_type msg)) \<and>
     fits_int32 (m_role msg) \<and> fits_int32 (m_function msg) \<and> m_session_id msg = '''' \<and>
     m_timer_id msg = '''' \<and> m_interim_interval msg = 0"

lemma collect_ccfs_nonempty: "collect_ccfs js = Some cs \<Longrightarrow> js \<noteq> [] \<Longrightarrow> cs \<noteq> []"
  by (cases js) (auto split: if_splits)

text \<open>The checks every request has to pass, and what is built from one that does.\<close>

definition event_ok :: "json \<Rightarrow> bool" where
  "event_ok body \<longleftrightarrow>
     IsObject body \<and> HasMember body ''event'' \<and> IsObject (json_at body ''event'') \<and>
     HasMember (json_at body ''event'') ''Service-Information'' \<and>
     IsObject (json_at (json_at body ''event'') ''Service-Information'') \<and>
     HasMember (json_at (json_at body ''event'') ''Service-Information'') ''IMS-Information'' \<and>
     IsObject (ims_information body) \<and>
     HasMember (ims_information body) ''Role-Of-Node'' \<and>
     IsInt (json_at (ims_information body) ''Role-Of-Node'') \<and>
     HasMember (ims_information body) ''Node-Functionality'' \<and>
     IsInt (json_at (ims_information body) ''Node-Functionality'') \<and>
     HasMember (json_at body ''event'') ''Accounting-Record-Type'' \<and>
     IsInt (json_at (json_at body ''event'') ''Accounting-Record-Type'') \<and>
     isValid (accounting_record_type (GetInt (json_at (json_at body ''event'') ''Accounting-Record-Type'')))"

definition body_record_type :: "json \<Rightarrow> AccountingRecordType" where
  "body_record_type body =
     accounting_record_type (GetInt (json_at (json_at body ''event'') ''Accounting-Record-Type''))"

definition body_refresh_time :: "json \<Rightarrow> u32" where
  "body_refresh_time body =
     (if HasMember (json_at body ''event'') ''Acct-Interim-Interval'' \<and>
         IsInt (json_at (json_at body ''event'') ''Acct-Interim-Interval'')
      then u32_of_int (GetInt (json_at (json_at body ''event'') ''Acct-Interim-Interval''))
      else 0)"

definition body_message :: "'w env \<Rightarrow> string \<Rightarrow> bool \<Rightarrow> json \<Rightarrow> trail_id \<Rightarrow> message" where
  "body_message env call_id ti body trail =
     new_Message (uninit_u32 env) call_id (GetInt (json_at (ims_information body) ''Role-Of-Node''))
       (GetInt (json_at (ims_information body) ''Node-Functionality'')) body (body_record_type body)
       (body_refresh_time body) trail ti"

definition incoming :: "json \<Rightarrow> trail_id \<Rightarrow> effect" where
  "incoming body trail = SasEvent trail INCOMING_REQUEST [art_code (body_record_type body),
     u32_of_int (GetInt (json_at (ims_information body) ''Node-Functionality''))] []"

lemma parse_body_rejects:
  "\<not> event_ok (parsed_body env reqbody) \<Longrightarrow>
     parse_body env call_id ti reqbody trail s =
         ((HTTP_BAD_REQUEST, None), emit DocumentDeleted (emit DocumentCreated s))"
  unfolding parse_body_def Let_def event_ok_def HasMember_def by presburger

lemma parse_body_accepts:
  assumes "event_ok (parsed_body env reqbody)"
  shows "parse_body env call_id ti reqbody trail s =
    (let body = parsed_body env reqbody; t = body_record_type body;
         s1 = emit (incoming body trail) (emit DocumentCreated s);
         msg = body_message env call_id ti body trail
     in if isStart t \<or> isEvent t then
          (if \<not> (HasMember body ''peers'' \<and> IsObject (json_at body ''peers''))
           then ((HTTP_OK, None), emit DocumentDeleted
                  (emit (SasEvent trail INCOMING_REQUEST_NO_PEERS [art_code t] []) s1))
           else if \<not> HasMember (json_at body ''peers'') ''ccf'' \<or>
                   \<not> IsArray (json_at (json_at body ''peers'') ''ccf'') \<or>
                   GetArray (json_at (json_at body ''peers'') ''ccf'') = []
           then ((HTTP_BAD_REQUEST, None), emit DocumentDeleted s1)
           else (case collect_ccfs (GetArray (json_at (json_at body ''peers'') ''ccf'')) of
                   None \<Rightarrow> ((HTTP_BAD_REQUEST, None), emit DocumentDeleted s1)
                 | Some ccfs \<Rightarrow> ((HTTP_OK, Some (if ccfs \<noteq> [] then msg\<lparr>m_ccfs := ccfs\<rparr> else msg)),
                     emit MessageCreated s1)))
        else ((HTTP_OK, Some msg), emit MessageCreated s1))"
  using assms
  unfolding parse_body_def Let_def event_ok_def HasMember_def body_message_def incoming_def
    body_record_type_def body_refresh_time_def built_message_def
  by (simp only: simp_thms if_False)

lemma body_message_wf:
  assumes "event_ok body"
  shows "has_event (body_message env call_id ti body trail)"
    "isValid (m_record_type (body_message env call_id ti body trail))"
    "fits_int32 (m_role (body_message env call_id ti body trail))"
    "fits_int32 (m_function (body_message env call_id ti body trail))"
    "m_ccfs (body_message env call_id ti body trail) = []"
  using assms
  by (auto simp: event_ok_def body_message_def new_Message_def has_event_def HasMember_def
      body_record_type_def GetInt_def elim!: IsIntE)

lemma body_message_simps [simp]:
  "m_call_id (body_message env call_id ti body trail) = call_id"
  "m_received_json (body_message env call_id ti body trail) = body"
  "m_record_type (body_message env call_id ti body trail) = body_record_type body"
  "m_timer_interim (body_message env call_id ti body trail) = ti"
  "m_trail (body_message env call_id ti body trail) = trail"
  "m_session_id (body_message env call_id ti body trail) = ''''"
  "m_timer_id (body_message env call_id ti body trail) = ''''"
  "m_interim_interval (body_message env call_id ti body trail) = 0"
  "m_session_refresh_time (body_message env call_id ti body trail) = body_refresh_time body"
  "m_role (body_message env call_id ti body trail) =
     GetInt (json_at (ims_information body) ''Role-Of-Node'')"
  "m_function (body_message env call_id ti body trail) =
     GetInt (json_at (ims_information body) ''Node-Functionality'')"
  by (simp_all add: body_message_def new_Message_def)

text \<open>The CCFs of a START or EVENT whose body has a peers object; \<open>None\<close> when it is rejected.\<close>

definition body_ccfs :: "json \<Rightarrow> string list option" where
  "body_ccfs body =
     (let ccf = json_at (json_at body ''peers'') ''ccf''
      in if HasMember (json_at body ''peers'') ''ccf'' \<and> IsArray ccf \<and> GetArray ccf \<noteq> []
         then collect_ccfs (GetArray ccf) else None)"

lemma body_ccfs_nonempty: "body_ccfs body = Some ccfs \<Longrightarrow> ccfs \<noteq> []"
  unfolding body_ccfs_def Let_def using collect_ccfs_nonempty by (metis option.discI)

lemma parse_body_peers:
  assumes "event_ok (parsed_body env reqbody)"
    and "isStart (body_record_type (parsed_body env reqbody)) \<or>
        isEvent (body_record_type (parsed_body env reqbody))"
    and "HasMember (parsed_body env reqbody) ''peers''" "IsObject (json_at (parsed_body env reqbody) ''peers'')"
  shows "parse_body env call_id ti reqbody trail s =
    (let body = parsed_body env reqbody; s1 = emit (incoming body trail) (emit DocumentCreated s)
     in case body_ccfs body of
          None \<Rightarrow> ((HTTP_BAD_REQUEST, None), emit DocumentDeleted s1)
        | Some ccfs \<Rightarrow>
            ((HTTP_OK, Some ((body_message env call_id ti body trail)\<lparr>m_ccfs :=
                ccfs\<rparr>)), emit MessageCreated s1))"
proof (cases "body_ccfs (parsed_body env reqbody)")
  case None
  then show ?thesis
    using parse_body_accepts [OF assms(1), of call_id ti trail s] assms(2-)
    by (auto simp: body_ccfs_def Let_def split: if_splits)
next
  case (Some ccfs)
  note body_ccfs_nonempty [OF this]
  with Some show ?thesis
    using parse_body_accepts [OF assms(1), of call_id ti trail s] assms(2-)
    by (auto simp: body_ccfs_def Let_def split: if_splits)
qed

text \<open>The three ways \<open>parse_body\<close> can end.\<close>

lemma parse_body_cases:
  obtains (message) msg s' where
      "parse_body env call_id ti reqbody trail s = ((HTTP_OK, Some msg), s')"
      "event_ok (parsed_body env reqbody)" "wf_message msg" "m_call_id msg = call_id"
      "m_timer_interim msg = ti" "m_trail msg = trail" "m_received_json msg = parsed_body env reqbody"
      "m_record_type msg = body_record_type (parsed_body env reqbody)"
      "s' = emit MessageCreated (emit (incoming (parsed_body env reqbody) trail) (emit DocumentCreated s))"
  | (no_peers) s' where
      "parse_body env call_id ti reqbody trail s = ((HTTP_OK, None), s')"
      "event_ok (parsed_body env reqbody)"
      "isStart (body_record_type (parsed_body env reqbody)) \<or>
          isEvent (body_record_type (parsed_body env reqbody))"
      "\<not> (HasMember (parsed_body env reqbody) ''peers'' \<and>
          IsObject (json_at (parsed_body env reqbody) ''peers''))"
      "s' = emit DocumentDeleted (emit (SasEvent trail INCOMING_REQUEST_NO_PEERS
              [art_code (body_record_type (parsed_body env reqbody))] [])
            (emit (incoming (parsed_body env reqbody) trail) (emit DocumentCreated s)))"
  | (bad) s' where
      "parse_body env call_id ti reqbody trail s = ((HTTP_BAD_REQUEST, None), s')"
      "s' = emit DocumentDeleted (emit DocumentCreated s) \<or>
       s' = emit DocumentDeleted (emit (incoming (parsed_body env reqbody) trail) (emit DocumentCreated s))"
proof (cases "event_ok (parsed_body env reqbody)")
  case False
  from parse_body_rejects [OF False] show ?thesis by (rule bad) simp
next
  case True
  let ?body = "parsed_body env reqbody" and ?s1 =
      "emit (incoming (parsed_body env reqbody) trail) (emit DocumentCreated s)"
  let ?msg = "body_message env call_id ti ?body trail"
  let ?first = "isStart (body_record_type ?body) \<or> isEvent (body_record_type ?body)"
  let ?peers = "HasMember ?body ''peers'' \<and> IsObject (json_at ?body ''peers'')"
  note eq = parse_body_accepts [OF True, of call_id ti trail s, unfolded Let_def]
  note wf = body_message_wf [OF True, of env call_id ti trail]
  consider "\<not> ?first" | "?first" "\<not> ?peers" | "?first" "?peers" by blast
  then show ?thesis
  proof cases
    case 1
    then have "wf_message ?msg" using wf by (simp add: wf_message_def)
    moreover have "parse_body env call_id ti reqbody trail s = ((HTTP_OK, Some ?msg), emit MessageCreated ?s1)"
      using eq 1 by (simp only: simp_thms if_False)
    ultimately show ?thesis by (intro message [OF _ True]) (assumption | simp)+
  next
    case 2
    with eq True show ?thesis by (intro no_peers) (simp_all only: simp_thms if_True)
  next
    case 3
    note eq = parse_body_peers [OF True 3(1), of call_id ti trail s]
    show ?thesis
    proof (cases "body_ccfs ?body")
      case None
      with eq 3(2) show ?thesis by (intro bad [OF _ disjI2]) simp_all
    next
      case (Some ccfs)
      note body_ccfs_nonempty [OF this]
      then have "wf_message (?msg\<lparr>m_ccfs := ccfs\<rparr>)" using wf 3(1) by (simp add: wf_message_def)
      moreover have "parse_body env call_id ti reqbody trail s =
          ((HTTP_OK, Some (?msg\<lparr>m_ccfs := ccfs\<rparr>)), emit MessageCreated ?s1)"
        using eq 3(2) Some by (simp add: Let_def)
      ultimately show ?thesis by (intro message [OF _ True]) (assumption | simp)+
    qed
  qed
qed


text \<open>A START with two CCFs, in the text form of the reference environment.\<close>

definition sample_body :: json where
  "sample_body = JObject
     [(''peers'', JObject [(''ccf'', JArray [JString ''ccf1'', JString ''ccf2''])]),
      (''event'', JObject
        [(''Accounting-Record-Type'', JInt 2), (''Acct-Interim-Interval'', JInt 300),
         (''Service-Information'', JObject
           [(''IMS-Information'', JObject
              [(''Role-Of-Node'', JInt 1), (''Node-Functionality'', JInt 5)])])])]"

lemma parsed_body_plain:
  "json_text_ok env \<Longrightarrow> plain_json j \<Longrightarrow> parsed_body env (json_write env j) = j"
  by (simp add: parsed_body_def json_text_roundtrip json_text_ok_def c_str_id)

lemma parsed_sample_body: "parsed_body ref_env (json_write ref_env sample_body) = sample_body"
  by (rule parsed_body_plain [OF ref_env_json(1)]) (simp add: sample_body_def fits_int32_def)

lemma sample_body_ok: "event_ok sample_body" "body_record_type sample_body = accounting_record_type 2"
  by (simp_all add: event_ok_def sample_body_def json_simps ims_information_def fits_int32_def
      record_type_defs accounting_record_type_def body_record_type_def)


section \<open>handle, seen from the front end\<close>

lemma fresh_sender_wf:
  "m_ccfs msg \<noteq> [] \<Longrightarrow> has_event msg \<Longrightarrow> wf_transaction (new_RalfTransaction (first_sender sm msg) msg)"
  by (simp add: wf_transaction_def wf_sender_def new_RalfTransaction_def first_sender_def)

text \<open>What a call of \<open>handle\<close> can have done when it returns.\<close>

definition disposed :: "'w io \<Rightarrow> 'w io \<Rightarrow> bool" where
  "disposed s s' \<longleftrightarrow> (\<exists>es. trace s' = trace s @ es \<and> pending s' = pending s \<and>
     count_list es MessageDeleted = 1 \<and> list_all (\<lambda>e. \<not> is_acr e \<and> \<not> is_reply e \<and> \<not> parse_effect e) es)"

definition forwarded :: "'w io \<Rightarrow> 'w io \<Rightarrow> bool" where
  "forwarded s s' \<longleftrightarrow> (\<exists>es t. trace s' = trace s @ es \<and> pending s' = pending s @ [t] \<and> wf_transaction t \<and>
     count_list es MessageDeleted = 0 \<and> length (filter is_acr es) = 1 \<and>
     list_all (\<lambda>e. \<not> is_reply e \<and> \<not> parse_effect e) es)"

lemma send_to_peer_forwarded:
  assumes "send_to_peer env sm msg s2 = Inr s'" "extends stop_effect s s2" "pending s2 = pending s"
  shows "forwarded s s'"
proof -
  note p = send_to_peer_Inr [OF assms(1)]
  obtain es where es: "trace s2 = trace s @ es" "list_all stop_effect es"
    using assms(2) by (auto simp: extends_def)
  have "filter is_acr es = []" using es(2) by (rule list_all_filter_none) (rule stop_effect_kinds)
  moreover have "count_list es MessageDeleted = 0"
    using es(2) by (auto simp: list_all_iff count_list_0_iff)
  moreover have "list_all (\<lambda>e. \<not> is_reply e \<and> \<not> parse_effect e) es"
    using es(2) stop_effect_kinds(2,4) by (fastforce simp: list_all_iff)
  ultimately show ?thesis
    using p es(1) assms(3) fresh_sender_wf [OF p(1,2), of sm] unfolding forwarded_def
    by (intro exI [of _ "es @ effects_of s2 s'"]
        exI [of _ "new_RalfTransaction (first_sender sm msg) msg"]) simp
qed

lemma handle_outcome:
  assumes "handle env sm msg s = Some (Inr s')"
  shows "disposed s s' \<or> forwarded s s'"
proof (cases "isInterim (m_record_type msg) \<or> isStop (m_record_type msg)")
  case False
  with assms have "send_to_peer env sm (msg\<lparr>m_accounting_record_number := 1\<rparr>) s = Inr s'"
    by (subst (asm) handle.simps) simp
  then show ?thesis using send_to_peer_forwarded by blast
next
  case True
  from assms True show ?thesis
  proof (rule handle_returned_cases)
    fix s1 assume s1: "extends store_effect s s1" "pending s1 = pending s" "s' = emit MessageDeleted s1"
    then obtain es where es: "trace s1 = trace s @ es" "list_all store_effect es" by (auto simp: extends_def)
    have "count_list es MessageDeleted = 0" using es(2) by (auto simp: list_all_iff count_list_0_iff)
    moreover have "list_all (\<lambda>e. \<not> is_acr e \<and> \<not> is_reply e \<and> \<not> parse_effect e) es"
      using es(2) store_effect_kinds(1,3,5) by (fastforce simp: list_all_iff)
    ultimately have "disposed s s'"
      unfolding disposed_def using es(1) s1 by (intro exI [of _ "es @ [MessageDeleted]"]) simp
    then show ?thesis by blast
  next
    fix x new s1 s2
    assume s: "extends store_effect s s1" "pending s1 = pending s"
      "update_stores env sm msg (bump_session x) new s1 = Some (Proceed s2)"
      "send_to_peer env sm (fill_from_session msg (bump_session x)) s2 = Inr s'"
    have "extends stop_effect s s2" "pending s2 = pending s"
      using update_stores_Proceed [OF s(3)] extends_stop [OF s(1)] s(2) by (auto intro: extends_trans)
    from send_to_peer_forwarded [OF s(4) this] show ?thesis by blast
  qed
qed

section \<open>billing_run\<close>

text \<open>What a request can have done when its task is over.\<close>

definition served :: "'w io \<Rightarrow> 'w io \<Rightarrow> http_code \<Rightarrow> bool" where
  "served s s' code \<longleftrightarrow> (\<exists>es ts. trace s' = trace s @ es @ [HttpReply code] \<and> filter is_reply es = [] \<and>
     pending s' = pending s @ ts \<and> list_all wf_transaction ts \<and>
     count_list es MessageCreated = count_list es MessageDeleted + length ts \<and>
     count_list es DocumentCreated = count_list es DocumentDeleted + count_list es MessageCreated \<and>
     length (filter is_acr es) = length ts)"

lemma disposed_counts:
  assumes "disposed s s'"
  obtains es where "trace s' = trace s @ es" "pending s' = pending s" "filter is_reply es = []"
    "filter is_acr es = []" "list_all (\<lambda>e. \<not> parse_effect e) es" "count_list es MessageDeleted = 1"
  using assms by (fastforce simp: disposed_def list_all_iff filter_empty_conv)

lemma forwarded_counts:
  assumes "forwarded s s'"
  obtains es t where "trace s' = trace s @ es" "pending s' = pending s @ [t]" "wf_transaction t"
    "filter is_reply es = []" "length (filter is_acr es) = 1" "list_all (\<lambda>e. \<not> parse_effect e) es"
    "count_list es MessageDeleted = 0"
  using assms by (fastforce simp: forwarded_def list_all_iff filter_empty_conv)

lemma handle_served:
  assumes "handle env sm msg s2 = Some (Inr s3)"
    and "trace s2 = trace s @ pre @ [MessageCreated]" "pending s2 = pending s"
    and "filter is_reply pre = []" "filter is_acr pre = []"
    and "count_list pre MessageCreated = 0" "count_list pre MessageDeleted = 0"
    and "count_list pre DocumentCreated = Suc (count_list pre DocumentDeleted)"
  shows "served s (emit (HttpReply code) s3) code"
  using handle_outcome [OF assms(1)]
proof
  assume "disposed s2 s3"
  then obtain es where "trace s3 = trace s2 @ es" "pending s3 = pending s2" "filter is_reply es = []"
    "filter is_acr es = []" "list_all (\<lambda>e. \<not> parse_effect e) es" "count_list es MessageDeleted = 1"
    by (rule disposed_counts)
  then show ?thesis using assms(2-) unfolding served_def
    by (intro exI [of _ "pre @ MessageCreated # es"] exI [of _ "[]"])
       (simp add: no_parse_effects)
next
  assume "forwarded s2 s3"
  then obtain es t where "trace s3 = trace s2 @ es" "pending s3 = pending s2 @ [t]" "wf_transaction t"
    "filter is_reply es = []" "length (filter is_acr es) = 1" "list_all (\<lambda>e. \<not> parse_effect e) es"
    "count_list es MessageDeleted = 0"
    by (rule forwarded_counts)
  then show ?thesis using assms(2-) unfolding served_def
    by (intro exI [of _ "pre @ MessageCreated # es"] exI [of _ "[t]"])
       (simp add: no_parse_effects)
qed

text \<open>The events logged before the body is parsed.\<close>

definition opening_events :: "http_request \<Rightarrow> trail_id \<Rightarrow> effect list" where
  "opening_events req trail =
     (if req_param req TIMER_INTERIM_PARAM = ''true''
      then [SasMarker trail (req_file req), SasEvent trail INTERIM_TIMER_POPPED [] []] else [])"

lemma opening_events_kinds [simp]:
  "filter is_reply (opening_events req trail) = []" "filter is_acr (opening_events req trail) = []"
  "count_list (opening_events req trail) MessageCreated = 0"
  "count_list (opening_events req trail) MessageDeleted = 0"
  "count_list (opening_events req trail) DocumentCreated = 0"
  "count_list (opening_events req trail) DocumentDeleted = 0"
  by (simp_all add: opening_events_def)

definition task_state :: "http_request \<Rightarrow> trail_id \<Rightarrow> 'w io \<Rightarrow> 'w io" where
  "task_state req trail s =
     (if req_param req TIMER_INTERIM_PARAM = ''true''
      then emit (SasEvent trail INTERIM_TIMER_POPPED [] []) (emit (SasMarker trail (req_file req)) s) else s)"

lemma task_state_simps [simp]:
  "trace (task_state req trail s) = trace s @ opening_events req trail"
  "pending (task_state req trail s) = pending s" "world (task_state req trail s) = world s"
  by (simp_all add: task_state_def opening_events_def)

lemma billing_run_post:
  assumes "req_method req = POST"
    and "parse_body env (req_file req) (req_param req TIMER_INTERIM_PARAM = ''true'') (req_rx_body req)
           trail (task_state req trail s) = ((rc, parsed), s2)"
  shows "billing_run env sm req trail s =
    (if rc \<noteq> HTTP_OK
     then Some (Inr (emit (HttpReply rc) (emit (SasEvent trail REQUEST_REJECTED_INVALID_JSON [] []) s2)))
     else case parsed of
            None \<Rightarrow> Some (Inr (emit (HttpReply rc) s2))
          | Some msg \<Rightarrow> map_option (map_sum id (emit (HttpReply rc))) (handle env sm msg s2))"
  using assms by (simp add: billing_run_def task_state_def Let_def)

lemma served_quietly:
  assumes "trace s' = trace s @ es @ [HttpReply code]" "pending s' = pending s"
    and "filter is_reply es = []" "filter is_acr es = []"
    and "count_list es MessageCreated = 0" "count_list es MessageDeleted = 0"
    and "count_list es DocumentCreated = count_list es DocumentDeleted"
  shows "served s s' code"
  unfolding served_def using assms by (intro exI [of _ es] exI [of _ "[]"]) simp

lemma billing_run_served:
  assumes "billing_run env sm req trail s = Some (Inr s')"
  shows "\<exists>code. served s s' code \<and>
    (if req_method req = POST then code = HTTP_OK \<or> code = HTTP_BAD_REQUEST
     else code = HTTP_METHOD_NOT_ALLOWED \<and> s' = emit (HttpReply code) s)"
proof (cases "req_method req = POST")
  case False
  then have "s' = emit (HttpReply HTTP_METHOD_NOT_ALLOWED) s"
    using assms by (simp add: billing_run_def)
  with False show ?thesis
    by (intro exI [of _ HTTP_METHOD_NOT_ALLOWED]) (simp add: served_quietly [of _ _ "[]"])
next
  case True
  let ?s1 = "task_state req trail s" and ?ti = "req_param req TIMER_INTERIM_PARAM = ''true''"
  let ?inc = "incoming (parsed_body env (req_rx_body req)) trail"
  have inc: "\<not> is_reply ?inc" "\<not> is_acr ?inc" "?inc \<noteq> MessageCreated" "?inc \<noteq> MessageDeleted"
      "?inc \<noteq> DocumentCreated" "?inc \<noteq> DocumentDeleted"
    by (simp_all add: incoming_def)
  show ?thesis
  proof (rule parse_body_cases [of env "req_file req" ?ti "req_rx_body req" trail ?s1])
    fix msg s2
    assume p: "parse_body env (req_file req) ?ti (req_rx_body req) trail ?s1 = ((HTTP_OK, Some msg), s2)"
      and s2: "s2 = emit MessageCreated (emit ?inc (emit DocumentCreated ?s1))"
    from assms billing_run_post [OF True p, of sm] obtain s3 where
      h: "handle env sm msg s2 = Some (Inr s3)" "s' = emit (HttpReply HTTP_OK) s3"
      by (auto simp: map_option_case map_sum_def split: option.splits sum.splits)
    have "served s (emit (HttpReply HTTP_OK) s3) HTTP_OK"
      by (rule handle_served [OF h(1), of s "opening_events req trail @ [DocumentCreated, ?inc]"])
         (simp_all add: s2 inc)
    with h(2) True show ?thesis by auto
  next
    fix s2
    assume p: "parse_body env (req_file req) ?ti (req_rx_body req) trail ?s1 = ((HTTP_OK, None), s2)"
      and s2: "s2 = emit DocumentDeleted (emit (SasEvent trail INCOMING_REQUEST_NO_PEERS
              [art_code (body_record_type (parsed_body env (req_rx_body req)))] [])
            (emit ?inc (emit DocumentCreated ?s1)))"
    from assms billing_run_post [OF True p, of sm] have "s' = emit (HttpReply HTTP_OK) s2" by simp
    with s2 have "served s s' HTTP_OK"
      by (intro served_quietly [of _ _ "opening_events req trail @
          [DocumentCreated, ?inc, _, DocumentDeleted]"]) (auto simp: inc)
    with True show ?thesis by auto
  next
    fix s2
    assume p: "parse_body env (req_file req) ?ti (req_rx_body req) trail ?s1 = ((HTTP_BAD_REQUEST, None), s2)"
      and s2: "s2 = emit DocumentDeleted (emit DocumentCreated ?s1) \<or>
        s2 = emit DocumentDeleted (emit ?inc (emit DocumentCreated ?s1))"
    let ?es = "opening_events req trail @ DocumentCreated #
      (if s2 = emit DocumentDeleted (emit DocumentCreated ?s1) then [] else [?inc]) @
      [DocumentDeleted, SasEvent trail REQUEST_REJECTED_INVALID_JSON [] []]"
    from assms billing_run_post [OF True p, of sm]
    have "s' = emit (HttpReply HTTP_BAD_REQUEST) (emit (SasEvent trail REQUEST_REJECTED_INVALID_JSON [] []) s2)"
      by (simp add: HTTP_OK_def HTTP_BAD_REQUEST_def)
    with s2 have "served s s' HTTP_BAD_REQUEST"
      by (intro served_quietly [of _ _ ?es]) (auto simp: inc)
    with True show ?thesis by auto
  qed
qed

text \<open>
  C24: a request that is served gets exactly one HTTP reply, and it is the last thing its task
  does, after any ACR has been handed to the Diameter stack. A request that is not a POST gets 405 and
  has no other effect at all; a POST gets 200 or 400. Every message the request created has been
  freed or has a well-formed transaction waiting, one for each ACR that was sent; every JSON
  document has been deleted by the task or belongs to a message.
\<close>

theorem one_reply_per_request:
  assumes "billing_run env sm req trail s = Some (Inr s')"
  shows "\<exists>es ts code. trace s' = trace s @ es @ [HttpReply code] \<and> filter is_reply es = [] \<and>
    (if req_method req = POST then code = 200 \<or> code = 400
     else code = 405 \<and> es = [] \<and> world s' = world s) \<and>
    pending s' = pending s @ ts \<and> list_all wf_transaction ts \<and>
    count_list es MessageCreated = count_list es MessageDeleted + length ts \<and>
    count_list es DocumentCreated = count_list es DocumentDeleted + count_list es MessageCreated \<and>
    length (filter is_acr es) = length ts"
proof -
  obtain code where c: "served s s' code" "if req_method req = POST then code = HTTP_OK \<or> code =
      HTTP_BAD_REQUEST
     else code = HTTP_METHOD_NOT_ALLOWED \<and> s' = emit (HttpReply code) s"
    using billing_run_served [OF assms] by blast
  from c(1) obtain es ts where "trace s' = trace s @ es @ [HttpReply code]" "filter is_reply es = []"
     "pending s' = pending s @ ts" "list_all wf_transaction ts"
     "count_list es MessageCreated = count_list es MessageDeleted + length ts"
     "count_list es DocumentCreated = count_list es DocumentDeleted + count_list es MessageCreated"
     "length (filter is_acr es) = length ts"
    unfolding served_def by blast
  with c(2) show ?thesis
    by (intro exI [of _ es] exI [of _ ts] exI [of _ code])
       (auto simp: HTTP_OK_def HTTP_BAD_REQUEST_def HTTP_METHOD_NOT_ALLOWED_def)
qed

definition sample_request :: http_request where
  "sample_request = \<lparr>req_method = POST, req_param = (\<lambda>_. ''''), req_file = ''call'',
     req_rx_body = json_write ref_env sample_body\<rparr>"

lemma sample_parse:
  obtains msg s' where
    "parse_body ref_env ''call'' False (json_write ref_env sample_body) 9 empty_io = ((HTTP_OK, Some msg), s')"
    "wf_message msg" "isStart (m_record_type msg)"
proof (rule parse_body_cases [of ref_env "''call''" False "json_write ref_env sample_body" 9 empty_io])
  fix msg s'
  assume "parse_body ref_env ''call'' False (json_write ref_env sample_body) 9 empty_io =
      ((HTTP_OK, Some msg), s')"
    "wf_message msg" "m_record_type msg =
        body_record_type (parsed_body ref_env (json_write ref_env sample_body))"
  then show ?thesis using that by (simp add: parsed_sample_body sample_body_ok)
next
  fix s'
  assume "\<not> (HasMember (parsed_body ref_env (json_write ref_env sample_body)) ''peers'' \<and>
    IsObject (json_at (parsed_body ref_env (json_write ref_env sample_body)) ''peers''))"
  then show ?thesis by (simp add: parsed_sample_body) (simp add: sample_body_def json_simps)
next
  fix s'
  assume "parse_body ref_env ''call'' False (json_write ref_env sample_body) 9 empty_io =
      ((HTTP_BAD_REQUEST, None), s')"
  then show ?thesis
    by (subst (asm) parse_body_accepts)
       (simp_all add: parsed_sample_body sample_body_ok HTTP_OK_def HTTP_BAD_REQUEST_def,
        simp add: sample_body_def json_simps split: if_splits)
qed

lemma start_handled:
  assumes "wf_message msg" "isStart (m_record_type msg) \<or> isEvent (m_record_type msg)"
  shows "\<exists>s'. handle env sm msg s = Some (Inr s')"
proof -
  have "\<not> isInterim (m_record_type msg)" "\<not> isStop (m_record_type msg)"
    using assms(2) record_type_exclusive(7,8,10,11) by blast+
  then show ?thesis using assms by (subst handle.simps) (simp add: send_to_peer_cases wf_message_def)
qed

theorem one_reply_per_request_witness:
  "\<exists>s' es code. billing_run ref_env sample_sm sample_request 9 empty_io = Some (Inr s') \<and>
     trace s' = es @ [HttpReply code] \<and> filter is_reply es = []"
proof -
  obtain msg s1 where p: "parse_body ref_env ''call'' False (json_write ref_env sample_body) 9 empty_io =
      ((HTTP_OK, Some msg), s1)" and m: "wf_message msg" "isStart (m_record_type msg)"
    by (rule sample_parse)
  obtain s2 where "handle ref_env sample_sm msg s1 = Some (Inr s2)" using start_handled m by blast
  with p have r: "billing_run ref_env sample_sm sample_request 9 empty_io =
      Some (Inr (emit (HttpReply HTTP_OK) s2))"
    by (simp add: billing_run_def sample_request_def)
  from one_reply_per_request [OF r] r show ?thesis by (auto simp: empty_io_def)
qed

text \<open>
  C36: a START or EVENT request always returns and never runs into undefined behaviour. An INTERIM
  or STOP request that returns can do so in one way only: a store returned a session
  with an empty CCF list, whose first element the peer message sender then reads.
\<close>

theorem undefined_behaviour_only_without_ccfs:
  assumes "wf_message msg" "handle env sm msg s = Some (Inl c)"
  shows "c = VectorIndexOutOfRange \<and> \<not> isStart (m_record_type msg) \<and> \<not> isEvent (m_record_type msg) \<and>
    (\<exists>s0 x new s1. extends store_effect s s0 \<and> find_session env sm msg s0 = ((Some x, new), s1) \<and> s_ccf x = [])"
proof -
  have kind: "isInterim (m_record_type msg) \<or> isStop (m_record_type msg)"
    using assms start_handled [of msg env sm s] isValid_cases [of "m_record_type msg"]
    by (auto simp: wf_message_def)
  obtain s0 where s0: "extends store_effect s s0" "last_attempt env sm msg s0 (Inl c)"
    using handle_last_attempt [OF assms(2) kind] by blast
  from last_attempt_Inl [OF s0(2)] obtain x new s1 s2 where
    x: "find_session env sm msg s0 = ((Some x, new), s1)"
    "send_to_peer env sm (fill_from_session msg (bump_session x)) s2 = Inl c"
    by blast
  from x(2) assms(1) have "c = VectorIndexOutOfRange" "s_ccf x = []"
    by (auto simp: send_to_peer_cases wf_message_def split: if_splits)
  with s0(1) x(1) kind record_type_exclusive show ?thesis by blast
qed

text \<open>A store that holds a session without CCFs, which no request of Ralf's own would leave there.\<close>

definition bare_session :: session where
  "bare_session = new_Session\<lparr>s_session_refresh_time := 300\<rparr>"

definition bare_store :: "mem_world io" where
  "bare_store = snd (set_session_data ref_env 0 ''call'' 0 0 bare_session True empty_io)"

definition interim_msg :: message where
  "interim_msg = (sample_msg 3)\<lparr>m_ccfs := []\<rparr>"

lemma bare_run:
  "handle ref_env (sample_sm\<lparr>remote_stores := []\<rparr>) interim_msg bare_store = Some (Inl VectorIndexOutOfRange)"
proof -
  let ?sm = "sample_sm\<lparr>remote_stores := []\<rparr>" and ?key = "create_key ''call'' 0 0"
  have k: "msg_key interim_msg = ?key" "isInterim (m_record_type interim_msg)"
    unfolding msg_key_def by (simp_all add: interim_msg_def)
  obtain rc s' where p: "set_session_data ref_env 0 ''call'' 0 0 bare_session True empty_io = (rc, s')"
    by fastforce
  have "durable bare_session" by (simp add: durable_def bare_session_def new_Session_def)
  with register_put_commits [OF ref_register_ok, of 0 "''call''" 0 0 bare_session True empty_io rc s'] p
  obtain c where c: "session_at ref 0 bare_store ?key = Some ((stored_view bare_session)\<lparr>s_cas := c\<rparr>)"
    by (auto simp: entry_absent_empty bare_store_def)
  let ?x = "(stored_view bare_session)\<lparr>s_cas := c\<rparr>"
  have d: "durable ?x" by (simp add: durable_def stored_view_def bare_session_def)
  have "first_session ref (all_stores ?sm) bare_store (msg_key interim_msg) = Some ?x"
    using c k(1) by simp
  with ref_register_ok obtain new s1 where f: "find_session ref_env ?sm interim_msg bare_store =
      ((Some ?x, new), s1)"
    and new: "new \<longleftrightarrow> session_at ref 0 bare_store ?key = None" and same: "same_stores ref bare_store s1"
    by (rule find_session_found) (simp add: k)
  have at: "session_at ref 0 s1 ?key = Some ?x" using c same by (simp add: same_storesD)
  have u: "\<exists>s2. interim_update (fst ref) ?sm interim_msg (bump_session ?x) new s1 = Some (Proceed s2) \<and>
    (\<forall>st. st \<notin> set (local_store ?sm # remote_stores ?sm) \<longrightarrow> session_at ref st s2 = session_at ref st s1) \<and>
    (\<forall>st \<in> set (local_store ?sm # remote_stores ?sm). holds_session ref st s2 (msg_key interim_msg)
       (interim_session (bump_session ?x) (session_at ref st s1 (msg_key interim_msg))))"
    by (rule interim_update_register [OF ref_register_ok])
       (use at new c d in \<open>simp_all add: k store_ready_def\<close>)
  then obtain s2 where "interim_update ref_env ?sm interim_msg (bump_session ?x) new s1 = Some (Proceed s2)"
    by auto
  with f k(2) show ?thesis
    by (subst handle.simps)
       (simp add: update_stores_def send_to_peer_cases,
           simp add: stored_view_def bare_session_def new_Session_def)
qed

theorem undefined_behaviour_only_without_ccfs_witness:
  "\<exists>s0 x new s1. extends store_effect bare_store s0 \<and>
     find_session ref_env (sample_sm\<lparr>remote_stores := []\<rparr>) interim_msg s0 = ((Some x, new), s1) \<and> s_ccf x = []"
proof -
  have "wf_message interim_msg"
    by (simp add: wf_message_def interim_msg_def fits_int32_def sample_msg_def new_Message_def
        has_event_def json_simps record_type_defs accounting_record_type_def)
  from undefined_behaviour_only_without_ccfs [OF this bare_run] show ?thesis by blast
qed

end
