(* ===== verification/Thread_Accounting.thy ===== *)
theory Thread_Accounting
  imports Ralf_Threads Handler_Properties
begin

text \<open>
  Who owns the messages and the JSON documents. A message, and with it the document it was built from,
  belongs to the thread that works on it until it is freed or handed to the Diameter stack with its
  transaction; when the stack calls back it belongs to the calling thread. The account is kept step by
  step, so it holds under every interleaving.
\<close>

section \<open>Pools of threads\<close>

text \<open>
  Two contracts of a thread's step. In the first, what the shared state owes changes by what the
  thread takes or gives back; in the second, the step keeps an invariant of the shared state and one of
  the thread. Both carry over from one thread to any position of a list of threads.
\<close>

locale thread_ledger =
  fixes step :: "'t \<times> 's \<Rightarrow> 't option \<times> 's"
    and level :: "'s \<Rightarrow> int"
    and held :: "'t \<Rightarrow> int"
  assumes step_level: "step (t, s) = (r, s') \<Longrightarrow> level s' - (case r of None \<Rightarrow> 0 | Some t' \<Rightarrow> held t') =
      level s - held t"
begin

lemma pool_replace:
  assumes "i < length ts" "step (ts ! i, s) = (Some t, s')"
  shows "level s' - sum_list (map held (ts[i := t])) = level s - sum_list (map held ts)"
proof -
  have "sum_list (map held (ts[i := t])) = sum_list (map held ts) + held t - held (ts ! i)"
    by (subst (2) id_take_nth_drop [OF assms(1)]) (simp add: upd_conv_take_nth_drop [OF assms(1)])
  with step_level [OF assms(2)] show ?thesis by simp
qed

lemma pool_remove:
  assumes "i < length ts" "step (ts ! i, s) = (None, s')"
  shows "level s' - sum_list (map held (take i ts @ drop (Suc i) ts)) = level s - sum_list (map held ts)"
proof -
  have "sum_list (map held ts) = sum_list (map held (take i ts @ drop (Suc i) ts)) + held (ts ! i)"
    by (subst id_take_nth_drop [OF assms(1)]) simp
  with step_level [OF assms(2)] show ?thesis by simp
qed

end

locale thread_contract =
  fixes step :: "'t \<times> 's \<Rightarrow> 't option \<times> 's"
    and shared :: "'s \<Rightarrow> bool"
    and own :: "'t \<Rightarrow> bool"
  assumes step_keeps: "step (t, s) = (r, s') \<Longrightarrow> shared s \<Longrightarrow> own t \<Longrightarrow> shared s' \<and> (\<forall>t'. r = Some t' \<longrightarrow> own t')"
begin

lemma pool_keeps:
  assumes "i < length ts" "step (ts ! i, s) = (r, s')" "shared s" "list_all own ts"
  shows "shared s'" "r = Some t \<Longrightarrow> list_all own (ts[i := t])" "list_all own (take i ts @ drop (Suc i) ts)"
proof -
  have k: "shared s'" "\<And>t'. r = Some t' \<Longrightarrow> own t'"
    using step_keeps [OF assms(2,3)] assms(1,4) by (auto simp: list_all_length)
  show "shared s'" by (rule k(1))
  show "r = Some t \<Longrightarrow> list_all own (ts[i := t])"
    using k(2) assms(4) by (auto simp: list_all_iff dest!: set_update_subset_insert [THEN subsetD])
  show "list_all own (take i ts @ drop (Suc i) ts)"
    using assms(4) by (auto simp: list_all_iff dest: in_set_takeD in_set_dropD)
qed

end

section \<open>Objects that live as long as a message\<close>

text \<open>
  A kind of object is counted with a weight for each effect: what the effect adds to the objects that
  exist. The objects owed are those that exist and that no outstanding transaction accounts for.
\<close>

definition owed :: "(effect \<Rightarrow> int) \<Rightarrow> 'w io \<Rightarrow> int" where
  "owed weight s = sum_list (map weight (trace s)) - int (length (pending s))"

fun message_held :: "thread \<Rightarrow> int" where
  "message_held (HttpThread msg (Returned None)) = 0"
| "message_held (HttpThread msg pc) = 1"
| "message_held (AnswerThread a AnswerDone) = 0"
| "message_held (AnswerThread a pc) = 1"
| "message_held (CrashedThread c) = 1"

lemma owed_emit [simp]: "owed weight (emit e s) = owed weight s + weight e"
  by (simp add: owed_def)

lemma owed_world [simp]: "owed weight (s\<lparr>world := w\<rparr>) = owed weight s"
  by (simp add: owed_def)

lemma owed_called [simp]: "owed weight (called w e s) = owed weight s + weight e"
  by (simp add: owed_def)

text \<open>What happens between the parsing of a request and the end of its message.\<close>

definition exchange_effect :: "effect \<Rightarrow> bool" where
  "exchange_effect e \<longleftrightarrow> quiet_effect e \<or> is_acr e"

lemma store_exchange_effect: "store_effect e \<Longrightarrow> exchange_effect e"
  using store_response_effect response_effect_quiet by (auto simp: exchange_effect_def)

lemma response_exchange_effect: "response_effect e \<Longrightarrow> exchange_effect e"
  using response_effect_quiet by (auto simp: exchange_effect_def)

lemma exchange_effect_simps [simp]:
  "exchange_effect (SasEvent trail event ns strs)" "exchange_effect (AcrSent acr n)"
  "exchange_effect (TimerDelete i)" "exchange_effect (SasMarker trail i)"
  "exchange_effect HealthCheckPassed"
  by (simp_all add: exchange_effect_def quiet_effect_def)

lemma store_write_pending [simp]:
  "pending (snd (set_session_data env st call role func x new s)) = pending s"
  "pending (snd (delete_session_data env st call role func s)) = pending s"
  by (cases "set_session_data env st call role func x new s",
      cases "delete_session_data env st call role func s", simp add: store_op_traces)+

text \<open>The start of an answer: SAS and Chronos only, and the thread does not finish.\<close>

lemma renew_step_effects:
  assumes "renew_step env sm n msg log s = (pc, s')"
  shows "extends response_effect s s' \<and> pending s' = pending s \<and> pc \<noteq> AnswerDone"
proof -
  obtain i s1 where c: "send_chronos_update env (m_timer_id msg) n (m_session_refresh_time msg)
      (callback_uri env msg) (create_opaque_data env msg) s = (i, s1)" by fastforce
  have "extends response_effect s s1" "pending s1 = pending s"
    using send_chronos_update_trace [OF c] by (auto simp: extends_def)
  with assms c show ?thesis by (auto simp: renew_step_def split: if_splits)
qed

lemma answer_begin_effects:
  assumes "answer_begin env sm a s = (pc, s')"
  shows "extends response_effect s s'" "pending s' = pending s" "pc \<noteq> AnswerDone"
proof -
  let ?s1 = "sas_log_ccf_response (a_accepted a) (a_session_id a) (a_msg a) s"
  have 1: "extends response_effect s ?s1" "pending ?s1 = pending s" by auto
  have "extends response_effect s s' \<and> pending s' = pending s \<and> pc \<noteq> AnswerDone"
  proof (rule answer_begin_cases [of env sm a s])
    assume "answer_begin env sm a s =
      renew_step env sm (effective_interval (a_interim_interval a) (a_msg a)) (a_msg a) (a_accepted a) ?s1"
    with assms renew_step_effects 1 extends_trans [OF 1(1)] show ?thesis by metis
  next
    let ?n = "effective_interval (a_interim_interval a) (a_msg a)"
    assume b: "answer_begin env sm a s = (let (timer_id, s2) = start_timer env ?n (a_msg a) ?s1
        in (SetStarted (started_session ?n (a_session_id a) timer_id (a_msg a)) (local_store sm #
            remote_stores sm), s2))"
    obtain i s2 where t: "start_timer env ?n (a_msg a) ?s1 = (i, s2)" by fastforce
    from b t assms start_timer_effects [OF t] extends_trans [OF 1(1)] 1(2) show ?thesis by auto
  qed (use assms 1 in auto)
  then show "extends response_effect s s'" "pending s' = pending s" "pc \<noteq> AnswerDone" by simp_all
qed

text \<open>
  The contract of such objects: a request that is accepted creates one and keeps it, a request that
  is not creates none that stays, \<open>delete msg\<close> frees one, and nothing else matters.
\<close>

locale object_count =
  fixes weight :: "effect \<Rightarrow> int"
  assumes exchange: "exchange_effect e \<Longrightarrow> weight e = 0"
    and reply: "is_reply e \<Longrightarrow> weight e = 0"
    and freed: "weight MessageDeleted = - 1"
    and accepted: "weight DocumentCreated + weight MessageCreated = 1"
    and refused: "weight DocumentCreated + weight DocumentDeleted = 0"
begin

lemma owed_extends:
  assumes "extends exchange_effect s s'"
  shows "owed weight s' = owed weight s + int (length (pending s)) - int (length (pending s'))"
proof -
  obtain es where es: "trace s' = trace s @ es" "list_all exchange_effect es"
    using assms by (auto simp: extends_def)
  have "sum_list (map weight es) = 0"
    using es(2) by (induction es) (simp_all add: exchange)
  with es(1) show ?thesis by (simp add: owed_def)
qed

lemma owed_store:
  "extends store_effect s s' \<Longrightarrow> pending s' = pending s \<Longrightarrow> owed weight s' = owed weight s"
  using owed_extends [OF extends_mono [OF _ store_exchange_effect]] by fastforce

lemma owed_get [simp]:
  "get_session_data env st call role func trail s = (r, s') \<Longrightarrow> owed weight s' = owed weight s"
  using get_session_data_effects(1,2) owed_store by metis

lemma owed_set [simp]:
  "set_session_data env st call role func x new s = (rc, s') \<Longrightarrow> owed weight s' = owed weight s"
  by (simp add: owed_def store_op_traces exchange store_exchange_effect)

lemma owed_delete [simp]:
  "delete_session_data env st call role func s = (rc, s') \<Longrightarrow> owed weight s' = owed weight s"
  "delete_session_data_cas env st call role func x s = (rc, s') \<Longrightarrow> owed weight s' = owed weight s"
  by (simp_all add: owed_def store_op_traces exchange store_exchange_effect)

lemma owed_write_snd [simp]:
  "owed weight (snd (set_session_data env st call role func x new s)) = owed weight s"
  "owed weight (snd (delete_session_data env st call role func s)) = owed weight s"
  by (cases "set_session_data env st call role func x new s",
      cases "delete_session_data env st call role func s", simp)+

lemma owed_sent: "send_to_peer env sm m s = Inr s' \<Longrightarrow> owed weight s' = owed weight s - 1"
  by (auto simp: send_to_peer_cases owed_def exchange split: option.splits if_splits)

lemma owed_timer [simp]: "owed weight (delete_timer env i s) = owed weight s"
  by (simp add: delete_timer_def exchange split: prod.split)

lemma owed_answer_begin: "answer_begin env sm a s = (pc, s') \<Longrightarrow> owed weight s' = owed weight s"
  using owed_extends [OF extends_mono [OF answer_begin_effects(1) response_exchange_effect]]
    answer_begin_effects(2) by fastforce

text \<open>Every step of a thread balances.\<close>

lemma task_step_owed:
  assumes "task_step env sm msg (pc, s) = (pc', s')" "pc \<notin> range Returned"
  shows "owed weight s' - message_held (HttpThread msg pc') = owed weight s - 1"
  using assms
  by (cases "(env, sm, msg, (pc, s))" rule: task_step.cases)
     (auto simp: session_found_def owed_sent freed split: prod.splits option.splits if_splits sum.splits)

lemma answer_step_owed:
  assumes "answer_step env sm a (pc, s) = (pc', s')" "pc \<noteq> AnswerDone"
  shows "owed weight s' - message_held (AnswerThread a pc') = owed weight s - 1"
proof (cases pc)
  case AnswerStart
  with assms answer_begin_effects(3) owed_answer_begin show ?thesis
    by (cases pc') fastforce+
next
  case (SetStarted x sts)
  with assms show ?thesis by (cases sts) auto
next
  case (DeleteGone sts)
  with assms show ?thesis by (cases sts) auto
next
  case (NextTimer i sts)
  with assms show ?thesis by (cases sts) (auto split: prod.splits option.splits)
next
  case (SetTimer i x st sts)
  with assms show ?thesis by auto
qed (use assms in \<open>auto simp: freed exchange\<close>)

end

lemma message_held_running:
  "pc \<notin> range Returned \<Longrightarrow> message_held (HttpThread msg pc) = 1"
  "apc \<noteq> AnswerDone \<Longrightarrow> message_held (AnswerThread a apc) = 1"
  by (cases pc; auto) (cases apc; auto)

lemma thread_step_running:
  "pc \<notin> range Returned \<Longrightarrow> thread_step env sm (HttpThread msg pc, s) =
     map_prod (\<lambda>pc. Some (HttpThread msg pc)) id (task_step env sm msg (pc, s))"
  "apc \<noteq> AnswerDone \<Longrightarrow> thread_step env sm (AnswerThread a apc, s) =
     map_prod (\<lambda>pc. Some (AnswerThread a pc)) id (answer_step env sm a (apc, s))"
  by (cases pc; auto simp: map_prod_def simp del: task_step.simps)
     (cases apc; auto simp: map_prod_def simp del: answer_step.simps)

text \<open>The points of a thread, for proofs about its next step.\<close>

lemma thread_cases:
  obtains (replied) msg where "t = HttpThread msg (Returned None)"
  | (failed) msg c where "t = HttpThread msg (Returned (Some c))"
  | (running) msg pc where "t = HttpThread msg pc" "pc \<notin> range Returned"
  | (answering) a pc where "t = AnswerThread a pc" "pc \<noteq> AnswerDone"
  | (left) a where "t = AnswerThread a AnswerDone"
  | (crashed) c where "t = CrashedThread c"
proof (cases t)
  case (HttpThread msg pc)
  then show thesis using replied failed running by (metis not_None_eq rangeE)
next
  case (AnswerThread a pc)
  then show thesis using answering left by metis
qed (rule crashed)

sublocale object_count \<subseteq> ledger: thread_ledger "thread_step env sm" "owed weight" message_held
  for env :: "'w env" and sm
proof
  fix t r and s s' :: "'w io"
  assume step: "thread_step env sm (t, s) = (r, s')"
  show "owed weight s' - (case r of None \<Rightarrow> 0 | Some t' \<Rightarrow> message_held t') = owed weight s - message_held t"
  proof (cases t rule: thread_cases)
    case (running msg pc)
    obtain pc' s1 where "task_step env sm msg (pc, s) = (pc', s1)" by fastforce
    with running step task_step_owed [OF this] message_held_running(1) show ?thesis
      by (auto simp: thread_step_running)
  next
    case (answering a pc)
    obtain pc' s1 where "answer_step env sm a (pc, s) = (pc', s1)" by fastforce
    with answering step answer_step_owed [OF this] message_held_running(2) show ?thesis
      by (auto simp: thread_step_running)
  qed (use step reply in auto)
qed

section \<open>The process\<close>

lemma last_thread_step:
  assumes "thread_step env sm (t, s) = (r, s')"
  shows "process_step env sm other (ts @ [t], s) (ts @ (case r of None \<Rightarrow> [] | Some t' \<Rightarrow> [t']), s')"
  using process_step.thread [of "length ts" "ts @ [t]" env sm s r s' other] assms
  by (cases r) (simp_all add: put_thread_def)

lemma take_pending_simps [simp]:
  "trace (take_pending i s) = trace s" "world (take_pending i s) = world s"
  "pending (take_pending i s) = take i (pending s) @ drop (Suc i) (pending s)"
  by (simp_all add: take_pending_def)

lemma take_pending_all: "list_all P (pending s) \<Longrightarrow> list_all P (pending (take_pending i s))"
  by (auto simp: list_all_iff dest: in_set_takeD in_set_dropD)

lemma owed_take_pending: "i < length (pending s) \<Longrightarrow> owed weight (take_pending i s) = owed weight s + 1"
  by (simp add: owed_def)

text \<open>What a thread does until the session manager is called.\<close>

lemma billing_accept_quiet:
  assumes "billing_accept env req trail s = (r, s')"
  shows "pending s' = pending s" "world s' = world s" "r = Some msg \<Longrightarrow> wf_message msg"
proof -
  have "pending s' = pending s \<and> world s' = world s \<and> (\<forall>msg. r = Some msg \<longrightarrow> wf_message msg)"
  proof (cases "req_method req = POST")
    case False
    with assms show ?thesis by (auto simp: billing_accept_def)
  next
    case True
    let ?ti = "req_param req TIMER_INTERIM_PARAM = ''true''"
    show ?thesis
      by (rule parse_body_cases [of env "req_file req" ?ti "req_rx_body req" trail "task_state req trail s"])
         (use assms True in \<open>auto simp: billing_accept_def task_state_def [symmetric] HTTP_OK_def
            HTTP_BAD_REQUEST_def\<close>)
  qed
  then show "pending s' = pending s" "world s' = world s" "r = Some msg \<Longrightarrow> wf_message msg" by auto
qed

context object_count
begin

lemma put_thread_ledger:
  assumes "i < length ts" "thread_step env sm (ts ! i, s) = (r, s')"
  shows "owed weight s' - sum_list (map message_held (put_thread i r ts)) =
    owed weight s - sum_list (map message_held ts)"
  using ledger.pool_replace [OF assms(1), of env sm s _ s']
    ledger.pool_remove [OF assms(1), of env sm s s'] assms(2)
  by (cases r) (auto simp: put_thread_def)

lemma billing_accept_owed:
  assumes "billing_accept env req trail s = (r, s')"
  shows "owed weight s' = owed weight s + sum_list (map message_held (accepted_threads r))"
proof (cases "req_method req = POST")
  case False
  with assms show ?thesis by (auto simp: billing_accept_def accepted_threads_def reply)
next
  case True
  let ?ti = "req_param req TIMER_INTERIM_PARAM = ''true''"
  have start: "message_held (HttpThread msg (task_start msg)) = 1" for msg by (simp add: task_start_def)
  have owed: "owed weight (task_state req trail s) = owed weight s"
    by (simp add: task_state_def exchange)
  note unf = billing_accept_def True task_state_def [symmetric] accepted_threads_def start incoming_def
    exchange reply
  show ?thesis
    by (rule parse_body_cases [of env "req_file req" ?ti "req_rx_body req" trail "task_state req trail s"])
       (use assms owed accepted refused in
         \<open>auto simp: unf HTTP_OK_def HTTP_BAD_REQUEST_def simp del: message_held.simps\<close>)
qed

end

text \<open>
  A callback on a well-formed transaction: the answer goes to the session manager with the message
  of the transaction, or the request goes to the next CCF with a well-formed transaction.
\<close>

lemma send_cb_begin_wf:
  assumes "wf_transaction t"
  obtains a s' where "send_cb_begin env (tsx_peer_sender t) code v sid s = Answered a s'"
      "a_msg a = tsx_msg t" "world s' = world s" "pending s' = pending s" "extends exchange_effect s s'"
  | t' s' where "send_cb_begin env (tsx_peer_sender t) code v sid s = Resent s'"
      "wf_transaction t'" "tsx_msg t' = tsx_msg t" "world s' = world s" "pending s' = pending s @ [t']"
      "extends exchange_effect s s'"
proof -
  let ?pm = "tsx_peer_sender t" and ?msg = "tsx_msg t"
  have wf: "wf_sender ?pm" "pms_msg ?pm = Some ?msg" "has_event ?msg"
      "unat (pms_which ?pm) < length (pms_ccfs ?pm)"
    using assms by (auto simp: wf_transaction_def wf_sender_def)
  show ?thesis
  proof (cases "code = ER_DIAMETER_UNABLE_TO_DELIVER \<and> unat (pms_which (next_ccf ?pm)) < length (pms_ccfs ?pm)")
    case True
    let ?t' = "new_RalfTransaction (next_ccf ?pm) ?msg"
    have w: "wf_sender (next_ccf ?pm)" using wf True by (simp add: wf_sender_def)
    have m: "pms_msg (next_ccf ?pm) = Some ?msg" using wf(2) by simp
    have "wf_transaction ?t'" using w m by (simp add: wf_transaction_def new_RalfTransaction_def)
    moreover obtain s' where i: "int_send_msg env (next_ccf ?pm)
        (emit (SasEvent (m_trail ?msg) CDF_FAILOVER [] [pms_ccfs ?pm ! unat (pms_which (next_ccf ?pm))])
          (emit (SasEvent (m_trail ?msg) BILLING_REQUEST_NOT_SENT [] [pms_ccfs ?pm ! unat (pms_which
              ?pm)]) s)) =
        Inr s'" using int_send_msg_returns_iff_wf [of env "next_ccf ?pm"] w by blast
    moreover have "world s' = world s" "pending s' = pending s @ [?t']" "extends exchange_effect s s'"
      using i [unfolded int_send_msg_wf [OF w m]] by (auto simp: extends_def)
    moreover have "send_cb_begin env ?pm code v sid s = Resent s'"
      using True wf i by (simp add: send_cb_begin_def next_ccf_def Let_def)
    ultimately show ?thesis using that(2) by (simp add: new_RalfTransaction_def)
  next
    case False
    with wf that(1) show ?thesis
      by (cases "code = ER_DIAMETER_UNABLE_TO_DELIVER")
         (auto simp: send_cb_begin_def next_ccf_def ccf_answer_def extends_def)
  qed
qed

lemma callback_begin_wf:
  assumes "wf_transaction t" "cb = on_response_begin env t rsp s \<or> cb = on_timeout_begin env t s"
  obtains a s' where "cb = Answered a s'" "a_msg a = tsx_msg t" "world s' = world s"
      "pending s' = pending s" "extends exchange_effect s s'"
  | t' s' where "cb = Resent s'" "wf_transaction t'" "tsx_msg t' = tsx_msg t" "world s' = world s"
      "pending s' = pending s @ [t']" "extends exchange_effect s s'"
proof -
  obtain code v sid s1 where c: "cb = send_cb_begin env (tsx_peer_sender t) code v sid s1"
    "world s1 = world s" "pending s1 = pending s" "extends exchange_effect s s1"
    using assms(2) by (auto simp: on_response_begin_def on_timeout_begin_def Let_def extends_def)
  show ?thesis
    by (rule send_cb_begin_wf [OF assms(1), of env code v sid s1])
       (use c that extends_trans [OF c(4)] in metis)+
qed

text \<open>Steps of threads that have reached the session manager add only well-formed transactions.\<close>

lemma task_step_pending:
  assumes "task_step env sm msg (pc, s) = (pc', s')"
  shows "pending s' = pending s \<or>
    (\<exists>t'. pending s' = pending s @ [t'] \<and> wf_transaction t' \<and> pc = SendAcr (tsx_msg t'))"
proof (cases "\<exists>m. pc = SendAcr m")
  case True
  then obtain m where m: "pc = SendAcr m" by blast
  show ?thesis
  proof (cases "send_to_peer env sm m s")
    case (Inr s2)
    note p = send_to_peer_Inr [OF this]
    have "wf_transaction (new_RalfTransaction (first_sender sm m) m)" by (rule fresh_sender_wf [OF p(1,2)])
    with p(6) m assms Inr show ?thesis by (auto simp: new_RalfTransaction_def)
  qed (use m assms in auto)
next
  case False
  with assms show ?thesis
    by (cases "(env, sm, msg, (pc, s))" rule: task_step.cases)
       (auto simp: delete_timer_def store_op_traces get_session_data_effects(2)
          split: prod.splits option.splits if_splits)
qed

lemma answer_step_pending:
  assumes "answer_step env sm a (pc, s) = (pc', s')"
  shows "pending s' = pending s"
proof (cases pc)
  case AnswerStart
  with assms answer_begin_effects(2) show ?thesis by fastforce
next
  case (SetStarted x sts)
  with assms show ?thesis by (cases sts) auto
next
  case (DeleteGone sts)
  with assms show ?thesis by (cases sts) auto
next
  case (NextTimer i sts)
  with assms get_session_data_effects(2) show ?thesis
    by (cases sts) (auto split: prod.splits option.splits)
next
  case (SetTimer i x st sts)
  with assms show ?thesis by auto
qed (use assms in auto)

lemma thread_step_pending:
  assumes "thread_step env sm (t, s) = (r, s')"
  shows "pending s' = pending s \<or>
    (\<exists>m t'. pending s' = pending s @ [t'] \<and> wf_transaction t' \<and> t = HttpThread m (SendAcr (tsx_msg t')))"
proof (cases t rule: thread_cases)
  case (running msg pc)
  obtain pc' s1 where step: "task_step env sm msg (pc, s) = (pc', s1)" by fastforce
  with running assms task_step_pending [OF step] show ?thesis by (auto simp: thread_step_running)
next
  case (answering a pc)
  obtain pc' s1 where step: "answer_step env sm a (pc, s) = (pc', s1)" by fastforce
  with answering assms answer_step_pending [OF step] show ?thesis by (auto simp: thread_step_running)
qed (use assms in auto)

section \<open>The invariant of the process\<close>

definition process_accounted :: "(effect \<Rightarrow> int) \<Rightarrow> thread list \<Rightarrow> 'w io \<Rightarrow> bool" where
  "process_accounted weight ts s \<longleftrightarrow>
     owed weight s = sum_list (map message_held ts) \<and> list_all wf_transaction (pending s)"

context object_count
begin

lemma callback_accounted:
  assumes "process_accounted weight ts s" "i < length (pending s)"
    and "cb = on_response_begin env (pending s ! i) rsp (take_pending i s) \<or>
         cb = on_timeout_begin env (pending s ! i) (take_pending i s)"
  shows "process_accounted weight (ts @ callback_threads cb) (callback_state cb (take_pending i s))"
proof -
  have all: "list_all wf_transaction (pending s)" using assms(1) by (simp add: process_accounted_def)
  have t: "wf_transaction (pending s ! i)" using all assms(2) by (simp add: list_all_length)
  note rest = take_pending_all [OF all, of i]
  note owed = owed_take_pending [OF assms(2), of weight]
  show ?thesis
  proof (rule callback_begin_wf [OF t assms(3)])
    fix a s'
    assume "cb = Answered a s'" "pending s' = pending (take_pending i s)"
      "extends exchange_effect (take_pending i s) s'"
    with owed_extends [of "take_pending i s" s'] assms(1) rest owed show ?thesis
      by (simp add: process_accounted_def)
  next
    fix t' s'
    assume "cb = Resent s'" "wf_transaction t'" "pending s' = pending (take_pending i s) @ [t']"
      "extends exchange_effect (take_pending i s) s'"
    with owed_extends [of "take_pending i s" s'] assms(1) rest owed show ?thesis
      by (simp add: process_accounted_def)
  qed
qed

lemma process_step_accounted:
  assumes "process_step env sm other (ts, s) (ts', s')" "process_accounted weight ts s"
  shows "process_accounted weight ts' s'"
  using assms(1)
proof (cases rule: process_step_cases)
  case (request req trail r)
  with billing_accept_owed [OF request(2)] billing_accept_quiet(1) [OF request(2)] assms(2) show ?thesis
    by (simp add: process_accounted_def)
next
  case (response i rsp cb)
  with callback_accounted [OF assms(2)] show ?thesis by auto
next
  case (timeout i cb)
  with callback_accounted [OF assms(2)] show ?thesis by auto
next
  case (thread i r)
  have "owed weight s' = sum_list (map message_held ts')"
    using put_thread_ledger [OF thread(2,3)] thread(1) assms(2) by (simp add: process_accounted_def)
  with thread_step_pending [OF thread(3)] assms(2) show ?thesis by (auto simp: process_accounted_def)
next
  case (elsewhere w)
  with assms(2) show ?thesis by (simp add: process_accounted_def)
qed

lemma reachable_process_accounted:
  assumes "process_reachable env sm other ts s"
  shows "process_accounted weight ts s"
  using assms
proof (induction rule: process_reachable_induct)
  case (start s)
  then show ?case by (simp add: process_accounted_def initial_def owed_def)
next
  case (step ts s ts' s')
  then show ?case by (rule process_step_accounted [rotated])
qed

end

section \<open>Messages and documents\<close>

text \<open>
  Two kinds of object have this contract: the messages themselves, and the JSON documents, which
  \<open>parse_body\<close> creates and deletes itself unless a message takes them over, and which go with their
  message (\<open>Message::~Message\<close>).
\<close>

fun message_weight :: "effect \<Rightarrow> int" where
  "message_weight MessageCreated = 1"
| "message_weight MessageDeleted = - 1"
| "message_weight _ = 0"

fun document_weight :: "effect \<Rightarrow> int" where
  "document_weight DocumentCreated = 1"
| "document_weight DocumentDeleted = - 1"
| "document_weight MessageDeleted = - 1"
| "document_weight _ = 0"

interpretation message_count: object_count message_weight
proof
  show "exchange_effect e \<Longrightarrow> message_weight e = 0" "is_reply e \<Longrightarrow> message_weight e = 0" for e
    by (cases e; simp add: exchange_effect_def quiet_effect_def)+
qed simp_all

interpretation document_count: object_count document_weight
proof
  show "exchange_effect e \<Longrightarrow> document_weight e = 0" "is_reply e \<Longrightarrow> document_weight e = 0" for e
    by (cases e; simp add: exchange_effect_def quiet_effect_def)+
qed simp_all

lemma owed_messages:
  "owed message_weight s = int (count_list (trace s) MessageCreated) -
     int (count_list (trace s) MessageDeleted) - int (length (pending s))"
proof -
  have "sum_list (map message_weight es) =
      int (count_list es MessageCreated) - int (count_list es MessageDeleted)" for es
  proof (induction es)
    case (Cons e es)
    then show ?case by (cases e) simp_all
  qed simp
  then show ?thesis by (simp add: owed_def)
qed

lemma owed_documents:
  "owed document_weight s = int (count_list (trace s) DocumentCreated) -
     int (count_list (trace s) DocumentDeleted) - int (count_list (trace s) MessageDeleted) -
     int (length (pending s))"
proof -
  have "sum_list (map document_weight es) = int (count_list es DocumentCreated) -
      int (count_list es DocumentDeleted) - int (count_list es MessageDeleted)" for es
  proof (induction es)
    case (Cons e es)
    then show ?case by (cases e) simp_all
  qed simp
  then show ?thesis by (simp add: owed_def)
qed

definition holds_message :: "thread \<Rightarrow> bool" where
  "holds_message t \<longleftrightarrow> message_held t = 1"

lemma sum_message_held: "sum_list (map message_held ts) = int (length (filter holds_message ts))"
proof -
  have "message_held t = (if holds_message t then 1 else 0)" for t
    by (cases t rule: message_held.cases) (simp_all add: holds_message_def)
  then show ?thesis by (induction ts) auto
qed

end
