(* ===== verification/Store_Invariant.thy ===== *)
theory Store_Invariant
  imports Handler_Properties
begin

text \<open>
  The invariant that keeps the peer message sender inside its CCF list: every session in every
  store has at least one CCF. It holds over stores that keep the register contract and are
  written by Ralf alone, because sessions are created from START messages only and every later
  write copies the list. The store operations keep it here; the steps of the threads, in theory
  Thread_Properties.
\<close>

definition stores_good :: "'w register \<Rightarrow> 'w io \<Rightarrow> bool" where
  "stores_good e s \<longleftrightarrow> (\<forall>st key x. session_at e st s key = Some x \<longrightarrow> s_ccf x \<noteq> [])"

lemma stores_goodD: "stores_good e s \<Longrightarrow> session_at e st s key = Some x \<Longrightarrow> s_ccf x \<noteq> []"
  by (simp add: stores_good_def)

lemma stores_good_world: "world s' = world s \<Longrightarrow> stores_good e s' = stores_good e s"
  by (simp add: stores_good_def session_at_def)

lemma stores_good_view:
  "(\<And>st. snd e st (world s') = snd e st (world s)) \<Longrightarrow> stores_good e s \<Longrightarrow> stores_good e s'"
  by (simp add: stores_good_def session_at_def)

section \<open>The store operations\<close>

text \<open>What any write to one key of one store can have done.\<close>

lemma stores_good_write:
  assumes "stores_good e s"
    and "\<And>a. a \<noteq> st \<Longrightarrow> snd e a (world s') = snd e a (world s)"
    and "snd e st (world s') = (snd e st (world s))(key := v) \<or> snd e st (world s') = snd e st (world s)"
    and "\<And>d c x. v = Some (d, c) \<Longrightarrow> d \<noteq> [] \<Longrightarrow> deserialize_session (fst e) d = Some x \<Longrightarrow> s_ccf x \<noteq> []"
  shows "stores_good e s'"
  unfolding stores_good_def
proof (intro allI impI)
  fix a k x assume x: "session_at e a s' k = Some x"
  show "s_ccf x \<noteq> []"
  proof (cases "snd e a (world s') k = snd e a (world s) k")
    case True
    with x have "session_at e a s k = Some x" by (simp add: session_at_def)
    with assms(1) show ?thesis by (rule stores_goodD)
  next
    case False
    with assms(2) have "a = st" by metis
    with False assms(3) have "k = key" "snd e a (world s') k = v" by (metis fun_upd_apply)+
    with x assms(4) show ?thesis
      by (auto simp: session_at_def split: option.splits if_splits)
  qed
qed

lemma set_session_data_good:
  assumes "register_ok e" "stores_good e s" "s_ccf x \<noteq> []"
    and p: "set_session_data (fst e) st call role func x new s = (rc, s')"
  shows "stores_good e s'"
proof -
  note law = cas_store_set [OF register_okD(1) [OF assms(1)] set_session_data_world [OF p]]
  let ?key = "create_key call role func"
  have read: "s_ccf y \<noteq> []" if "deserialize_session (fst e) (serialize_session (fst e) x) = Some y" for y
    using that assms(3) deserialize_serialize [OF register_okD(2,3) [OF assms(1)]]
    by (auto simp: stored_view_def)
  consider v where "snd e st (world s') = (snd e st (world s))(?key := v)"
      "v = None \<or> (\<exists>c. v = Some (serialize_session (fst e) x, c))"
    | "snd e st (world s') = snd e st (world s)"
    using law(2,5) by blast
  then show ?thesis
  proof cases
    case 1
    show ?thesis
      by (rule stores_good_write [OF assms(2) law(1), where key = ?key and v = v]) (use 1 read in auto)
  next
    case 2
    then show ?thesis
      by (intro stores_good_write [OF assms(2) law(1), where key = ?key and v = None]) auto
  qed
qed

lemma delete_cas_good:
  assumes "register_ok e" "stores_good e s"
    and p: "delete_session_data_cas (fst e) st call role func x s = (rc, s')"
  shows "stores_good e s'"
proof -
  note law = cas_store_set [OF register_okD(1) [OF assms(1)] delete_cas_world [OF p]]
  let ?key = "create_key call role func"
  consider v where "snd e st (world s') = (snd e st (world s))(?key := v)"
      "v = None \<or> (\<exists>c. v = Some ([], c))"
    | "snd e st (world s') = snd e st (world s)"
    using law(2,5) by blast
  then show ?thesis
  proof cases
    case 1
    show ?thesis
      by (rule stores_good_write [OF assms(2) law(1), where key = ?key and v = v]) (use 1 in auto)
  next
    case 2
    then show ?thesis
      by (intro stores_good_write [OF assms(2) law(1), where key = ?key and v = None]) auto
  qed
qed

lemma delete_good:
  assumes "register_ok e" "stores_good e s"
    and p: "delete_session_data (fst e) st call role func s = (rc, s')"
  shows "stores_good e s'"
proof -
  note law = cas_store_delete [OF register_okD(1) [OF assms(1)] delete_world [OF p]]
  show ?thesis
    by (rule stores_good_write [OF assms(2) law(2), where key = "create_key call role func" and v =
        None]) (use law(3) in auto)
qed

lemma get_good:
  assumes "register_ok e" "stores_good e s"
    and p: "get_session_data (fst e) st call role func trail s = (r, s')"
  shows "stores_good e s'" "r = Some x \<Longrightarrow> s_ccf x \<noteq> []"
  using stores_good_view [OF register_get(2) [OF assms(1) p] assms(2)]
    register_get(1) [OF assms(1) p] stores_goodD [OF assms(2)] by auto

section \<open>Outstanding transactions\<close>

text \<open>The transactions such a system waits for: well-formed, for a message with CCFs.\<close>

definition good_transaction :: "ralf_transaction \<Rightarrow> bool" where
  "good_transaction t \<longleftrightarrow> wf_transaction t \<and> m_ccfs (tsx_msg t) \<noteq> []"

definition good_state :: "'w register \<Rightarrow> 'w io \<Rightarrow> bool" where
  "good_state e s \<longleftrightarrow> stores_good e s \<and> list_all good_transaction (pending s)"

lemma good_state_emit [simp]: "good_state e (emit x s) = good_state e s"
  using stores_good_world [of "emit x s" s e] by (simp add: good_state_def)

lemma send_to_peer_good:
  assumes "good_state e s" "m_ccfs msg \<noteq> []" "has_event msg"
  obtains s' where "send_to_peer (fst e) sm msg s = Inr s'" "good_state e s'"
proof -
  obtain s' where s': "send_to_peer (fst e) sm msg s = Inr s'"
    using assms by (simp add: send_to_peer_cases)
  note p = send_to_peer_Inr [OF s']
  have "good_transaction (new_RalfTransaction (first_sender sm msg) msg)"
    using fresh_sender_wf [OF assms(2,3)] assms(2) by (simp add: good_transaction_def new_RalfTransaction_def)
  with p(3,6) assms(1) stores_good_world [of s' s e] have "good_state e s'" by (simp add: good_state_def)
  with s' that show ?thesis by blast
qed

end
