(* ===== verification/Thread_Properties.thy ===== *)
theory Thread_Properties
  imports Thread_Accounting Store_Invariant
begin

text \<open>
  The properties of the process with all its threads: who owns the messages, that an answer thread
  does what \<open>on_ccf_response\<close> does and always finishes, and that over compare-and-set stores no
  interleaving runs into undefined behaviour.
\<close>

section \<open>Messages\<close>

text \<open>
  C7: in any environment and under every interleaving of requests, answers and timeouts, the
  number of messages created is the number freed, plus one for each outstanding transaction, plus
  one for each thread that is still working on one; in particular no message is freed twice and
  none is lost. The same holds of the JSON documents that requests are parsed into, which are freed
  while parsing or together with their message. An answer or a timeout
      for any of the outstanding transactions reaches the session
  manager or the next CCF without undefined behaviour.
\<close>

theorem threads_accounted:
  assumes "process_reachable env sm other ts s"
  shows "count_list (trace s) MessageCreated =
      count_list (trace s) MessageDeleted + length (pending s) + length (filter holds_message ts) \<and>
    count_list (trace s) DocumentCreated = count_list (trace s) DocumentDeleted +
      count_list (trace s) MessageDeleted + length (pending s) + length (filter holds_message ts) \<and>
    (\<forall>t \<in> set (pending s). \<forall>rsp u c.
       on_response_begin env t rsp u \<noteq> CallbackCrash c \<and> on_timeout_begin env t u \<noteq> CallbackCrash c)"
proof (intro conjI)
  note acc = message_count.reachable_process_accounted [OF assms]
  from acc show "count_list (trace s) MessageCreated =
      count_list (trace s) MessageDeleted + length (pending s) + length (filter holds_message ts)"
    unfolding process_accounted_def sum_message_held owed_messages by linarith
  from document_count.reachable_process_accounted [OF assms]
  show "count_list (trace s) DocumentCreated = count_list (trace s) DocumentDeleted +
      count_list (trace s) MessageDeleted + length (pending s) + length (filter holds_message ts)"
    unfolding process_accounted_def sum_message_held owed_documents by linarith
  show "\<forall>t \<in> set (pending s). \<forall>rsp u c.
      on_response_begin env t rsp u \<noteq> CallbackCrash c \<and> on_timeout_begin env t u \<noteq> CallbackCrash c"
  proof (intro ballI allI)
    fix t rsp u c assume "t \<in> set (pending s)"
    with acc have wf: "wf_transaction t" by (simp add: process_accounted_def list_all_iff)
    show "on_response_begin env t rsp u \<noteq> CallbackCrash c \<and> on_timeout_begin env t u \<noteq> CallbackCrash c"
      by (rule callback_begin_wf [OF wf, of "on_response_begin env t rsp u" env rsp u];
          rule callback_begin_wf [OF wf, of "on_timeout_begin env t u" env rsp u]) simp_all
  qed
qed

text \<open>The first request of the reference environment, before its ACR is sent.\<close>

lemma sample_accept:
  obtains msg s where "billing_accept ref_env sample_request 9 empty_io = (Some msg, s)"
    "wf_message msg" "isStart (m_record_type msg)"
proof -
  obtain msg s where "parse_body ref_env ''call'' False (json_write ref_env sample_body) 9 empty_io =
      ((HTTP_OK, Some msg), s)" and m: "wf_message msg" "isStart (m_record_type msg)"
    by (rule sample_parse)
  then have "billing_accept ref_env sample_request 9 empty_io = (Some msg, s)"
    by (simp add: billing_accept_def sample_request_def)
  with m that show ?thesis by blast
qed

lemma empty_io_reachable: "process_reachable ref_env sample_sm other [] empty_io"
  unfolding process_reachable_def by (rule exI [of _ empty_io]) (simp add: initial_def empty_io_def)

lemma process_reachable_step:
  assumes "process_reachable env sm other ts s" "process_step env sm other (ts, s) (ts', s')"
  shows "process_reachable env sm other ts' s'"
  using assms unfolding process_reachable_def by (blast intro: rtranclp.rtrancl_into_rtrancl)

theorem threads_accounted_witness:
  "\<exists>ts s. process_reachable ref_env sample_sm (\<lambda>_ _. False) ts s \<and> length ts = 1 \<and>
     count_list (trace s) MessageCreated = count_list (trace s) MessageDeleted + length (pending s) + 1"
proof -
  obtain msg s where a: "billing_accept ref_env sample_request 9 empty_io = (Some msg, s)"
    "isStart (m_record_type msg)" by (rule sample_accept)
  have r: "process_reachable ref_env sample_sm (\<lambda>_ _. False) [HttpThread msg (task_start msg)] s"
    using process_reachable_step [OF empty_io_reachable process_request [OF a(1)]]
    by (simp add: accepted_threads_def)
  have "holds_message (HttpThread msg (task_start msg))" by (simp add: task_start_def holds_message_def)
  with threads_accounted [OF r] r show ?thesis by fastforce
qed

section \<open>Answers\<close>

text \<open>
  C11: \<open>on_ccf_response\<close> is what a thread does that executes the handling of an answer one call at a
  time without being disturbed: the thread reaches its end, and in no other state.
\<close>

theorem answer_equals_steps:
  "on_ccf_response env sm (a_accepted a) (a_interim_interval a) (a_session_id a) (a_rc a) (a_msg a) s = s' \<longleftrightarrow>
     (\<exists>n. (answer_step env sm a ^^ n) (AnswerStart, s) = (AnswerDone, s'))"
proof -
  have run: "answer_run env sm a (AnswerStart, s) (AnswerDone, on_ccf_response env sm (a_accepted a)
      (a_interim_interval a) (a_session_id a) (a_rc a) (a_msg a) s)"
    using on_ccf_response_run unfolding answer_outcome_def .
  show ?thesis
    unfolding answer_run_def [symmetric] using run answer_run_unique [OF run] by blast
qed

text \<open>The calls a thread can still make, at most.\<close>

fun answer_work :: "session_manager \<Rightarrow> answer_pc \<Rightarrow> nat" where
  "answer_work sm AnswerStart = 2 * length (remote_stores sm) + 5"
| "answer_work sm (SetStarted x sts) = length sts + 2"
| "answer_work sm (DeleteGone sts) = length sts + 2"
| "answer_work sm (NextTimer i sts) = 2 * length sts + 2"
| "answer_work sm (SetTimer i x st sts) = 2 * length sts + 3"
| "answer_work sm AnswerEnd = 1"
| "answer_work sm AnswerDone = 0"

lemma renew_step_work: "answer_work sm (fst (renew_step env sm n msg log s)) <
    2 * length (remote_stores sm) + 5"
  by (simp add: renew_step_def split: prod.split)

lemma answer_begin_work:
  "answer_work sm (fst (answer_begin env sm a s)) < answer_work sm AnswerStart"
proof (cases rule: answer_begin_cases [of env sm a s])
  case renew
  with renew_step_work show ?thesis by (metis answer_work.simps(1))
qed (simp_all split: prod.split)

lemma answer_step_work:
  "pc \<noteq> AnswerDone \<Longrightarrow> answer_work sm (fst (answer_step env sm a (pc, s))) < answer_work sm pc"
  using answer_begin_work [of sm env a s]
  by (cases "(env, sm, a, (pc, s))" rule: answer_step.cases) (auto split: prod.split option.split)

lemma answer_work_0: "answer_work sm pc = 0 \<longleftrightarrow> pc = AnswerDone"
  by (cases pc) simp_all

text \<open>
  A thread in a process: before each of its steps the other threads and the world have changed the
  state in some way. \<open>fs\<close> are these changes.
\<close>

definition disturbed_answer ::
  "'w env \<Rightarrow> session_manager \<Rightarrow> answer \<Rightarrow> ('w io \<Rightarrow> 'w io) list \<Rightarrow> answer_pc \<times> 'w io \<Rightarrow> answer_pc \<times> 'w io" where
  "disturbed_answer env sm a fs c = foldl (\<lambda>(pc, s) f. answer_step env sm a (pc, f s)) c fs"

lemma disturbed_answer_work:
  "answer_work sm (fst (disturbed_answer env sm a fs (pc, s))) \<le> answer_work sm pc - length fs"
proof (induction fs arbitrary: pc s)
  case (Cons f fs)
  obtain pc1 s1 where step: "answer_step env sm a (pc, f s) = (pc1, s1)" by fastforce
  have "answer_work sm pc1 \<le> answer_work sm pc - 1"
    using answer_step_work [of pc sm env a "f s"] step by (cases "pc = AnswerDone") auto
  with Cons.IH [of pc1 s1] step show ?case by (simp add: disturbed_answer_def)
qed (simp add: disturbed_answer_def)

text \<open>
  C13: the handling of an answer finishes, in any environment and whatever other threads do between
  its steps: after at most five steps and two more for each remote store. Unlike \<open>handle\<close> it never
  repeats a write that the store refuses.
\<close>

theorem answer_finishes:
  assumes "2 * length (remote_stores sm) + 5 \<le> length fs"
  shows "fst (disturbed_answer env sm a fs (AnswerStart, s)) = AnswerDone"
  using disturbed_answer_work [of sm env a fs AnswerStart s] assms answer_work_0 [of sm] by simp

theorem answer_finishes_witness:
  "fst (disturbed_answer ref_env sample_sm (ccf_answer True 100 ''sid'' 2001 (sample_msg 2))
     (replicate 9 (\<lambda>s. s\<lparr>pending := []\<rparr>)) (AnswerStart, empty_io)) = AnswerDone"
  by (rule answer_finishes) (simp add: sample_sm_def)

section \<open>No undefined behaviour over compare-and-set stores\<close>

text \<open>
  What a thread carries: sessions that have a CCF, a message that can be sent. With the invariant of
  the stores (theory Store_Invariant) it is kept by every step of every thread.
\<close>

fun good_task_pc :: "task_pc \<Rightarrow> bool" where
  "good_task_pc (SetLocal x new) \<longleftrightarrow> s_ccf x \<noteq> []"
| "good_task_pc (NextRemote x rs) \<longleftrightarrow> s_ccf x \<noteq> []"
| "good_task_pc (SetRemote x y new r rs) \<longleftrightarrow> s_ccf x \<noteq> [] \<and> s_ccf y \<noteq> []"
| "good_task_pc (DeleteLocal x) \<longleftrightarrow> s_ccf x \<noteq> []"
| "good_task_pc (DeleteRemote x rs) \<longleftrightarrow> s_ccf x \<noteq> []"
| "good_task_pc (SendAcr m) \<longleftrightarrow> m_ccfs m \<noteq> [] \<and> has_event m"
| "good_task_pc (Returned c) \<longleftrightarrow> c = None"
| "good_task_pc _ \<longleftrightarrow> True"

fun good_answer_pc :: "answer_pc \<Rightarrow> bool" where
  "good_answer_pc (SetStarted x sts) \<longleftrightarrow> s_ccf x \<noteq> []"
| "good_answer_pc (SetTimer i x st sts) \<longleftrightarrow> s_ccf x \<noteq> []"
| "good_answer_pc _ \<longleftrightarrow> True"

fun good_thread :: "thread \<Rightarrow> bool" where
  "good_thread (HttpThread msg pc) \<longleftrightarrow> wf_message msg \<and> good_task_pc pc"
| "good_thread (AnswerThread a pc) \<longleftrightarrow> m_ccfs (a_msg a) \<noteq> [] \<and> good_answer_pc pc"
| "good_thread (CrashedThread c) \<longleftrightarrow> False"

definition good_shared :: "'w register \<Rightarrow> 'w io \<Rightarrow> bool" where
  "good_shared e s \<longleftrightarrow> register_ok e \<and> timers_separate e \<and> good_state e s"

lemma good_shared_get:
  assumes "get_session_data (fst e) st call role func trail s = (r, s')" "good_shared e s"
  shows "good_shared e s'" "r = Some x \<Longrightarrow> s_ccf x \<noteq> []"
  using assms get_good [OF _ _ assms(1)] get_session_data_effects(2) [OF assms(1)]
  by (auto simp: good_shared_def good_state_def)

lemma good_shared_set:
  assumes "set_session_data (fst e) st call role func x new s = (rc, s')" "good_shared e s" "s_ccf x \<noteq> []"
  shows "good_shared e s'"
  using assms set_session_data_good [OF _ _ assms(3,1)] set_session_data_trace(2) [OF assms(1)]
  by (auto simp: good_shared_def good_state_def)

lemma good_shared_delete:
  assumes "delete_session_data (fst e) st call role func s = (rc, s') \<or>
      delete_session_data_cas (fst e) st call role func x s = (rc, s')" "good_shared e s"
  shows "good_shared e s'"
proof -
  have "register_ok e" "stores_good e s" using assms(2) by (simp_all add: good_shared_def good_state_def)
  with assms(1) delete_good delete_cas_good have "stores_good e s'" by blast
  moreover have "pending s' = pending s" using assms(1) by (auto simp: store_op_traces)
  ultimately show ?thesis using assms(2) by (simp add: good_shared_def good_state_def)
qed

lemma good_shared_emit [simp]: "good_shared e (emit x s) = good_shared e s"
  by (simp add: good_shared_def)

text \<open>Timer requests do not touch the stores.\<close>

lemma good_shared_view:
  assumes "good_shared e s" "\<And>st. snd e st (world s') = snd e st (world s)" "pending s' = pending s"
  shows "good_shared e s'"
  using assms stores_good_view [of e s' s] by (simp add: good_shared_def good_state_def)

lemma good_shared_delete_timer:
  assumes "good_shared e s"
  shows "good_shared e (delete_timer (fst e) i s)"
proof (rule good_shared_view [OF assms])
  show "snd e st (world (delete_timer (fst e) i s)) = snd e st (world s)" for st
    using timers_separateD(3) [of e st i "world s"] assms
    by (auto simp: good_shared_def delete_timer_def split: prod.split)
qed (simp add: delete_timer_def split: prod.split)

lemma task_step_good:
  assumes "task_step (fst e) sm msg (pc, s) = (pc', s')" "good_shared e s" "wf_message msg" "good_task_pc pc"
  shows "good_shared e s' \<and> good_task_pc pc'"
proof (cases "\<exists>m. pc = SendAcr m")
  case True
  then obtain m where m: "pc = SendAcr m" by blast
  with assms(2,4) send_to_peer_good [of e s m sm] obtain s1 where
    "send_to_peer (fst e) sm m s = Inr s1" "good_shared e s1" by (auto simp: good_shared_def)
  with m assms(1) show ?thesis by auto
next
  case False
  have ev: "has_event msg" using assms(3) by (simp add: wf_message_def)
  note laws = good_shared_get good_shared_set good_shared_delete [OF disjI1] good_shared_delete [OF disjI2]
    good_shared_delete_timer
  show ?thesis
    using assms False
    by (cases "(fst e, sm, msg, (pc, s))" rule: task_step.cases)
       (auto simp: session_found_def ev dest: laws split: prod.splits option.splits if_splits)
qed

lemma renew_step_good:
  assumes "renew_step (fst e) sm n msg log s = (pc, s')" "good_shared e s"
  shows "good_shared e s' \<and> good_answer_pc pc"
proof -
  obtain i s1 where c: "send_chronos_update (fst e) (m_timer_id msg) n (m_session_refresh_time msg)
      (callback_uri (fst e) msg) (create_opaque_data (fst e) msg) s = (i, s1)" by fastforce
  have "good_shared e s1"
    by (rule good_shared_view [OF assms(2)])
       (use send_chronos_update_world [OF _ c] send_chronos_update_trace [OF c] assms(2) in
          \<open>auto simp: good_shared_def\<close>)
  with assms(1) c show ?thesis by (auto simp: renew_step_def split: if_splits)
qed

lemma answer_begin_good:
  assumes b: "answer_begin (fst e) sm a s = (pc, s')" and good: "good_shared e s" "m_ccfs (a_msg a) \<noteq> []"
  shows "good_shared e s' \<and> good_answer_pc pc"
proof -
  let ?s1 = "sas_log_ccf_response (a_accepted a) (a_session_id a) (a_msg a) s"
  have 1: "good_shared e ?s1" by (rule good_shared_view [OF good(1)]) simp_all
  show ?thesis
  proof (cases rule: answer_begin_cases [of "fst e" sm a s])
    case renew
    with b renew_step_good [OF _ 1] show ?thesis by metis
  next
    case start
    let ?n = "effective_interval (a_interim_interval a) (a_msg a)"
    obtain i s2 where t: "start_timer (fst e) ?n (a_msg a) ?s1 = (i, s2)" by fastforce
    have "good_shared e s2"
      by (rule good_shared_view [OF 1])
         (use start_timer_world [OF _ t] start_timer_effects(1) [OF t] 1 in \<open>auto simp: good_shared_def\<close>)
    with start(1) t b good(2) show ?thesis by (auto simp: started_session_def)
  qed (use b 1 in auto)
qed

lemma answer_step_good:
  assumes step: "answer_step (fst e) sm a (pc, s) = (pc', s')"
    and good: "good_shared e s" "m_ccfs (a_msg a) \<noteq> []" "good_answer_pc pc"
  shows "good_shared e s' \<and> good_answer_pc pc'"
proof -
  have set: "good_shared e (snd (set_session_data (fst e) st call role func x new s))"
    if "s_ccf x \<noteq> []" for st call role func x new
    using good_shared_set [OF _ good(1) that] by (metis prod.collapse)
  have delete: "good_shared e (snd (delete_session_data (fst e) st call role func s))" for st call role func
    using good_shared_delete [OF disjI1 good(1)] by (metis prod.collapse)
  show ?thesis
  proof (cases pc)
    case AnswerStart
    with step answer_begin_good [OF _ good(1,2)] show ?thesis by simp
  next
    case (SetStarted x sts)
    with step good set show ?thesis by (cases sts) auto
  next
    case (DeleteGone sts)
    with step good delete show ?thesis by (cases sts) auto
  next
    case (NextTimer i sts)
    with step good show ?thesis
      by (cases sts) (auto dest: good_shared_get split: prod.splits option.splits)
  next
    case (SetTimer i x st sts)
    with step good set show ?thesis by auto
  qed (use step good in auto)
qed

interpretation store_contract: thread_contract "thread_step (fst e) sm" "good_shared e" good_thread
  for e :: "'w register" and sm
proof
  fix t r and s s' :: "'w io"
  assume step: "thread_step (fst e) sm (t, s) = (r, s')" and good: "good_shared e s" "good_thread t"
  show "good_shared e s' \<and> (\<forall>t'. r = Some t' \<longrightarrow> good_thread t')"
  proof (cases t rule: thread_cases)
    case (running msg pc)
    obtain pc' s1 where "task_step (fst e) sm msg (pc, s) = (pc', s1)" by fastforce
    with running step good task_step_good [OF this] show ?thesis by (auto simp: thread_step_running)
  next
    case (answering a pc)
    obtain pc' s1 where "answer_step (fst e) sm a (pc, s) = (pc', s1)" by fastforce
    with answering step good answer_step_good [OF this] show ?thesis by (auto simp: thread_step_running)
  qed (use step good in auto)
qed

text \<open>What may happen to the stores besides Ralf's writes: entries expire.\<close>

definition only_expiry :: "'w register \<Rightarrow> ('w \<Rightarrow> 'w \<Rightarrow> bool) \<Rightarrow> bool" where
  "only_expiry e other \<longleftrightarrow>
     (\<forall>w w'. other w w' \<longrightarrow> (\<forall>st key. snd e st w' key = None \<or> snd e st w' key = snd e st w key))"

lemma expiry_good:
  assumes "only_expiry e other" "other (world s) w" "good_shared e s"
  shows "good_shared e (s\<lparr>world := w\<rparr>)"
proof -
  have at: "session_at e st (s\<lparr>world := w\<rparr>) key = None \<or>
      session_at e st (s\<lparr>world := w\<rparr>) key = session_at e st s key" for st key
  proof -
    have "snd e st w key = None \<or> snd e st w key = snd e st (world s) key"
      using assms(1,2) by (simp add: only_expiry_def)
    then show ?thesis by (auto simp: session_at_def)
  qed
  have "stores_good e (s\<lparr>world := w\<rparr>)"
    unfolding stores_good_def
  proof (intro allI impI)
    fix st key x assume "session_at e st (s\<lparr>world := w\<rparr>) key = Some x"
    with at [of st key] have "session_at e st s key = Some x" by auto
    with assms(3) show "s_ccf x \<noteq> []" by (auto simp: good_shared_def good_state_def dest: stores_goodD)
  qed
  with assms(3) show ?thesis by (simp add: good_shared_def good_state_def)
qed

definition process_good :: "'w register \<Rightarrow> thread list \<Rightarrow> 'w io \<Rightarrow> bool" where
  "process_good e ts s \<longleftrightarrow> good_shared e s \<and> list_all good_thread ts"

lemma callback_good:
  assumes "process_good e ts s" "i < length (pending s)"
    and "cb = on_response_begin (fst e) (pending s ! i) rsp (take_pending i s) \<or>
         cb = on_timeout_begin (fst e) (pending s ! i) (take_pending i s)"
  shows "process_good e (ts @ callback_threads cb) (callback_state cb (take_pending i s))"
proof -
  have all: "list_all good_transaction (pending s)" and good: "register_ok e" "timers_separate e"
      "stores_good e s"
    using assms(1) by (simp_all add: process_good_def good_shared_def good_state_def)
  have t: "good_transaction (pending s ! i)" using all assms(2) by (simp add: list_all_length)
  note rest = take_pending_all [OF all, of i]
  have world: "stores_good e u" if "world u = world (take_pending i s)" for u
    using stores_good_world [of u s e] that good(3) by simp
  have wf: "wf_transaction (pending s ! i)" using t by (simp add: good_transaction_def)
  show ?thesis
    by (rule callback_begin_wf [OF wf assms(3)])
       (use assms(1) t rest world good in
          \<open>auto simp: process_good_def good_shared_def good_state_def good_transaction_def\<close>)
qed

lemma process_step_good:
  assumes "process_step (fst e) sm other (ts, s) (ts', s')" "only_expiry e other" "process_good e ts s"
  shows "process_good e ts' s'"
  using assms(1)
proof (cases rule: process_step_cases)
  case (request req trail r)
  note a = billing_accept_quiet [OF request(2)]
  have "good_shared e s'"
    by (rule good_shared_view [of e s]) (use a assms(3) in \<open>auto simp: process_good_def\<close>)
  moreover have "good_task_pc (task_start msg)" if "wf_message msg" for msg
    using that isValid_cases [of "m_record_type msg"] by (auto simp: task_start_def wf_message_def)
  ultimately show ?thesis
    using request(1) a(3) assms(3) by (auto simp: process_good_def accepted_threads_def split: option.split)
next
  case (response i rsp cb)
  with callback_good [OF assms(3)] show ?thesis by auto
next
  case (timeout i cb)
  with callback_good [OF assms(3)] show ?thesis by auto
next
  case (thread i r)
  have "good_shared e s" "list_all good_thread ts" using assms(3) by (simp_all add: process_good_def)
  with store_contract.pool_keeps [OF thread(2,3)] thread(1) show ?thesis
    by (cases r) (auto simp: process_good_def put_thread_def)
next
  case (elsewhere w)
  with assms expiry_good [OF assms(2)] show ?thesis by (simp add: process_good_def)
qed

fun undefined_behaviour :: "thread \<Rightarrow> bool" where
  "undefined_behaviour (HttpThread msg (Returned (Some c))) \<longleftrightarrow> True"
| "undefined_behaviour (CrashedThread c) \<longleftrightarrow> True"
| "undefined_behaviour _ \<longleftrightarrow> False"

lemma good_thread_defined: "good_thread t \<Longrightarrow> \<not> undefined_behaviour t"
  by (cases t rule: undefined_behaviour.cases) simp_all

text \<open>
  C5: over compare-and-set stores that start out without sessions and change only through Ralf and
  by expiry, no thread ever runs into undefined behaviour, whatever requests, answers and timeouts
  arrive and however the threads interleave: the peer message sender always has a CCF to read,
  because every session in a store and every session a thread holds has one.
\<close>

theorem threads_no_undefined_behaviour:
  assumes "register_ok e" "timers_separate e" "only_expiry e other"
    and "initial s0" "\<forall>st key. session_at e st s0 key = None"
    and "(process_step (fst e) sm other)\<^sup>*\<^sup>* ([], s0) (ts, s)"
  shows "list_all (\<lambda>t. \<not> undefined_behaviour t) ts"
proof -
  have "process_good e [] s0"
    using assms(1,2,4,5) by (simp add: process_good_def good_shared_def good_state_def stores_good_def
        initial_def)
  with assms(6) have "case (ts, s) of (ts, s) \<Rightarrow> process_good e ts s"
    by (induction rule: rtranclp_induct) (auto dest: process_step_good [OF _ assms(3)])
  then show ?thesis using good_thread_defined by (auto simp: process_good_def list_all_iff)
qed

theorem threads_no_undefined_behaviour_witness:
  "\<exists>msg s. (process_step ref_env sample_sm (\<lambda>_ _. False))\<^sup>*\<^sup>* ([],
      empty_io) ([HttpThread msg (Returned None)], s)"
proof -
  let ?step = "process_step ref_env sample_sm (\<lambda>_ _. False)"
  obtain msg s where a: "billing_accept ref_env sample_request 9 empty_io = (Some msg, s)"
    "isStart (m_record_type msg)" by (rule sample_accept)
  let ?t = "HttpThread msg (task_start msg)"
  obtain m where m: "task_start msg = SendAcr m"
    using a(2) record_type_exclusive(7,8) [OF a(2)] by (simp add: task_start_def)
  have one: "?step ([], empty_io) ([?t], s)"
    using process_request [OF a(1), where ts = "[]"] by (simp add: accepted_threads_def)
  obtain c s1 where "thread_step ref_env sample_sm (?t, s) = (Some (HttpThread msg (Returned c)), s1)"
    unfolding m by (cases "send_to_peer ref_env sample_sm m s") simp_all
  from last_thread_step [OF this, of _ "[]"] have "?step ([?t], s) ([HttpThread msg (Returned c)], s1)" by simp
  with one have run: "?step\<^sup>*\<^sup>* ([], empty_io) ([HttpThread msg (Returned c)], s1)" by auto
  have start: "only_expiry ref (\<lambda>_ _. False)" "initial empty_io"
      "\<forall>st key. session_at ref st empty_io key = None"
    using reg.absent_contents [OF entry_absent_empty]
        by (simp_all add: only_expiry_def initial_def empty_io_def)
  from threads_no_undefined_behaviour [OF ref_register_ok timers_separate_ref start,
      of sample_sm "[HttpThread msg (Returned c)]" s1] run
  have "c = None" by (cases c) auto
  with run show ?thesis by blast
qed

end
