(* ===== verification/Timer_Callback.thy ===== *)
theory Timer_Callback
  imports Handler_Properties
begin

text \<open>
  The loop through Chronos: the opaque data that \<open>create_opaque_data\<close> puts into a timer comes
  back as the body of an HTTP request when the timer pops, and \<open>parse_body\<close> turns it into an
  INTERIM for the session the timer belongs to. The document format is the second instance of
  the codec contract of theory Json_Codec.
\<close>

section \<open>The opaque data as a wire format\<close>

definition opaque_valid :: "message \<Rightarrow> bool" where
  "opaque_valid msg \<longleftrightarrow> fits_int32 (m_role msg) \<and> fits_int32 (m_function msg)"

definition opaque_of_doc :: "json \<Rightarrow> (role_of_node_t \<times> node_functionality_t \<times> AccountingRecordType) option" where
  "opaque_of_doc body =
     (if event_ok body
      then Some (GetInt (json_at (ims_information body) ''Role-Of-Node''),
                 GetInt (json_at (ims_information body) ''Node-Functionality''), body_record_type body)
      else None)"

lemma opaque_json_parts:
  "json_at (opaque_json msg) ''event'' = JObject
     [(''Service-Information'', JObject
        [(''IMS-Information'', JObject
           [(''Role-Of-Node'', JInt (m_role msg)), (''Node-Functionality'', JInt (m_function msg))])]),
      (''Accounting-Record-Type'', JInt 3)]"
  "ims_information (opaque_json msg) = JObject
     [(''Role-Of-Node'', JInt (m_role msg)), (''Node-Functionality'', JInt (m_function msg))]"
  by (simp_all add: opaque_json_def ims_information_def json_simps)

lemma opaque_json_ok:
  assumes "opaque_valid msg"
  shows "event_ok (opaque_json msg)" "body_record_type (opaque_json msg) = accounting_record_type 3"
    "body_refresh_time (opaque_json msg) = 0"
proof -
  have "IsObject (opaque_json msg)" "HasMember (opaque_json msg) ''event''"
    by (simp_all add: opaque_json_def json_simps)
  then show "event_ok (opaque_json msg)"
    using assms
    by (simp add: event_ok_def opaque_json_parts opaque_valid_def json_simps fits_int32_def
        record_type_defs accounting_record_type_def)
  show "body_record_type (opaque_json msg) = accounting_record_type 3"
    "body_refresh_time (opaque_json msg) = 0"
    by (simp_all add: body_record_type_def body_refresh_time_def opaque_json_parts json_simps)
qed

interpretation opaque_doc: doc_codec "\<lambda>_. True" opaque_json "\<lambda>_. opaque_of_doc" opaque_valid
  "\<lambda>msg. (m_role msg, m_function msg, accounting_record_type 3)"
proof unfold_locales
  show "opaque_valid msg \<Longrightarrow> plain_json (opaque_json msg)" for msg
    by (simp add: opaque_json_def opaque_valid_def fits_int32_def)
  show "opaque_valid msg \<Longrightarrow> opaque_of_doc (opaque_json msg) =
      Some (m_role msg, m_function msg, accounting_record_type 3)" for msg
    by (simp add: opaque_of_doc_def opaque_json_ok opaque_json_parts json_simps)
qed

lemma create_opaque_data_write_text: "create_opaque_data env msg = opaque_doc.write_text env msg"
  by (simp add: create_opaque_data_def opaque_doc.write_text_def)

text \<open>
  Timers of different devices in the path of a call are told apart: two messages with the
  same opaque data have the same role and node functionality.
\<close>

lemma opaque_data_identifies_session:
  assumes "json_text_ok env" "opaque_valid msg" "opaque_valid msg'"
    and "create_opaque_data env msg = create_opaque_data env msg'"
  shows "m_role msg = m_role msg' \<and> m_function msg = m_function msg'"
  using opaque_doc.write_inj [OF _ assms(1-3)] assms(4) by (simp add: create_opaque_data_write_text)

text \<open>The message a timer callback is parsed into.\<close>

lemma parse_opaque_data:
  fixes env msg trail
  defines "pop \<equiv> body_message env (m_call_id msg) True (opaque_json msg) trail"
  assumes "json_text_ok env" "opaque_valid msg"
  shows "parse_body env (m_call_id msg) True (create_opaque_data env msg) trail s =
      ((HTTP_OK, Some pop), emit MessageCreated (emit (incoming (opaque_json msg) trail)
         (emit DocumentCreated s)))"
    "isInterim (m_record_type pop)"
proof -
  have body: "parsed_body env (create_opaque_data env msg) = opaque_json msg"
    using json_text_roundtrip [OF assms(2) opaque_doc.enc_plain [OF assms(3)]]
    by (simp add: parsed_body_def create_opaque_data_def)
  note ok = opaque_json_ok [OF assms(3)]
  have "\<not> (isStart (accounting_record_type 3) \<or> isEvent (accounting_record_type 3))"
    using record_type_exclusive(1,3) [OF sample_kinds(1)] by blast
  then show "parse_body env (m_call_id msg) True (create_opaque_data env msg) trail s =
      ((HTTP_OK, Some pop), emit MessageCreated (emit (incoming (opaque_json msg) trail)
         (emit DocumentCreated s)))"
    using parse_body_accepts [of env "create_opaque_data env msg" "m_call_id msg" True trail s] ok
    by (simp add: body Let_def pop_def)
  show "isInterim (m_record_type pop)" using ok by (simp add: pop_def)
qed

text \<open>
  C25: when a timer pops, its body and the call identifier of its callback URI are parsed into an
  INTERIM, flagged as timer-driven, for exactly the session the timer was set up for: same call,
  role and functionality, hence the same store key. It carries no refresh time and no CCFs, so
  those of the stored session are used.
\<close>

theorem timer_pop_addresses_session:
  assumes "json_text_ok env" "opaque_valid msg"
  shows "\<exists>pop s'. parse_body env (m_call_id msg) True (create_opaque_data env msg) trail s =
      ((HTTP_OK, Some pop), s') \<and>
    isInterim (m_record_type pop) \<and> m_timer_interim pop \<and> msg_key pop = msg_key msg \<and>
    m_role pop = m_role msg \<and> m_function pop = m_function msg \<and>
    m_session_refresh_time pop = 0 \<and> m_ccfs pop = []"
proof -
  let ?pop = "body_message env (m_call_id msg) True (opaque_json msg) trail"
  note ok = opaque_json_ok [OF assms(2)]
  have r: "m_role ?pop = m_role msg" "m_function ?pop = m_function msg"
    by (simp_all add: opaque_json_parts json_simps)
  moreover have "msg_key ?pop = msg_key msg" unfolding msg_key_def r by simp
  moreover have "m_ccfs ?pop = []" by (rule body_message_wf(5) [OF ok(1)])
  ultimately show ?thesis using parse_opaque_data(1) [OF assms, of trail s] ok by auto
qed

theorem timer_pop_addresses_session_witness:
  "\<exists>pop s'. parse_body ref_env ''call'' True (create_opaque_data ref_env (sample_msg 2)) 9 empty_io =
      ((HTTP_OK, Some pop), s') \<and> isInterim (m_record_type pop) \<and> msg_key pop = create_key ''call'' 0 0"
  using timer_pop_addresses_session [OF ref_env_json(1), of "sample_msg 2" 9 empty_io]
  by (auto simp: opaque_valid_def fits_int32_def msg_key_sample)

end
