(* ===== verification/Ralf_System.thy ===== *)
theory Ralf_System
  imports Thread_Properties Timer_Callback
begin

text \<open>
  The process at the level of whole tasks: a step is an HTTP task from its request to its reply, a
  Diameter callback from the stack into \<open>on_ccf_response\<close> and back, or a change of the world that is
  not Ralf's doing, such as an expiry. Theory Ralf_Threads cuts these steps into the calls they
  make; here every step is shown to be a run of the process in which the other threads wait, so
  that what holds under every interleaving holds of whole tasks too.
\<close>

inductive ralf_step :: "'w env \<Rightarrow> session_manager \<Rightarrow> ('w \<Rightarrow> 'w \<Rightarrow> bool) \<Rightarrow> 'w io \<Rightarrow> 'w io \<Rightarrow> bool"
  for env sm other where
  request: "billing_run env sm req trail s = Some (Inr s') \<Longrightarrow> ralf_step env sm other s s'"
| response: "i < length (pending s) \<Longrightarrow>
    on_response env sm (pending s ! i) rsp (take_pending i s) = Inr s' \<Longrightarrow> ralf_step env sm other s s'"
| timeout: "i < length (pending s) \<Longrightarrow>
    on_timeout env sm (pending s ! i) (take_pending i s) = Inr s' \<Longrightarrow> ralf_step env sm other s s'"
| elsewhere: "other (world s) w \<Longrightarrow> ralf_step env sm other s (s\<lparr>world := w\<rparr>)"

inductive_cases ralf_stepE: "ralf_step env sm other s s'"

definition reachable :: "'w env \<Rightarrow> session_manager \<Rightarrow> ('w \<Rightarrow> 'w \<Rightarrow> bool) \<Rightarrow> 'w io \<Rightarrow> bool" where
  "reachable env sm other s \<longleftrightarrow> (\<exists>s0. initial s0 \<and> (ralf_step env sm other)\<^sup>*\<^sup>* s0 s)"

section \<open>Whole tasks and their beginnings\<close>

lemma billing_run_accept:
  "billing_run env sm req trail s =
     (case billing_accept env req trail s of
        (None, s1) \<Rightarrow> Some (Inr s1)
      | (Some msg, s1) \<Rightarrow> map_option (map_sum id (emit (HttpReply HTTP_OK))) (handle env sm msg s1))"
  by (auto simp: billing_run_def billing_accept_def Let_def split: prod.split option.split)

definition callback_result :: "'w env \<Rightarrow> session_manager \<Rightarrow> 'w callback \<Rightarrow> crash + 'w io" where
  "callback_result env sm cb =
     (case cb of CallbackCrash c \<Rightarrow> Inl c | Resent s \<Rightarrow> Inr s | Answered a s \<Rightarrow> Inr (answer_outcome env sm a s))"

lemma send_cb_result:
  "send_cb env sm pm code v sid s = callback_result env sm (send_cb_begin env pm code v sid s)"
  by (auto simp: send_cb_def send_cb_begin_def callback_result_def answer_outcome_def ccf_answer_def Let_def
      split: option.split sum.split)

lemma callback_results:
  "on_response env sm t rsp s = callback_result env sm (on_response_begin env t rsp s)"
  "on_timeout env sm t s = callback_result env sm (on_timeout_begin env t s)"
  by (simp_all add: on_response_def on_response_begin_def on_timeout_def on_timeout_begin_def
      send_cb_result Let_def)

section \<open>A task as a run of its thread\<close>

lemma task_run_threads:
  assumes "task_run env sm msg (pc, s) (pc', s')"
  shows "(process_step env sm other)\<^sup>*\<^sup>* (ts @ [HttpThread msg pc], s) (ts @ [HttpThread msg pc'], s')"
proof -
  obtain n where "(task_step env sm msg ^^ n) (pc, s) = (pc', s')" using assms by (auto simp: task_run_def)
  then show ?thesis
  proof (induction n arbitrary: pc' s')
    case (Suc n)
    obtain pc1 s1 where r: "(task_step env sm msg ^^ n) (pc, s) = (pc1, s1)" by fastforce
    with Suc.prems have step: "task_step env sm msg (pc1, s1) = (pc', s')" by simp
    show ?case
    proof (cases "pc1 \<in> range Returned")
      case True
      with step Suc.IH [OF r] show ?thesis by auto
    next
      case False
      with step have "thread_step env sm (HttpThread msg pc1, s1) = (Some (HttpThread msg pc'), s')"
        by (simp add: thread_step_running)
      from last_thread_step [OF this, of other ts] Suc.IH [OF r] show ?thesis by simp
    qed
  qed simp
qed

lemma answer_run_threads:
  assumes "answer_run env sm a (pc, s) (pc', s')"
  shows "(process_step env sm other)\<^sup>*\<^sup>* (ts @ [AnswerThread a pc], s) (ts @ [AnswerThread a pc'], s')"
proof -
  obtain n where "(answer_step env sm a ^^ n) (pc, s) = (pc', s')" using assms by (auto simp: answer_run_def)
  then show ?thesis
  proof (induction n arbitrary: pc' s')
    case (Suc n)
    obtain pc1 s1 where r: "(answer_step env sm a ^^ n) (pc, s) = (pc1, s1)" by fastforce
    with Suc.prems have step: "answer_step env sm a (pc1, s1) = (pc', s')" by simp
    show ?case
    proof (cases "pc1 = AnswerDone")
      case True
      with step Suc.IH [OF r] show ?thesis by auto
    next
      case False
      with step have "thread_step env sm (AnswerThread a pc1, s1) = (Some (AnswerThread a pc'), s')"
        by (simp add: thread_step_running)
      from last_thread_step [OF this, of other ts] Suc.IH [OF r] show ?thesis by simp
    qed
  qed simp
qed

text \<open>Where a task leaves the process: without it, or with it stuck in undefined behaviour.\<close>

definition left_behind :: "thread list \<Rightarrow> crash + 'w io \<Rightarrow> 'w process \<Rightarrow> bool" where
  "left_behind ts r p \<longleftrightarrow> (case r of Inr s \<Rightarrow> p = (ts, s) | Inl c \<Rightarrow> fst p = ts @ [CrashedThread c])"

lemma request_threads:
  assumes "billing_run env sm req trail s = Some r"
  shows "\<exists>p. (process_step env sm other)\<^sup>*\<^sup>* (ts, s) p \<and> left_behind ts r p"
proof -
  obtain q s1 where a: "billing_accept env req trail s = (q, s1)" by fastforce
  note enter = process_request [OF a, of sm other ts]
  show ?thesis
  proof (cases q)
    case None
    with a assms enter show ?thesis by (auto simp: billing_run_accept accepted_threads_def left_behind_def)
  next
    case (Some msg)
    with a assms obtain h where h: "handle env sm msg s1 = Some h" "r = map_sum id (emit (HttpReply HTTP_OK)) h"
      by (auto simp: billing_run_accept)
    then obtain c s2 where run: "task_run env sm msg (task_start msg, s1) (Returned c, s2)"
        "task_outcome c s2 = h"
      by (auto simp: handle_iff_task_run)
    let ?p = "case c of None \<Rightarrow> (ts, emit (HttpReply HTTP_OK) s2) | Some c \<Rightarrow> (ts @ [CrashedThread c], s2)"
    have "process_step env sm other (ts @ [HttpThread msg (Returned c)], s2) ?p"
      using last_thread_step [OF thread_step.simps(1), of env sm other ts msg s2]
        last_thread_step [OF thread_step.simps(2), of env sm other ts msg _ s2] by (cases c) simp_all
    moreover have "(process_step env sm other)\<^sup>*\<^sup>* (ts, s) (ts @ [HttpThread msg (Returned c)], s2)"
      using enter Some task_run_threads [OF run(1), of other ts]
      by (simp add: accepted_threads_def converse_rtranclp_into_rtranclp)
    moreover have "left_behind ts r ?p"
      using h(2) run(2) by (auto simp: left_behind_def task_outcome_def split: option.splits)
    ultimately show ?thesis by (blast intro: rtranclp.rtrancl_into_rtrancl)
  qed
qed

lemma callback_threads_run:
  assumes "process_step env sm other (ts, s) (ts @ callback_threads cb, callback_state cb s0)"
  shows "\<exists>p. (process_step env sm other)\<^sup>*\<^sup>* (ts, s) p \<and> left_behind ts (callback_result env sm cb) p"
proof (cases cb)
  case (Answered a s1)
  have "(process_step env sm other)\<^sup>*\<^sup>* (ts @ [AnswerThread a AnswerStart], s1)
      (ts @ [AnswerThread a AnswerDone], answer_outcome env sm a s1)"
    by (rule answer_run_threads [OF on_ccf_response_run])
  moreover have "process_step env sm other (ts @ [AnswerThread a AnswerDone], answer_outcome env sm a s1)
      (ts, answer_outcome env sm a s1)"
    using last_thread_step [of env sm "AnswerThread a AnswerDone" "answer_outcome env sm a s1" None] by simp
  ultimately have "(process_step env sm other)\<^sup>*\<^sup>* (ts, s) (ts, answer_outcome env sm a s1)"
    using assms Answered by (auto intro: converse_rtranclp_into_rtranclp)
  with Answered show ?thesis by (auto simp: callback_result_def left_behind_def)
qed (use assms in \<open>auto simp: callback_result_def left_behind_def\<close>)

lemma ralf_step_threads:
  assumes "ralf_step env sm other s s'"
  shows "(process_step env sm other)\<^sup>*\<^sup>* (ts, s) (ts, s')"
  using assms
proof (cases rule: ralf_step.cases)
  case (request req trail)
  from request_threads [OF this, of other ts] show ?thesis by (simp add: left_behind_def)
next
  case (response i rsp)
  from callback_threads_run [OF process_response [OF response(1) refl, where env = env and rsp =
      rsp and sm = sm and other = other and ts = ts]]
  show ?thesis using response(2) by (simp add: callback_results left_behind_def)
next
  case (timeout i)
  from callback_threads_run [OF process_timeout [OF timeout(1) refl, where env = env and sm =
      sm and other = other and ts = ts]]
  show ?thesis using timeout(2) by (simp add: callback_results left_behind_def)
next
  case (elsewhere w)
  then show ?thesis using process_elsewhere [of other s w env sm ts] by auto
qed

text \<open>
  C12: every whole task, from the request to the reply or from the Diameter callback to its return, and
  every change of the world is a run of the process with its threads, whatever other threads are in
  Ralf and wait meanwhile.
\<close>

theorem threads_simulate:
  assumes "ralf_step env sm other s s'"
  shows "(process_step env sm other)\<^sup>*\<^sup>* (ts, s) (ts, s')"
  using assms by (rule ralf_step_threads)

theorem threads_simulate_witness:
  "\<exists>s'. (process_step ref_env sample_sm (\<lambda>_ _. False))\<^sup>*\<^sup>* ([CrashedThread UnsetMessage], empty_io)
      ([CrashedThread UnsetMessage], s') \<and> filter is_reply (trace s') = [HttpReply 405]"
proof -
  let ?req = "sample_request\<lparr>req_method := OtherMethod\<rparr>"
  let ?s' = "emit (HttpReply HTTP_METHOD_NOT_ALLOWED) empty_io"
  have "billing_run ref_env sample_sm ?req 9 empty_io = Some (Inr ?s')" by (simp add: billing_run_def)
  from threads_simulate [OF ralf_step.request [OF this]] show ?thesis
    by (intro exI [of _ ?s']) (auto simp: empty_io_def HTTP_METHOD_NOT_ALLOWED_def)
qed

lemma reachable_process:
  assumes "reachable env sm other s"
  shows "process_reachable env sm other [] s"
proof -
  obtain s0 where s0: "initial s0" "(ralf_step env sm other)\<^sup>*\<^sup>* s0 s" using assms by (auto simp: reachable_def)
  from s0(2) have "(process_step env sm other)\<^sup>*\<^sup>* ([], s0) ([], s)"
  proof (induction rule: rtranclp_induct)
    case (step s s')
    from ralf_step_threads [OF step(2), of "[]"] step(3) show ?case by simp
  qed simp
  with s0(1) show ?thesis by (auto simp: process_reachable_def)
qed

section \<open>What follows for whole tasks\<close>

text \<open>Between whole tasks every message is freed or belongs to an outstanding transaction.\<close>

corollary messages_accounted_for:
  assumes "reachable env sm other s"
  shows "count_list (trace s) MessageCreated = count_list (trace s) MessageDeleted + length (pending s) \<and>
    list_all wf_transaction (pending s)"
  using message_count.reachable_process_accounted [OF reachable_process [OF assms]]
  by (simp add: process_accounted_def owed_messages)

text \<open>An answer or a timeout for an outstanding transaction is a step to another reachable state.\<close>

corollary callbacks_always_handled:
  assumes "reachable env sm other s" "i < length (pending s)"
  shows "(\<exists>s'. on_timeout env sm (pending s ! i) (take_pending i s) = Inr s' \<and> reachable env sm other s') \<and>
    (\<exists>s'. on_response env sm (pending s ! i) rsp (take_pending i s) = Inr s' \<and> reachable env sm other s')"
proof -
  have wf: "wf_transaction (pending s ! i)"
    using messages_accounted_for [OF assms(1)] assms(2) by (simp add: list_all_length)
  have step: "reachable env sm other s'" if "ralf_step env sm other s s'" for s'
    using assms(1) that unfolding reachable_def by (blast intro: rtranclp.rtrancl_into_rtrancl)
  have "\<exists>s'. on_timeout env sm (pending s ! i) (take_pending i s) = Inr s'"
    "\<exists>s'. on_response env sm (pending s ! i) rsp (take_pending i s) = Inr s'"
    using callback_outcome [OF wf, of _ env sm "take_pending i s" rsp] by blast+
  then show ?thesis using step ralf_step.timeout [OF assms(2)] ralf_step.response [OF assms(2)] by blast
qed

text \<open>Over compare-and-set stores no whole task has undefined behaviour.\<close>

lemma process_good_run:
  assumes "(process_step (fst e) sm other)\<^sup>*\<^sup>* (ts, s) (ts', s')" "only_expiry e other" "process_good e ts s"
  shows "process_good e ts' s'"
proof -
  from assms(1,3) have "case (ts', s') of (ts, s) \<Rightarrow> process_good e ts s"
    by (induction rule: rtranclp_induct2) (auto dest: process_step_good [OF _ assms(2)])
  then show ?thesis by simp
qed

lemma left_behind_good:
  assumes "(process_step (fst e) sm other)\<^sup>*\<^sup>* ([], s) p" "left_behind [] r p"
    and "only_expiry e other" "process_good e [] s"
  shows "r \<noteq> Inl c"
proof
  assume "r = Inl c"
  with assms(2) obtain s' where "p = ([CrashedThread c], s')" by (cases p) (auto simp: left_behind_def)
  with process_good_run [OF _ assms(3,4)] assms(1) show False by (force simp: process_good_def)
qed

corollary no_undefined_behaviour:
  assumes "register_ok e" "timers_separate e" "only_expiry e other"
    and "initial s0" "\<forall>st key. session_at e st s0 key = None"
    and "(ralf_step (fst e) sm other)\<^sup>*\<^sup>* s0 s"
  shows "billing_run (fst e) sm req trail s \<noteq> Some (Inl c) \<and>
    (\<forall>i < length (pending s). on_timeout (fst e) sm (pending s ! i) (take_pending i s) \<noteq> Inl c \<and>
       on_response (fst e) sm (pending s ! i) rsp (take_pending i s) \<noteq> Inl c)"
proof -
  have "process_good e [] s0"
    using assms(1,2,4,5) by (simp add: process_good_def good_shared_def good_state_def stores_good_def
        initial_def)
  with assms(6) have g: "process_good e [] s"
    by (induction rule: rtranclp_induct) (auto dest: ralf_step_threads process_good_run [OF _ assms(3)])
  note defined = left_behind_good [OF _ _ assms(3) g]
  have "billing_run (fst e) sm req trail s \<noteq> Some (Inl c)"
    using request_threads [of "fst e" sm req trail s "Inl c" other "[]"] defined by blast
  moreover have "callback_result (fst e) sm cb \<noteq> Inl c"
    if "process_step (fst e) sm other ([], s) ([] @ callback_threads cb, callback_state cb u)" for cb u
    using callback_threads_run [OF that] defined by blast
  ultimately show ?thesis
    unfolding callback_results by (blast intro: process_response process_timeout)
qed

end
