(* ===== verification/Rf_Properties.thy ===== *)
theory Rf_Properties
  imports Rf
begin

text \<open>
  What an ACR contains and which record types are accepted (src/rf.cpp, include/rf.h).
\<close>

section \<open>Record types\<close>

text \<open>
  A 32-bit integer is accepted as an Accounting-Record-Type exactly when it is 1, 2, 3 or 4
  (a negative one becomes a large unsigned number and is refused), and then exactly one of EVENT,
  START, INTERIM and STOP holds, in this order, and the code reported is the integer itself.
\<close>

lemma record_type_classification:
  assumes "fits_int32 i"
  shows "(isValid (accounting_record_type i) \<longleftrightarrow> i \<in> {1, 2, 3, 4}) \<and>
    (isEvent (accounting_record_type i) \<longleftrightarrow> i = 1) \<and> (isStart (accounting_record_type i) \<longleftrightarrow> i = 2) \<and>
    (isInterim (accounting_record_type i) \<longleftrightarrow> i = 3) \<and> (isStop (accounting_record_type i) \<longleftrightarrow> i = 4) \<and>
    sint (art_code (accounting_record_type i)) = i"
proof -
  have inj: "u32_of_int i = u32_of_int j \<longleftrightarrow> i = j" if "fits_int32 j" for j
    using int_of_u32_of_int [OF assms] int_of_u32_of_int [OF that] by metis
  have "u32_of_int i = 1 \<longleftrightarrow> i = 1" "u32_of_int i = 2 \<longleftrightarrow> i = 2" "u32_of_int i = 3 \<longleftrightarrow> i = 3"
    "u32_of_int i = 4 \<longleftrightarrow> i = 4"
    using inj [of 1] inj [of 2] inj [of 3] inj [of 4] by (simp_all add: fits_int32_def)
  moreover have "isValid (accounting_record_type i) \<longleftrightarrow> i \<in> {1, 2, 3, 4}"
    using isValid_accounting_record_type [OF assms] by auto
  ultimately show ?thesis
    using int_of_u32_of_int [OF assms]
    by (simp add: isEvent_def isStart_def isInterim_def isStop_def accounting_record_type_def art_code_def)
qed

section \<open>The AVPs of an ACR\<close>

lemma member_avps_origin:
  assumes "a \<in> set (member_avps ok m)"
  shows "\<exists>v. a = JsonAvp (c_str (fst m)) v \<and> ok (c_str (fst m)) v \<and>
    (v = snd m \<or> (\<exists>xs. snd m = JArray xs \<and> v \<in> set xs))"
proof -
  obtain n v where a: "a = JsonAvp n v" using member_avps_only_json [OF assms] by blast
  from member_avps_source [OF assms [unfolded a]] a show ?thesis by blast
qed



text \<open>
  An array member yields one AVP per element up to the first element the dictionary refuses;
  that element and all after it are not sent, while the members after the array still are.
\<close>

lemma acr_array_prefix:
  assumes "\<forall>x \<in> set good. ok (c_str name) x" "\<not> ok (c_str name) bad"
  shows "AccountingRequest ok sid host realm num (JObject (before @ (name, JArray (good @
      bad # more)) # after)) =
    AccountingRequest ok sid host realm num (JObject before) @
    map (JsonAvp (c_str name)) good @ concat (map (member_avps ok) after)"
  using assms by (simp add: AccountingRequest_def member_avps_def takeWhile_append)

end
