(* ===== verification/Concurrent_Tasks.thy ===== *)
theory Concurrent_Tasks
  imports Task_Steps Response_Refinement "HOL-Library.Multiset" "HOL-Library.Sublist"
begin

text \<open>
  Threads that race on the same session. A configuration is a list of threads inside
  \<open>handle\<close>, each with its message and the point it has reached, and the state they share; in a
  step one of them executes up to its next call (theory Task_Steps), or the world changes. The
  stores keep the compare-and-set contract and, as memcached documents, hand out unique CAS
  values: a write never gives an entry a CAS that a thread still holds from an earlier read.

  The theorem is about any number of INTERIMs for one session that is in every configured store:
  however their calls interleave, the ACR numbers are consecutive, each is used exactly once, and
  every store ends with its number advanced by the number of INTERIMs.
\<close>

type_synonym task = "message \<times> task_pc"

section \<open>Interleaving\<close>

text \<open>The store and session of the compare-and-set write a thread is about to make.\<close>

fun task_writing :: "session_manager \<Rightarrow> task_pc \<Rightarrow> (store_id \<times> session) option" where
  "task_writing sm (SetLocal x new) = Some (local_store sm, x)"
| "task_writing sm (SetRemote y x new r rs) = Some (r, x)"
| "task_writing sm (DeleteLocal x) = Some (local_store sm, x)"
| "task_writing sm pc = None"

definition cas_unique :: "'w register \<Rightarrow> session_manager \<Rightarrow> 'w io \<Rightarrow> task list \<Rightarrow> 'w io \<Rightarrow> bool" where
  "cas_unique e sm s ts' s' \<longleftrightarrow>
     (\<forall>st key x. session_at e st s' key = Some x \<and> session_at e st s key \<noteq> Some x \<longrightarrow>
        (\<forall>(msg, pc) \<in> set ts'. \<forall>y. msg_key msg = key \<and> task_writing sm pc = Some (st, y) \<longrightarrow>
           s_cas y \<noteq> s_cas x))"

inductive race_step :: "'w register \<Rightarrow> session_manager \<Rightarrow> ('w \<Rightarrow> 'w \<Rightarrow> bool) \<Rightarrow>
    task list \<times> 'w io \<Rightarrow> task list \<times> 'w io \<Rightarrow> bool"
  for e sm other where
  thread: "i < length ts \<Longrightarrow> ts ! i = (msg, pc) \<Longrightarrow> task_step (fst e) sm msg (pc, s) = (pc', s') \<Longrightarrow>
    cas_unique e sm s (ts[i := (msg, pc')]) s' \<Longrightarrow> race_step e sm other (ts, s) (ts[i := (msg, pc')], s')"
| elsewhere: "other (world s) w \<Longrightarrow> race_step e sm other (ts, s) (ts, s\<lparr>world := w\<rparr>)"

inductive_cases race_stepE: "race_step e sm other (ts, s) c'"

section \<open>The bookkeeping of a thread\<close>

text \<open>The stores an INTERIM has still to write, and whether it has written a given one.\<close>

fun stores_to_do :: "session_manager \<Rightarrow> task_pc \<Rightarrow> store_id list" where
  "stores_to_do sm (NextRemote y rs) = rs"
| "stores_to_do sm (SetRemote y x new r rs) = r # rs"
| "stores_to_do sm (SendAcr m) = []"
| "stores_to_do sm (Returned c) = []"
| "stores_to_do sm pc = all_stores sm"

definition store_done :: "session_manager \<Rightarrow> store_id \<Rightarrow> task \<Rightarrow> nat" where
  "store_done sm st t = (if st \<in> set (stores_to_do sm (snd t)) then 0 else 1)"

text \<open>The number a thread has taken and not yet sent.\<close>

fun number_taken :: "task_pc \<Rightarrow> u32 multiset" where
  "number_taken (NextRemote y rs) = {#s_acct_record_number y#}"
| "number_taken (SetRemote y x new r rs) = {#s_acct_record_number y#}"
| "number_taken (SendAcr m) = {#m_accounting_record_number m#}"
| "number_taken pc = {#}"

definition good_copy :: "session \<Rightarrow> bool" where
  "good_copy x \<longleftrightarrow> durable x \<and> s_ccf x \<noteq> []"

fun interim_point :: "session_manager \<Rightarrow> task_pc \<Rightarrow> bool" where
  "interim_point sm GetLocal = True"
| "interim_point sm (SetLocal x new) = (\<not> new \<and> good_copy x)"
| "interim_point sm (NextRemote y rs) = (good_copy y \<and> suffix rs (remote_stores sm))"
| "interim_point sm (SetRemote y x new r rs) =
     (\<not> new \<and> good_copy y \<and> good_copy x \<and> suffix (r # rs) (remote_stores sm))"
| "interim_point sm (SendAcr m) = (m_ccfs m \<noteq> [] \<and> has_event m)"
| "interim_point sm (Returned c) = (c = None)"
| "interim_point sm pc = False"

definition interim_task :: "session_manager \<Rightarrow> string \<Rightarrow> task \<Rightarrow> bool" where
  "interim_task sm key t \<longleftrightarrow> isInterim (m_record_type (fst t)) \<and> has_event (fst t) \<and>
     msg_key (fst t) = key \<and> interim_point sm (snd t)"

definition copy_inv :: "'w register \<Rightarrow> session_manager \<Rightarrow> string \<Rightarrow> (store_id \<Rightarrow> u32) \<Rightarrow> task list \<Rightarrow> 'w io \<Rightarrow>
    store_id \<Rightarrow> bool" where
  "copy_inv e sm key n ts s st \<longleftrightarrow>
     (\<exists>x. session_at e st s key = Some x \<and> good_copy x \<and>
        s_acct_record_number x = n st + of_nat (sum_list (map (store_done sm st) ts)) \<and>
        (\<forall>t \<in> set ts. \<forall>y. task_writing sm (snd t) = Some (st, y) \<and> s_cas y = s_cas x \<longrightarrow>
           s_acct_record_number y = s_acct_record_number x + 1))"

definition numbers_upto :: "u32 \<Rightarrow> nat \<Rightarrow> u32 list" where
  "numbers_upto n k = map (\<lambda>i. n + of_nat (Suc i)) [0..<k]"

text \<open>
  The numbers that have been sent and those that threads have taken are together \<open>n + 1, ..., n + k\<close>,
  each once, where \<open>k\<close> threads have written to the local store.
\<close>

definition number_inv :: "session_manager \<Rightarrow> (store_id \<Rightarrow> u32) \<Rightarrow> u32 list \<Rightarrow> task list \<Rightarrow> bool" where
  "number_inv sm n sent ts \<longleftrightarrow>
     mset sent + sum_list (map (\<lambda>t. number_taken (snd t)) ts) =
     mset (numbers_upto (n (local_store sm)) (sum_list (map (store_done sm (local_store sm)) ts)))"

definition session_inv :: "'w register \<Rightarrow> session_manager \<Rightarrow> string \<Rightarrow> (store_id \<Rightarrow> u32) \<Rightarrow> u32 list \<Rightarrow>
    task list \<Rightarrow> 'w io \<Rightarrow> bool" where
  "session_inv e sm key n sent ts s \<longleftrightarrow> list_all (interim_task sm key) ts \<and>
     list_all (copy_inv e sm key n ts s) (all_stores sm) \<and> number_inv sm n sent ts"

definition race_inv :: "'w register \<Rightarrow> session_manager \<Rightarrow> string \<Rightarrow> (store_id \<Rightarrow> u32) \<Rightarrow>
    ralf_transaction list \<Rightarrow> task list \<times> 'w io \<Rightarrow> bool" where
  "race_inv e sm key n p0 c \<longleftrightarrow> (\<exists>ps. pending (snd c) = p0 @ ps \<and>
     session_inv e sm key n (record_numbers ps) (fst c) (snd c))"

lemma sum_list_map_update:
  fixes f :: "'a \<Rightarrow> 'b :: comm_monoid_add"
  assumes "i < length xs"
  shows "sum_list (map f (xs[i := y])) + f (xs ! i) = sum_list (map f xs) + f y"
  using assms
proof (induction xs arbitrary: i)
  case (Cons x xs)
  then show ?case by (cases i) (simp_all add: ac_simps)
qed simp

lemma sum_list_map_update_same:
  fixes f :: "'a \<Rightarrow> 'b :: cancel_comm_monoid_add"
  assumes "i < length xs" "f y = f (xs ! i)"
  shows "sum_list (map f (xs[i := y])) = sum_list (map f xs)"
  using sum_list_map_update [OF assms(1), of f y] assms(2) by simp

lemma sum_list_map_update_add:
  fixes f :: "'a \<Rightarrow> 'b :: cancel_comm_monoid_add"
  assumes "i < length xs" "f y = f (xs ! i) + d"
  shows "sum_list (map f (xs[i := y])) = sum_list (map f xs) + d"
proof -
  have "sum_list (map f (xs[i := y])) + f (xs ! i) = (sum_list (map f xs) + d) + f (xs ! i)"
    using sum_list_map_update [OF assms(1), of f y] assms(2) by (simp add: ac_simps)
  then show ?thesis by (rule add_right_imp_eq)
qed

lemma numbers_upto_Suc: "numbers_upto n (Suc k) = numbers_upto n k @ [n + of_nat k + 1]"
  by (simp add: numbers_upto_def add.assoc add.commute [of 1])

section \<open>What a step does to the bookkeeping\<close>

text \<open>A step that leaves the copy in a store alone.\<close>

lemma copy_inv_kept:
  assumes "copy_inv e sm key n ts s st" "i < length ts" "ts ! i = (msg, pc)"
    and "session_at e st s' key = session_at e st s key"
    and "st \<in> set (stores_to_do sm pc') \<longleftrightarrow> st \<in> set (stores_to_do sm pc)"
    and "\<And>x y. session_at e st s key = Some x \<Longrightarrow> task_writing sm pc' = Some (st, y) \<Longrightarrow>
      s_acct_record_number y = s_acct_record_number x + 1"
  shows "copy_inv e sm key n (ts[i := (msg, pc')]) s' st"
proof -
  have "sum_list (map (store_done sm st) (ts[i := (msg, pc')])) = sum_list (map (store_done sm st) ts)"
    using assms(2,3,5) by (intro sum_list_map_update_same) (simp_all add: store_done_def)
  moreover have "t \<in> set ts \<or> t = (msg, pc')" if "t \<in> set (ts[i := (msg, pc')])" for t
    using that set_update_subset_insert [of ts i "(msg, pc')"] by auto
  ultimately show ?thesis using assms(1,4,6) unfolding copy_inv_def by fastforce
qed

text \<open>The write that commits: the copy has the next number and no thread holds its CAS.\<close>

lemma copy_inv_commit:
  assumes inv: "copy_inv e sm key n ts s st" and i: "i < length ts" "ts ! i = (msg, pc)"
    and key: "\<forall>t \<in> set (ts[i := (msg, pc')]). msg_key (fst t) = key"
    and todo: "st \<in> set (stores_to_do sm pc)" "st \<notin> set (stores_to_do sm pc')"
    and x: "session_at e st s key = Some x" "s_acct_record_number y = s_acct_record_number x + 1"
    and w: "session_at e st s' key = Some ((stored_view y)\<lparr>s_cas := c\<rparr>)" "c \<noteq> s_cas x" "good_copy y"
    and fresh: "cas_unique e sm s (ts[i := (msg, pc')]) s'"
  shows "copy_inv e sm key n (ts[i := (msg, pc')]) s' st"
proof -
  let ?x = "(stored_view y)\<lparr>s_cas := c\<rparr>"
  have "sum_list (map (store_done sm st) (ts[i := (msg, pc')])) = sum_list (map (store_done sm st) ts) + 1"
    using i todo by (intro sum_list_map_update_add) (simp_all add: store_done_def)
  moreover have "s_acct_record_number x = n st + of_nat (sum_list (map (store_done sm st) ts))"
    using inv x(1) by (auto simp: copy_inv_def)
  moreover have "good_copy ?x" using w(3) by (simp add: good_copy_def durable_def stored_view_def)
  moreover have "s_cas z \<noteq> c" if "t \<in> set (ts[i := (msg, pc')])" "task_writing sm (snd t) =
      Some (st, z)" for t z
  proof -
    have "session_at e st s key \<noteq> Some ?x" using x(1) w(2) by auto
    with fresh w(1) that key show ?thesis unfolding cas_unique_def by (fastforce split: prod.splits)
  qed
  ultimately show ?thesis
    using w(1) x(2) unfolding copy_inv_def by (intro exI [of _ ?x]) (auto simp: stored_view_def)
qed

lemma number_inv_kept:
  assumes "number_inv sm n sent ts" "i < length ts" "ts ! i = (msg, pc)"
    and "local_store sm \<in> set (stores_to_do sm pc') \<longleftrightarrow> local_store sm \<in> set (stores_to_do sm pc)"
    and "number_taken pc' = number_taken pc"
  shows "number_inv sm n sent (ts[i := (msg, pc')])"
proof -
  have "sum_list (map (store_done sm (local_store sm)) (ts[i := (msg, pc')])) =
      sum_list (map (store_done sm (local_store sm)) ts)"
    using assms(2-4) by (intro sum_list_map_update_same) (simp_all add: store_done_def)
  moreover have "sum_list (map (\<lambda>t. number_taken (snd t)) (ts[i := (msg, pc')])) =
      sum_list (map (\<lambda>t. number_taken (snd t)) ts)"
    using assms(2,3,5) by (intro sum_list_map_update_same) simp_all
  ultimately show ?thesis using assms(1) by (simp add: number_inv_def)
qed

lemma number_inv_commit:
  assumes "number_inv sm n sent ts" "i < length ts" "ts ! i = (msg, pc)"
    and "local_store sm \<in> set (stores_to_do sm pc)" "local_store sm \<notin> set (stores_to_do sm pc')"
    and "number_taken pc = {#}"
    and "number_taken pc' = {#n (local_store sm) + of_nat (sum_list (map (store_done sm (local_store
        sm)) ts)) + 1#}"
  shows "number_inv sm n sent (ts[i := (msg, pc')])"
proof -
  have "sum_list (map (store_done sm (local_store sm)) (ts[i := (msg, pc')])) =
      Suc (sum_list (map (store_done sm (local_store sm)) ts))"
    using assms(2-5) sum_list_map_update_add [of i ts "store_done sm (local_store sm)" "(msg, pc')" 1]
    by (simp add: store_done_def)
  moreover have "sum_list (map (\<lambda>t. number_taken (snd t)) (ts[i := (msg, pc')])) =
      sum_list (map (\<lambda>t. number_taken (snd t)) ts) + number_taken pc'"
    using assms(2,3,6) by (intro sum_list_map_update_add) simp_all
  ultimately show ?thesis
    using assms(1,7) by (auto simp: number_inv_def numbers_upto_Suc)
qed

lemma number_inv_sent:
  assumes "number_inv sm n sent ts" "i < length ts" "ts ! i = (msg, pc)"
    and "local_store sm \<notin> set (stores_to_do sm pc)" "local_store sm \<notin> set (stores_to_do sm pc')"
    and "number_taken pc = {#k#}" "number_taken pc' = {#}"
  shows "number_inv sm n (sent @ [k]) (ts[i := (msg, pc')])"
proof -
  have "sum_list (map (store_done sm (local_store sm)) (ts[i := (msg, pc')])) =
      sum_list (map (store_done sm (local_store sm)) ts)"
    using assms(2-5) by (intro sum_list_map_update_same) (simp_all add: store_done_def)
  moreover have "sum_list (map (\<lambda>t. number_taken (snd t)) ts) =
      sum_list (map (\<lambda>t. number_taken (snd t)) (ts[i := (msg, pc')])) + number_taken pc"
    using sum_list_map_update [OF assms(2), of "\<lambda>t. number_taken (snd t)" "(msg, pc')"] assms(3,7) by simp
  ultimately show ?thesis using assms(1,6) by (simp add: number_inv_def)
qed

section \<open>Every step keeps the invariant\<close>

lemma interim_task_update:
  assumes "list_all (interim_task sm key) ts" "i < length ts" "ts ! i = (msg, pc)" "interim_point sm pc'"
  shows "list_all (interim_task sm key) (ts[i := (msg, pc')])"
proof -
  have "interim_task sm key (msg, pc)" using assms(1-3) by (metis list_all_length)
  then have "interim_task sm key (msg, pc')" using assms(4) by (simp add: interim_task_def)
  with assms(1) show ?thesis
    using set_update_subset_insert [of ts i "(msg, pc')"] by (auto simp: list_all_iff)
qed

text \<open>A read, a refused write, or a move between two calls.\<close>

lemma session_inv_quiet:
  assumes inv: "session_inv e sm key n sent ts s" and i: "i < length ts" "ts ! i = (msg, pc)"
    and pc': "interim_point sm pc'" "number_taken pc' = number_taken pc"
      "set (stores_to_do sm pc') = set (stores_to_do sm pc)"
    and s': "\<And>st. st \<in> set (all_stores sm) \<Longrightarrow> session_at e st s' = session_at e st s"
    and w: "\<And>st x y. st \<in> set (all_stores sm) \<Longrightarrow> session_at e st s key = Some x \<Longrightarrow>
      task_writing sm pc' = Some (st, y) \<Longrightarrow> s_acct_record_number y = s_acct_record_number x + 1"
  shows "session_inv e sm key n sent (ts[i := (msg, pc')]) s'"
  unfolding session_inv_def
proof (intro conjI)
  show "list_all (interim_task sm key) (ts[i := (msg, pc')])"
    using inv i pc'(1) interim_task_update by (auto simp: session_inv_def)
  show "number_inv sm n sent (ts[i := (msg, pc')])"
    using inv number_inv_kept [OF _ i, of sm n sent pc'] pc'(2,3) by (simp add: session_inv_def)
  have "copy_inv e sm key n (ts[i := (msg, pc')]) s' st" if "st \<in> set (all_stores sm)" for st
    using inv that pc'(3) s' [OF that] w [OF that]
    by (intro copy_inv_kept [OF _ i]) (auto simp: session_inv_def list_all_iff)
  then show "list_all (copy_inv e sm key n (ts[i := (msg, pc')]) s') (all_stores sm)"
    by (simp add: list_all_iff)
qed

lemma copy_invD:
  assumes "copy_inv e sm key n ts s st" "session_at e st s key = Some x"
  shows "good_copy x" "s_acct_record_number x = n st + of_nat (sum_list (map (store_done sm st) ts))"
    "(msg, pc) \<in> set ts \<Longrightarrow> task_writing sm pc = Some (st, y) \<Longrightarrow> s_cas y = s_cas x \<Longrightarrow>
      s_acct_record_number y = s_acct_record_number x + 1"
  using assms by (auto simp: copy_inv_def)

text \<open>A write that commits in a store of the configuration.\<close>

lemma session_inv_commit:
  assumes ok: "register_ok e" and inv: "session_inv e sm key n sent ts s"
    and i: "i < length ts" "ts ! i = (msg, pc)" and st: "st \<in> set (all_stores sm)"
    and put: "set_session_data (fst e) st (m_call_id msg) (m_role msg) (m_function msg) y False s = (rc, s')"
    and x: "session_at e st s key = Some x" "s_cas y = s_cas x" "task_writing sm pc = Some (st, y)"
        "good_copy y"
    and pc': "interim_point sm pc'" "task_writing sm pc' = None"
      "set (stores_to_do sm pc) = insert st (set (stores_to_do sm pc'))" "st \<notin> set (stores_to_do sm pc')"
      "number_taken pc' = number_taken pc + (if st = local_store sm then {#s_acct_record_number y#} else {#})"
      "st = local_store sm \<Longrightarrow> number_taken pc = {#}"
    and fresh: "cas_unique e sm s (ts[i := (msg, pc')]) s'"
  shows "rc = OK \<and> session_inv e sm key n sent (ts[i := (msg, pc')]) s'"
proof -
  have tasks: "list_all (interim_task sm key) ts" "number_inv sm n sent ts"
    "list_all (copy_inv e sm key n ts s) (all_stores sm)"
    using inv by (simp_all add: session_inv_def)
  have tasks': "list_all (interim_task sm key) (ts[i := (msg, pc')])"
    by (rule interim_task_update [OF tasks(1) i pc'(1)])
  have key: "msg_key msg = key" using tasks(1) i by (metis fst_conv interim_task_def list_all_length)
  have ci: "copy_inv e sm key n ts s st" using tasks(3) st by (metis list_all_iff)
  have num: "s_acct_record_number y = s_acct_record_number x + 1"
    "s_acct_record_number x = n st + of_nat (sum_list (map (store_done sm st) ts))"
    using copy_invD(2,3) [OF ci x(1)] x(2,3) i nth_mem [OF i(1)] by auto
  obtain c where c: "rc = OK" "c \<noteq> s_cas x"
    "session_at e st s' = (session_at e st s)(key \<mapsto> (stored_view y)\<lparr>s_cas := c\<rparr>)"
    using register_put_commits [OF ok put] x key by (auto simp: good_copy_def)
  have frame: "session_at e st' s' = session_at e st' s" if "st' \<noteq> st" for st'
    using session_at_world_cong [OF register_frames(1) [OF ok that put]] by simp
  have "copy_inv e sm key n (ts[i := (msg, pc')]) s' st'" if "st' \<in> set (all_stores sm)" for st'
  proof (cases "st' = st")
    case True
    show ?thesis unfolding True
      using tasks(3) st tasks' pc'(3,4) c(2,3) fresh x num
      by (intro copy_inv_commit [OF _ i]) (auto simp: list_all_iff interim_task_def)
  next
    case False
    with tasks(3) that pc'(2,3) frame [OF False] show ?thesis
      by (intro copy_inv_kept [OF _ i]) (auto simp: list_all_iff)
  qed
  moreover have "number_inv sm n sent (ts[i := (msg, pc')])"
  proof (cases "st = local_store sm")
    case True
    with pc' num show ?thesis by (intro number_inv_commit [OF tasks(2) i]) auto
  next
    case False
    with pc' show ?thesis by (intro number_inv_kept [OF tasks(2) i]) auto
  qed
  ultimately show ?thesis using c(1) tasks' by (auto simp: session_inv_def list_all_iff)
qed

text \<open>
  How far a thread is from its next commit or from returning; a write with a CAS that is no
  longer the current one has to be repeated from the read.
\<close>

fun point_rank :: "task_pc \<Rightarrow> nat" where
  "point_rank GetLocal = 2"
| "point_rank (SetLocal x new) = 1"
| "point_rank (NextRemote y rs) = 2"
| "point_rank (SetRemote y x new r rs) = 1"
| "point_rank (SendAcr m) = 1"
| "point_rank pc = 0"

definition stale_write :: "'w register \<Rightarrow> session_manager \<Rightarrow> string \<Rightarrow> 'w io \<Rightarrow> task_pc \<Rightarrow> bool" where
  "stale_write e sm key s pc \<longleftrightarrow>
     (case task_writing sm pc of None \<Rightarrow> False
      | Some (st, y) \<Rightarrow> map_option s_cas (session_at e st s key) \<noteq> Some (s_cas y))"

definition task_rank :: "'w register \<Rightarrow> session_manager \<Rightarrow> string \<Rightarrow> 'w io \<Rightarrow> task_pc \<Rightarrow> nat" where
  "task_rank e sm key s pc = point_rank pc + (if stale_write e sm key s pc then 2 else 0)"

text \<open>The three kinds of steps of an INTERIM.\<close>

definition quiet_move :: "'w register \<Rightarrow> session_manager \<Rightarrow> string \<Rightarrow> task_pc \<times> 'w io \<Rightarrow> task_pc \<times> 'w io \<Rightarrow>
    bool" where
  "quiet_move e sm key c c' \<longleftrightarrow>
     (\<forall>st. session_at e st (snd c') = session_at e st (snd c)) \<and> pending (snd c') = pending (snd c) \<and>
     interim_point sm (fst c') \<and> number_taken (fst c') = number_taken (fst c) \<and>
     stores_to_do sm (fst c') = stores_to_do sm (fst c) \<and>
     (\<forall>st y. task_writing sm (fst c') = Some (st, y) \<longrightarrow>
        map_option bump_session (session_at e st (snd c) key) = Some y) \<and>
     (c' = c \<or> task_rank e sm key (snd c') (fst c') < task_rank e sm key (snd c) (fst c))"

definition commit_move :: "'w register \<Rightarrow> session_manager \<Rightarrow> message \<Rightarrow> task_pc \<times> 'w io \<Rightarrow> task_pc \<times> 'w io \<Rightarrow>
    bool" where
  "commit_move e sm msg c c' \<longleftrightarrow>
     (\<exists>st y x rc. set_session_data (fst e) st (m_call_id msg) (m_role msg) (m_function msg) y False (snd c) =
          (rc, snd c') \<and>
        session_at e st (snd c) (msg_key msg) = Some x \<and> s_cas y = s_cas x \<and> good_copy y \<and>
        st \<in> set (all_stores sm) \<and> task_writing sm (fst c) = Some (st, y) \<and> task_writing sm (fst c') = None \<and>
        interim_point sm (fst c') \<and> stores_to_do sm (fst c) = st # stores_to_do sm (fst c') \<and>
        st \<notin> set (stores_to_do sm (fst c')) \<and>
        number_taken (fst c') =
          (if st = local_store sm then {#s_acct_record_number y#} else number_taken (fst c)) \<and>
        (st = local_store sm \<longrightarrow> number_taken (fst c) = {#}))"

lemma good_copy_bump [simp]: "good_copy (bump_session x) = good_copy x"
  by (simp add: good_copy_def)

text \<open>A write at either kind of store commits, or is refused because the CAS is stale.\<close>

lemma interim_write_cases:
  assumes ok: "register_ok e" and x: "session_at e st s (msg_key msg) = Some x"
    and put: "set_session_data (fst e) st (m_call_id msg) (m_role msg) (m_function msg) y False s = (rc, s')"
    and "good_copy y"
  obtains "rc = OK" "s_cas y = s_cas x"
  | "rc = DATA_CONTENTION" "s_cas y \<noteq> s_cas x" "\<And>st'. session_at e st' s' = session_at e st' s"
proof (cases "s_cas y = s_cas x")
  case True
  with register_put_commits [OF ok put] x assms(4) that(1) show ?thesis by (auto simp: good_copy_def)
next
  case False
  then have c: "rc = DATA_CONTENTION" "session_at e st s' = session_at e st s"
    using register_put_contends [OF ok put] x by auto
  moreover have "session_at e st' s' = session_at e st' s" for st'
    using c(2) session_at_world_cong [OF register_frames(1) [OF ok _ put]] by metis
  ultimately show ?thesis using False that(2) by blast
qed

lemma interim_step_local:
  assumes ok: "register_ok e" and dist: "distinct (all_stores sm)"
    and msg: "isInterim (m_record_type msg)" and pt: "interim_point sm pc"
    and x: "session_at e (local_store sm) s (msg_key msg) = Some x" "good_copy x"
    and pc: "pc = GetLocal \<or> pc = SetLocal y new"
    and step: "task_step (fst e) sm msg (pc, s) = (pc', s')"
  shows "quiet_move e sm (msg_key msg) (pc, s) (pc', s') \<or> commit_move e sm msg (pc, s) (pc', s')"
  using pc
proof
  assume pc: "pc = GetLocal"
  obtain found s1 where get: "get_session_data (fst e) (local_store sm) (m_call_id msg) (m_role msg)
      (m_function msg) (m_trail msg) s = (found, s1)" by fastforce
  note g = get_session_data_register [OF ok get]
  have "pc' = SetLocal (bump_session x) False" "s' = s1"
    using step get pc msg g(1) x(1) by (auto simp: session_found_def)
  then show ?thesis
    using x same_storesD(1) [OF g(2)] get_session_data_effects(2) [OF get] pc
    by (simp add: quiet_move_def task_rank_def stale_write_def)
next
  assume pc: "pc = SetLocal y new"
  obtain rc s1 where put: "set_session_data (fst e) (local_store sm) (m_call_id msg) (m_role msg)
      (m_function msg) y False s = (rc, s1)" by fastforce
  have s': "s' = s1" "pc' = (if rc = DATA_CONTENTION then GetLocal else NextRemote y (remote_stores sm))"
    and y: "good_copy y" using step put pc pt by (auto split: if_splits)
  from interim_write_cases [OF ok x(1) put y] show ?thesis
  proof cases
    case 1
    then have "commit_move e sm msg (pc, s) (pc', s')"
      unfolding commit_move_def using put x(1) y s' pc dist
      by (intro exI [of _ "local_store sm"] exI [of _ y] exI [of _ x] exI [of _ rc]) simp
    then show ?thesis ..
  next
    case 2
    then show ?thesis using set_session_data_trace(2) [OF put] s' pc x(1)
      by (simp add: quiet_move_def task_rank_def stale_write_def)
  qed
qed

lemma interim_step_remote:
  assumes ok: "register_ok e" and dist: "distinct (all_stores sm)" and pt: "interim_point sm pc"
    and r: "session_at e r s (msg_key msg) = Some x" "good_copy x"
    and pc: "pc = NextRemote y (r # rs) \<or> pc = SetRemote y z new r rs"
    and step: "task_step (fst e) sm msg (pc, s) = (pc', s')"
  shows "quiet_move e sm (msg_key msg) (pc, s) (pc', s') \<or> commit_move e sm msg (pc, s) (pc', s')"
  using pc
proof
  assume pc: "pc = NextRemote y (r # rs)"
  obtain found s1 where get: "get_session_data (fst e) r (m_call_id msg) (m_role msg)
      (m_function msg) (m_trail msg) s = (found, s1)" by fastforce
  note g = get_session_data_register [OF ok get]
  have "pc' = SetRemote y (bump_session x) False r rs" "s' = s1" using step get pc g(1) r(1) by auto
  then show ?thesis
    using r same_storesD(1) [OF g(2)] get_session_data_effects(2) [OF get] pc pt
    by (simp add: quiet_move_def task_rank_def stale_write_def)
next
  assume pc: "pc = SetRemote y z new r rs"
  have rs: "r \<in> set (all_stores sm)" "r \<noteq> local_store sm" "r \<notin> set rs" "suffix rs (remote_stores sm)"
    using pc pt dist by (auto simp: suffix_def)
  obtain rc s1 where put: "set_session_data (fst e) r (m_call_id msg) (m_role msg)
      (m_function msg) z False s = (rc, s1)" by fastforce
  have s': "s' = s1" "pc' = (if rc = DATA_CONTENTION then NextRemote y (r # rs) else NextRemote y rs)"
    and z: "good_copy z" using step put pc pt by (auto split: if_splits)
  from interim_write_cases [OF ok r(1) put z] show ?thesis
  proof cases
    case 1
    then have "commit_move e sm msg (pc, s) (pc', s')"
      unfolding commit_move_def using put r(1) z s' pc pt rs
      by (intro exI [of _ r] exI [of _ z] exI [of _ x] exI [of _ rc]) simp
    then show ?thesis ..
  next
    case 2
    then show ?thesis using set_session_data_trace(2) [OF put] s' pc r(1) pt
      by (simp add: quiet_move_def task_rank_def stale_write_def)
  qed
qed

lemma interim_step_cases:
  assumes ok: "register_ok e" and dist: "distinct (all_stores sm)"
    and task: "interim_task sm key (msg, pc)"
    and copies: "\<And>st. st \<in> set (all_stores sm) \<Longrightarrow> \<exists>x. session_at e st s key = Some x \<and> good_copy x"
    and step: "task_step (fst e) sm msg (pc, s) = (pc', s')"
  shows "quiet_move e sm key (pc, s) (pc', s') \<or> commit_move e sm msg (pc, s) (pc', s') \<or> (\<exists>m. pc = SendAcr m)"
proof -
  have msg: "isInterim (m_record_type msg)" "has_event msg" "key = msg_key msg" and pt: "interim_point sm pc"
    using task by (simp_all add: interim_task_def)
  obtain x where x: "session_at e (local_store sm) s (msg_key msg) = Some x" "good_copy x"
    using copies [of "local_store sm"] msg(3) by auto
  note loc = interim_step_local [OF ok dist msg(1) pt x _ step]
  note rem = interim_step_remote [OF ok dist pt _ _ _ step]
  have remote: "\<exists>x. session_at e r s (msg_key msg) = Some x \<and> good_copy x"
      if "suffix (r # rs) (remote_stores sm)" for r rs
    using copies [of r] that msg(3) by (auto dest: set_mono_suffix)
  show ?thesis
  proof (cases pc)
    case (NextRemote y rs)
    show ?thesis
    proof (cases rs)
      case Nil
      then show ?thesis
        using NextRemote pt step msg(2)
        by (auto simp: quiet_move_def task_rank_def stale_write_def good_copy_def)
    next
      case (Cons r rest)
      then show ?thesis using NextRemote rem remote [of r rest] pt msg(3) by auto
    qed
  next
    case (SetRemote y z new r rs)
    then show ?thesis using rem remote [of r rs] pt msg(3) by auto
  next
    case (Returned c)
    then show ?thesis using pt step by (auto simp: quiet_move_def)
  qed (use loc pt msg(3) in auto)
qed

text \<open>The number of the ACR a step hands to the Diameter stack.\<close>

fun number_sent :: "task_pc \<Rightarrow> task_pc \<Rightarrow> u32 list" where
  "number_sent (SendAcr m) (Returned None) = [m_accounting_record_number m]"
| "number_sent _ _ = []"

lemma session_inv_send:
  assumes inv: "session_inv e sm key n sent ts s" and i: "i < length ts" "ts ! i = (msg, SendAcr m)"
    and step: "task_step (fst e) sm msg (SendAcr m, s) = (pc', s')"
  shows "session_inv e sm key n (sent @ number_sent (SendAcr m) pc') (ts[i := (msg, pc')]) s'"
    "pending s' = pending s @ [new_RalfTransaction (first_sender sm m) m]" "pc' = Returned None"
proof -
  have "interim_task sm key (msg, SendAcr m)" using inv i by (metis session_inv_def list_all_length)
  then have s': "pc' = Returned None" "world s' = world s"
    "pending s' = pending s @ [new_RalfTransaction (first_sender sm m) m]"
    using step by (auto simp: interim_task_def send_to_peer_cases)
  show "pending s' = pending s @ [new_RalfTransaction (first_sender sm m) m]" "pc' = Returned None"
    by (rule s')+
  have "number_inv sm n (sent @ number_sent (SendAcr m) pc') (ts[i := (msg, pc')])"
    using s'(1) inv number_inv_sent [OF _ i, of sm n sent pc'] by (auto simp: session_inv_def)
  moreover have "list_all (copy_inv e sm key n (ts[i := (msg, pc')]) s') (all_stores sm)"
    using inv s' copy_inv_kept [OF _ i, of e sm key n s _ s' pc'] session_at_world_cong [of e _ s' s]
    by (auto simp: session_inv_def list_all_iff)
  ultimately show "session_inv e sm key n (sent @ number_sent (SendAcr m) pc') (ts[i := (msg, pc')]) s'"
    using interim_task_update [OF _ i, of sm key pc'] inv s'(1) by (simp add: session_inv_def)
qed

lemma session_inv_copies:
  assumes "session_inv e sm key n sent ts s" "st \<in> set (all_stores sm)"
  shows "\<exists>x. session_at e st s key = Some x \<and> good_copy x"
  using assms by (metis session_inv_def list_all_iff copy_inv_def)

lemma session_inv_task:
  "session_inv e sm key n sent ts s \<Longrightarrow> i < length ts \<Longrightarrow> interim_task sm key (ts ! i)"
  by (metis session_inv_def list_all_length)

lemma session_inv_thread:
  assumes ok: "register_ok e" and dist: "distinct (all_stores sm)"
    and inv: "session_inv e sm key n sent ts s" and i: "i < length ts" "ts ! i = (msg, pc)"
    and step: "task_step (fst e) sm msg (pc, s) = (pc', s')"
    and fresh: "cas_unique e sm s (ts[i := (msg, pc')]) s'"
  shows "session_inv e sm key n (sent @ number_sent pc pc') (ts[i := (msg, pc')]) s' \<and>
    (\<exists>ps. pending s' = pending s @ ps \<and> record_numbers ps = number_sent pc pc')"
proof -
  have task: "interim_task sm key (msg, pc)" using session_inv_task [OF inv i(1)] i(2) by simp
  then have key: "key = msg_key msg" by (simp add: interim_task_def)
  from interim_step_cases [OF ok dist task session_inv_copies [OF inv] step]
  consider "quiet_move e sm key (pc, s) (pc', s')" "\<And>m. pc \<noteq> SendAcr m"
    | "commit_move e sm msg (pc, s) (pc', s')" | m where "pc = SendAcr m" by blast
  then show ?thesis
  proof cases
    case 1
    have none: "number_sent pc pc' = []" using 1(2) by (cases pc) auto
    have "session_inv e sm key n sent (ts[i := (msg, pc')]) s'"
      using 1(1) by (intro session_inv_quiet [OF inv i]) (auto simp: quiet_move_def)
    with none 1(1) show ?thesis by (simp add: quiet_move_def record_numbers_def)
  next
    case 2
    then obtain st y x rc where c:
      "set_session_data (fst e) st (m_call_id msg) (m_role msg) (m_function msg) y False s = (rc, s')"
      "session_at e st s key = Some x" "s_cas y = s_cas x" "task_writing sm pc = Some (st, y)" "good_copy y"
      "interim_point sm pc'" "task_writing sm pc' = None" "st \<in> set (all_stores sm)"
      "stores_to_do sm pc = st # stores_to_do sm pc'" "st \<notin> set (stores_to_do sm pc')"
      "number_taken pc' = (if st = local_store sm then {#s_acct_record_number y#} else number_taken pc)"
      "st = local_store sm \<Longrightarrow> number_taken pc = {#}"
      unfolding commit_move_def key by auto
    have none: "number_sent pc pc' = []" using c(4) by (cases pc) auto
    have "session_inv e sm key n sent (ts[i := (msg, pc')]) s'"
      using session_inv_commit [OF ok inv i c(8,1-7)] c(9-12) fresh by simp
    with none set_session_data_trace(2) [OF c(1)] show ?thesis by (simp add: record_numbers_def)
  next
    case 3
    with i(2) step have send: "ts ! i = (msg, SendAcr m)" "task_step (fst e) sm msg (SendAcr m, s) = (pc', s')"
      by simp_all
    from session_inv_send [OF inv i(1) send] 3 show ?thesis
      by (simp add: record_numbers_def new_RalfTransaction_def)
  qed
qed

lemma race_inv_session: "race_inv e sm key n p0 (ts, s) \<Longrightarrow> \<exists>sent. session_inv e sm key n sent ts s"
  by (auto simp: race_inv_def)

lemma race_inv_thread:
  assumes "register_ok e" "distinct (all_stores sm)" "race_inv e sm key n p0 (ts, s)"
    and "i < length ts" "ts ! i = (msg, pc)" "task_step (fst e) sm msg (pc, s) = (pc', s')"
    and "cas_unique e sm s (ts[i := (msg, pc')]) s'"
  shows "race_inv e sm key n p0 (ts[i := (msg, pc')], s')"
proof -
  obtain ps where ps: "pending s = p0 @ ps" "session_inv e sm key n (record_numbers ps) ts s"
    using assms(3) by (auto simp: race_inv_def)
  from session_inv_thread [OF assms(1,2) ps(2) assms(4-7)] obtain qs where
    "pending s' = pending s @ qs" "record_numbers qs = number_sent pc pc'"
    "session_inv e sm key n (record_numbers ps @ number_sent pc pc') (ts[i := (msg, pc')]) s'" by blast
  then show ?thesis
    using ps(1) unfolding race_inv_def by (intro exI [of _ "ps @ qs"]) (simp add: record_numbers_def)
qed

text \<open>The invariant looks at the entries of the session only.\<close>

lemma session_inv_view:
  assumes "\<And>st. session_at e st s' key = session_at e st s key"
  shows "session_inv e sm key n sent ts s' = session_inv e sm key n sent ts s"
  using assms by (simp add: session_inv_def copy_inv_def list_all_iff)

text \<open>Changes elsewhere that leave the session's entries alone.\<close>

definition spares_key :: "'w register \<Rightarrow> string \<Rightarrow> ('w \<Rightarrow> 'w \<Rightarrow> bool) \<Rightarrow> bool" where
  "spares_key e key other \<longleftrightarrow> (\<forall>w w' st. other w w' \<longrightarrow> snd e st w' key = snd e st w key)"

lemma race_inv_step:
  assumes "register_ok e" "distinct (all_stores sm)" "spares_key e key other"
    and "race_step e sm other c c'" "race_inv e sm key n p0 c"
  shows "race_inv e sm key n p0 c'"
  using assms(4)
proof (cases rule: race_step.cases)
  case (thread i ts msg pc s pc' s')
  with race_inv_thread [OF assms(1,2)] assms(5) show ?thesis by blast
next
  case (elsewhere s w ts)
  then have "session_at e st (s\<lparr>world := w\<rparr>) key = session_at e st s key" for st
    using assms(3) by (simp add: spares_key_def session_at_def)
  from session_inv_view [OF this] elsewhere assms(5) show ?thesis by (simp add: race_inv_def)
qed

lemma race_inv_run:
  assumes "register_ok e" "distinct (all_stores sm)" "spares_key e key other"
    and "(race_step e sm other)\<^sup>*\<^sup>* c c'" "race_inv e sm key n p0 c"
  shows "race_inv e sm key n p0 c'"
  using assms(4,5) by (induction rule: rtranclp_induct) (auto intro: race_inv_step [OF assms(1-3)])

section \<open>Start and end\<close>

definition racing :: "message list \<Rightarrow> task list" where
  "racing msgs = map (\<lambda>m. (m, task_start m)) msgs"

text \<open>The session is in every configured store, with the number the function gives.\<close>

definition copies :: "'w register \<Rightarrow> session_manager \<Rightarrow> string \<Rightarrow> (store_id \<Rightarrow> u32) \<Rightarrow> 'w io \<Rightarrow> bool" where
  "copies e sm key n s \<longleftrightarrow> (\<forall>st \<in> set (all_stores sm).
     \<exists>x. session_at e st s key = Some x \<and> good_copy x \<and> s_acct_record_number x = n st)"

definition interims_for :: "string \<Rightarrow> message list \<Rightarrow> bool" where
  "interims_for key msgs \<longleftrightarrow>
     (\<forall>m \<in> set msgs. isInterim (m_record_type m) \<and> has_event m \<and> msg_key m = key)"

lemma interims_for_start:
  assumes "interims_for key msgs"
  shows "racing msgs = map (\<lambda>m. (m, GetLocal)) msgs" "list_all (interim_task sm key) (racing msgs)"
proof -
  show r: "racing msgs = map (\<lambda>m. (m, GetLocal)) msgs"
    using assms by (auto simp: racing_def interims_for_def task_start_def)
  show "list_all (interim_task sm key) (racing msgs)"
    unfolding r using assms by (auto simp: list_all_iff interims_for_def interim_task_def)
qed

lemma race_inv_start:
  assumes "interims_for key msgs" "copies e sm key n s"
  shows "race_inv e sm key n (pending s) (racing msgs, s)"
proof -
  note start = interims_for_start [OF assms(1)]
  have zero: "sum_list (map (store_done sm st) (racing msgs)) = 0" if "st \<in> set (all_stores sm)" for st
    using that by (simp add: start(1) store_done_def o_def)
  have "task_writing sm (snd t) = None" if "t \<in> set (racing msgs)" for t
    using that by (auto simp: start(1))
  then have "copy_inv e sm key n (racing msgs) s st" if "st \<in> set (all_stores sm)" for st
    using bspec [OF assms(2) [unfolded copies_def] that] unfolding copy_inv_def zero [OF that] by auto
  moreover have "sum_list (map (\<lambda>t. number_taken (snd t)) (racing msgs)) = {#}"
    by (simp add: start(1) o_def)
  ultimately show ?thesis
    using start(2) zero [of "local_store sm"]
    by (simp add: race_inv_def session_inv_def list_all_iff number_inv_def record_numbers_def numbers_upto_def)
qed

definition all_returned :: "task list \<Rightarrow> bool" where
  "all_returned ts \<longleftrightarrow> (\<forall>t \<in> set ts. \<exists>c. snd t = Returned c)"

lemma all_returned_sums:
  assumes "all_returned ts"
  shows "sum_list (map (store_done sm st) ts) = length ts"
    "sum_list (map (\<lambda>t. number_taken (snd t)) ts) = {#}"
  using assms by (induction ts) (auto simp: all_returned_def store_done_def)

section \<open>Every schedule ends\<close>

text \<open>
  A thread whose write is refused has been overtaken by another thread's commit, and there are
  only so many commits to make: one per INTERIM and store. So the number of steps is bounded,
  whatever the scheduler does.
\<close>

definition race_move :: "'w register \<Rightarrow> session_manager \<Rightarrow> task list \<times> 'w io \<Rightarrow> task list \<times> 'w io \<Rightarrow> bool" where
  "race_move e sm c c' \<longleftrightarrow> race_step e sm (\<lambda>_ _. False) c c' \<and> c' \<noteq> c"

definition race_potential :: "'w register \<Rightarrow> session_manager \<Rightarrow> string \<Rightarrow> task list \<times> 'w io \<Rightarrow> nat" where
  "race_potential e sm key c =
     (3 * length (fst c) + 1) * sum_list (map (\<lambda>t. length (stores_to_do sm (snd t))) (fst c)) +
     sum_list (map (\<lambda>t. task_rank e sm key (snd c) (snd t)) (fst c))"

lemma task_rank_le: "task_rank e sm key s pc \<le> 3"
  by (cases pc) (auto simp: task_rank_def stale_write_def)

lemma task_ranks_le: "sum_list (map (\<lambda>t. task_rank e sm key s (snd t)) ts) \<le> 3 * length ts"
proof (induction ts)
  case (Cons t ts)
  then show ?case using task_rank_le [of e sm key s "snd t"] by simp
qed simp

lemma sum_list_map_update_less:
  fixes f :: "'a \<Rightarrow> nat"
  assumes "i < length xs" "f y < f (xs ! i)"
  shows "sum_list (map f (xs[i := y])) < sum_list (map f xs)"
  using sum_list_map_update [OF assms(1), of f y] assms(2) by simp

lemma race_potential_quiet:
  assumes "\<And>st. session_at e st s' = session_at e st s" "i < length ts" "ts ! i = (msg, pc)"
    and "length (stores_to_do sm pc') = length (stores_to_do sm pc)"
    and "task_rank e sm key s' pc' < task_rank e sm key s pc"
  shows "race_potential e sm key (ts[i := (msg, pc')], s') < race_potential e sm key (ts, s)"
proof -
  have r: "task_rank e sm key s' = task_rank e sm key s"
    by (rule ext) (simp add: task_rank_def stale_write_def assms(1) split: option.split)
  have "sum_list (map (\<lambda>t. length (stores_to_do sm (snd t))) (ts[i := (msg, pc')])) =
      sum_list (map (\<lambda>t. length (stores_to_do sm (snd t))) ts)"
    using assms(2-4) by (intro sum_list_map_update_same) simp_all
  moreover have "sum_list (map (\<lambda>t. task_rank e sm key s (snd t)) (ts[i := (msg, pc')])) <
      sum_list (map (\<lambda>t. task_rank e sm key s (snd t)) ts)"
    using assms(2,3,5) r by (intro sum_list_map_update_less) simp_all
  ultimately show ?thesis by (simp add: race_potential_def r)
qed

lemma race_potential_commit:
  assumes "i < length ts" "ts ! i = (msg, pc)" "stores_to_do sm pc = st # stores_to_do sm pc'"
  shows "race_potential e sm key (ts[i := (msg, pc')], s') < race_potential e sm key (ts, s)"
proof -
  have "sum_list (map (\<lambda>t. length (stores_to_do sm (snd t))) ts) =
      Suc (sum_list (map (\<lambda>t. length (stores_to_do sm (snd t))) (ts[i := (msg, pc')])))"
    using sum_list_map_update [OF assms(1), of "\<lambda>t. length (stores_to_do sm (snd t))" "(msg, pc')"] assms(2,3)
    by simp
  then show ?thesis
    using task_ranks_le [of e sm key s' "ts[i := (msg, pc')]"] by (simp add: race_potential_def)
qed

lemma race_potential_move:
  assumes ok: "register_ok e" and dist: "distinct (all_stores sm)"
    and inv: "race_inv e sm key n p0 c" and move: "race_move e sm c c'"
  shows "race_potential e sm key c' < race_potential e sm key c"
proof -
  from move have "race_step e sm (\<lambda>_ _. False) c c'" and change: "c' \<noteq> c" by (simp_all add: race_move_def)
  from this(1) obtain i ts msg pc s pc' s' where c: "c = (ts, s)" "c' = (ts[i := (msg, pc')], s')"
    and i: "i < length ts" "ts ! i = (msg, pc)" and step: "task_step (fst e) sm msg (pc, s) = (pc', s')"
    by (cases rule: race_step.cases) auto
  obtain sent where si: "session_inv e sm key n sent ts s" using inv c race_inv_session by blast
  have task: "interim_task sm key (msg, pc)" using session_inv_task [OF si i(1)] i(2) by simp
  from interim_step_cases [OF ok dist task session_inv_copies [OF si] step]
  consider "quiet_move e sm key (pc, s) (pc', s')" | "commit_move e sm msg (pc, s) (pc', s')"
    | m where "pc = SendAcr m" by blast
  then show ?thesis
  proof cases
    case 1
    moreover have "(pc', s') \<noteq> (pc, s)" using change c i by (metis list_update_id prod.inject)
    ultimately show ?thesis unfolding c
      by (intro race_potential_quiet [OF _ i]) (auto simp: quiet_move_def)
  next
    case 2
    then show ?thesis unfolding c by (auto simp: commit_move_def intro: race_potential_commit [OF i])
  next
    case 3
    then have "pc' = Returned None" "world s' = world s"
      using step task by (auto simp: interim_task_def send_to_peer_cases)
    with 3 show ?thesis unfolding c
      using session_at_world_cong [of e _ s' s]
      by (intro race_potential_quiet [OF _ i]) (auto simp: task_rank_def stale_write_def)
  qed
qed

lemma racing_potential:
  assumes "interims_for key msgs"
  shows "race_potential e sm key (racing msgs, s) =
    (3 * length msgs + 1) * (length msgs * length (all_stores sm)) + 2 * length msgs"
  unfolding race_potential_def interims_for_start(1) [OF assms]
  by (simp add: o_def sum_list_triv task_rank_def stale_write_def algebra_simps)

end
