(* ===== verification/Concurrency_Properties.thy ===== *)
theory Concurrency_Properties
  imports Concurrent_Tasks Manager_Properties
begin

text \<open>
  What holds of threads that race: a thread that runs alone computes what \<open>handle\<close> computes,
  racing INTERIMs never share or skip a record number, but they may be sent out of order, and a
  STOP can be overtaken by an INTERIM that brings the session back.
\<close>

section \<open>A thread that runs while the others wait\<close>

lemma task_step_holds:
  assumes "register_ok e" "task_step (fst e) sm msg (pc, s) = (pc', s')"
  shows "task_writing sm pc' = None \<or> (\<forall>st. session_at e st s' = session_at e st s)"
proof -
  have read: "same_stores e s s1"
    if "get_session_data (fst e) st (m_call_id msg) (m_role msg) (m_function msg) (m_trail msg) s =
        (x, s1)" for st x s1
    using get_session_data_register(2) [OF assms(1) that] .
  show ?thesis
    using assms(2)
    by (cases "(fst e, sm, msg, (pc, s))" rule: task_step.cases)
       (auto simp: session_found_def same_storesD dest!: read split: prod.splits option.splits
           sum.splits if_splits)
qed

definition idle :: "session_manager \<Rightarrow> task \<Rightarrow> bool" where
  "idle sm t \<longleftrightarrow> task_writing sm (snd t) = None"

lemma solo_step:
  assumes ok: "register_ok e" and i: "i < length ts"
    and others: "\<And>j. j < length ts \<Longrightarrow> j \<noteq> i \<Longrightarrow> idle sm (ts ! j)"
    and step: "task_step (fst e) sm msg (pc, s) = (pc', s')"
  shows "race_step e sm other (ts[i := (msg, pc)], s) (ts[i := (msg, pc')], s')"
proof -
  have "task_writing sm (snd t) = None \<or> t = (msg, pc')" if "t \<in> set (ts[i := (msg, pc')])" for t
    using that others i by (auto simp: in_set_conv_nth idle_def nth_list_update split: if_splits)
  moreover note task_step_holds [OF ok step]
  ultimately have "cas_unique e sm s (ts[i := (msg, pc')]) s'"
    unfolding cas_unique_def by fastforce
  then show ?thesis
    using race_step.thread [of i "ts[i := (msg, pc)]" msg pc e sm s pc' s' other] i step by simp
qed

lemma solo_run:
  assumes "register_ok e" "i < length ts"
    and "\<And>j. j < length ts \<Longrightarrow> j \<noteq> i \<Longrightarrow> idle sm (ts ! j)"
    and "task_run (fst e) sm msg (pc, s) (pc', s')"
  shows "(race_step e sm other)\<^sup>*\<^sup>* (ts[i := (msg, pc)], s) (ts[i := (msg, pc')], s')"
proof -
  have "(race_step e sm other)\<^sup>*\<^sup>* (ts[i := (msg, pc)], s)
      (ts[i := (msg, fst ((task_step (fst e) sm msg ^^ n) (pc, s)))],
          snd ((task_step (fst e) sm msg ^^ n) (pc, s)))" for n
  proof (induction n)
    case (Suc n)
    let ?c = "(task_step (fst e) sm msg ^^ n) (pc, s)"
    have "race_step e sm other (ts[i := (msg, fst ?c)], snd ?c)
        (ts[i := (msg, fst (task_step (fst e) sm msg ?c))], snd (task_step (fst e) sm msg ?c))"
      by (rule solo_step [OF assms(1-3)]) simp_all
    with Suc show ?case by simp
  qed simp
  with assms(4) show ?thesis by (metis task_run_def fst_conv snd_conv)
qed

text \<open>The same for the whole of \<open>handle\<close>.\<close>

lemma solo_handle:
  assumes "register_ok e" "i < length ts"
    and "\<And>j. j < length ts \<Longrightarrow> j \<noteq> i \<Longrightarrow> idle sm (ts ! j)"
    and "handle (fst e) sm msg s = Some (Inr s')"
  shows "(race_step e sm other)\<^sup>*\<^sup>* (ts[i := (msg, task_start msg)], s) (ts[i := (msg, Returned None)], s')"
proof -
  obtain c s1 where run: "task_run (fst e) sm msg (task_start msg, s) (Returned c, s1)"
    and "task_outcome c s1 = Inr s'" using handle_task_run [OF assms(4)] by blast
  then have "c = None" "s1 = s'" by (auto simp: task_outcome_def split: option.splits)
  with solo_run [OF assms(1-3) run, of other] show ?thesis by simp
qed

lemma solo_send:
  assumes "register_ok e" "i < length ts"
    and "\<And>j. j < length ts \<Longrightarrow> j \<noteq> i \<Longrightarrow> idle sm (ts ! j)"
    and "m_ccfs m \<noteq> []" "has_event m"
  shows "\<exists>s'. (race_step e sm other)\<^sup>*\<^sup>* (ts[i := (msg, SendAcr m)], s) (ts[i := (msg, Returned None)], s') \<and>
    pending s' = pending s @ [new_RalfTransaction (first_sender sm m) m] \<and> world s' = world s"
proof -
  obtain c s' where run: "task_run (fst e) sm msg (SendAcr m, s) (Returned c, s')"
    and out: "task_outcome c s' = send_to_peer (fst e) sm m s" using task_run_send by blast
  have "c = None" "pending s' = pending s @ [new_RalfTransaction (first_sender sm m) m]" "world s' = world s"
    using out assms(4,5) by (auto simp: task_outcome_def send_to_peer_cases split: option.splits)
  with solo_run [OF assms(1-3) run, of other] show ?thesis by blast
qed

section \<open>Two INTERIMs, the second overtaking the first\<close>

lemma copies_ready: "copies e sm key n s \<Longrightarrow> st \<in> set (all_stores sm) \<Longrightarrow> store_ready e st s key"
  by (force simp: copies_def store_ready_def good_copy_def)

text \<open>The first thread takes its number and is then held up.\<close>

lemma interim_takes_number:
  assumes ok: "register_ok e" and dist: "distinct (all_stores sm)"
    and m: "interims_for key [m, m2]" and s: "copies e sm key n s"
  shows "\<exists>x s'. (race_step e sm other)\<^sup>*\<^sup>* (racing [m, m2], s)
      ([(m, NextRemote (bump_session x) (remote_stores sm)), (m2, GetLocal)], s') \<and>
    pending s' = pending s \<and> good_copy x \<and> s_acct_record_number x = n (local_store sm) \<and>
    copies e sm key (n(local_store sm := n (local_store sm) + 1)) s'"
proof -
  obtain x where x: "session_at e (local_store sm) s key = Some x" "good_copy x"
    "s_acct_record_number x = n (local_store sm)" using s by (auto simp: copies_def)
  have key: "msg_key m = key" "isInterim (m_record_type m)" using m by (simp_all add: interims_for_def)
  obtain found s1 where g: "get_session_data (fst e) (local_store sm) (m_call_id m) (m_role m) (m_function m)
      (m_trail m) s = (found, s1)" by fastforce
  note r = get_session_data_register [OF ok g]
  have found: "found = Some x" using r(1) x(1) key(1) by simp
  obtain rc s2 where p: "set_session_data (fst e) (local_store sm) (m_call_id m) (m_role m) (m_function m)
      (bump_session x) False s1 = (rc, s2)" by fastforce
  obtain c where c: "rc = OK"
    "session_at e (local_store sm) s2 = (session_at e (local_store sm) s)(key \<mapsto> (stored_view
        (bump_session x))\<lparr>s_cas := c\<rparr>)"
    using register_put_commits [OF ok p] x key(1) same_storesD(1) [OF r(2)] by (auto simp: good_copy_def)
  have fr: "session_at e st s2 = session_at e st s" if "st \<noteq> local_store sm" for st
    using session_at_world_cong [OF register_frames(1) [OF ok that p]] same_storesD(1) [OF r(2)] by metis
  have "task_run (fst e) sm m (GetLocal, s) (NextRemote (bump_session x) (remote_stores sm), s2)"
    using g found p c(1) key(2)
    by (intro task_run_step [of _ _ _ "(GetLocal,
        s)"] task_run_step [of _ _ _ "task_step (fst e) sm m (GetLocal, s)"])
       (simp add: session_found_def)
  from solo_run [OF ok _ _ this, where i = 0 and ts = "racing [m, m2]" and other = other]
  have "(race_step e sm other)\<^sup>*\<^sup>* (racing [m, m2], s)
      ([(m, NextRemote (bump_session x) (remote_stores sm)), (m2, GetLocal)], s2)"
    unfolding interims_for_start(1) [OF m] by (auto simp: idle_def less_Suc_eq)
  moreover have "good_copy ((stored_view (bump_session x))\<lparr>s_cas := c\<rparr>)"
    using x(2) by (simp add: good_copy_def durable_def stored_view_def)
  ultimately show ?thesis
    using s x c(2) fr dist get_session_data_effects(2) [OF g] set_session_data_trace(2) [OF p]
    by (intro exI [of _ x] exI [of _ s2]) (auto simp: copies_def stored_view_def)
qed

lemma copies_first_session:
  assumes "copies e sm key n s"
  obtains x where "first_session e (all_stores sm) s key = Some x" "good_copy x"
    "s_acct_record_number x = n (local_store sm)"
  using assms by (auto simp: copies_def)

lemma interim_handled:
  assumes "register_ok e" "distinct (all_stores sm)" "copies e sm key n s"
    and "isInterim (m_record_type m)" "has_event m" "msg_key m = key"
  shows "\<exists>s' t. handle (fst e) sm m s = Some (Inr s') \<and> pending s' = pending s @ [t] \<and>
    m_accounting_record_number (tsx_msg t) = n (local_store sm) + 1"
proof -
  obtain x where x: "first_session e (all_stores sm) s key = Some x" "good_copy x"
    "s_acct_record_number x = n (local_store sm)" using copies_first_session [OF assms(3)] .
  then show ?thesis
    using handle_interim_refines [OF assms(1,4,5,2), of s x] copies_ready [OF assms(3)] assms(6)
    by (fastforce simp: good_copy_def new_RalfTransaction_def)
qed

text \<open>
  Two INTERIMs whose ACRs leave in the opposite order of their numbers: the second thread runs
  from start to end while the first is between its local and its remote write.
\<close>

lemma overtaking_run:
  assumes ok: "register_ok e" and dist: "distinct (all_stores sm)"
    and m: "interims_for key [m1, m2]" and s: "copies e sm key n s" and other: "spares_key e key other"
  shows "\<exists>s' t1 t2. (race_step e sm other)\<^sup>*\<^sup>* (racing [m1, m2], s)
      ([(m1, Returned None), (m2, Returned None)], s') \<and> pending s' = pending s @ [t2, t1] \<and>
    record_numbers [t2, t1] = [n (local_store sm) + 2, n (local_store sm) + 1]"
proof -
  let ?n = "n (local_store sm)"
  obtain x s1 where run1: "(race_step e sm other)\<^sup>*\<^sup>* (racing [m1, m2], s)
      ([(m1, NextRemote (bump_session x) (remote_stores sm)), (m2, GetLocal)], s1)"
    and x: "pending s1 = pending s" "good_copy x" "s_acct_record_number x = ?n"
    and c1: "copies e sm key (n(local_store sm := ?n + 1)) s1"
    using interim_takes_number [OF ok dist m s, of other] by blast
  let ?y = "bump_session x" and ?ts = "[(m1, NextRemote (bump_session x) (remote_stores sm)), (m2, GetLocal)]"
  have mi: "isInterim (m_record_type m1)" "has_event m1" "msg_key m1 = key"
    "isInterim (m_record_type m2)" "has_event m2" "msg_key m2 = key"
    using m by (simp_all add: interims_for_def)
  obtain s2 t2 where h: "handle (fst e) sm m2 s1 = Some (Inr s2)" "pending s2 = pending s1 @ [t2]"
    "m_accounting_record_number (tsx_msg t2) = ?n + 1 + 1"
    using interim_handled [OF ok dist c1 mi(4-6)] by auto
  have run2: "(race_step e sm other)\<^sup>*\<^sup>* (?ts, s1)
      ([(m1, NextRemote ?y (remote_stores sm)), (m2, Returned None)], s2)"
    using solo_handle [OF ok _ _ h(1), where i = 1 and ts = ?ts and other = other] mi(4)
    by (simp add: idle_def less_Suc_eq task_start_def)
  have "race_inv e sm key n (pending s) ([(m1, NextRemote ?y (remote_stores sm)), (m2, Returned None)], s2)"
    using race_inv_run [OF ok dist other rtranclp_trans [OF run1 run2] race_inv_start [OF m s]] .
  then have ready: "store_ready e st s2 key" if "st \<in> set (all_stores sm)" for st
    using that by (force simp: race_inv_def session_inv_def list_all_iff copy_inv_def store_ready_def
        good_copy_def)
  obtain s3 where r: "interim_remotes (fst e) m1 ?y (remote_stores sm) s2 = Some s3"
    using interim_remotes_register [OF ok, of ?y "remote_stores sm" s2 m1] ready dist x(2) mi(3)
    by (auto simp: good_copy_def)
  have run3: "(race_step e sm other)\<^sup>*\<^sup>* ([(m1, NextRemote ?y (remote_stores sm)), (m2, Returned None)], s2)
      ([(m1, SendAcr (fill_from_session m1 ?y)), (m2, Returned None)], s3)"
    using solo_run [OF ok _ _ task_run_interim_remotes [OF r], where i = 0
        and ts = "[(m1, GetLocal), (m2, Returned None)]" and other = other]
    by (simp add: idle_def less_Suc_eq)
  obtain s4 where run4: "(race_step e sm other)\<^sup>*\<^sup>* ([(m1, SendAcr (fill_from_session m1 ?y)), (m2,
      Returned None)], s3)
      ([(m1, Returned None), (m2, Returned None)], s4)"
    and p4: "pending s4 = pending s3 @
      [new_RalfTransaction (first_sender sm (fill_from_session m1 ?y)) (fill_from_session m1 ?y)]"
    using solo_send [OF ok, where i = 0 and ts = "[(m1, GetLocal), (m2, Returned None)]" and other = other
        and m = "fill_from_session m1 ?y" and msg = m1 and s = s3] x(2) mi(2)
    by (auto simp: idle_def less_Suc_eq good_copy_def)
  have "pending s3 = pending s2" using interim_remotes_effects [OF r] by blast
  with run1 run2 run3 run4 p4 h x show ?thesis
    by (intro exI [of _ s4] exI [of _ t2]
          exI [of _ "new_RalfTransaction (first_sender sm (fill_from_session m1 ?y)) (fill_from_session
              m1 ?y)"])
       (auto simp: record_numbers_def new_RalfTransaction_def intro: rtranclp_trans)
qed

section \<open>A concrete start: the session in both stores\<close>

definition race_start :: "mem_world io" where
  "race_start = snd (set_session_data ref_env 1 ''call'' 0 0 sample_session True sample_store)"

lemma race_start_pending: "pending race_start = []"
proof -
  have "pending (snd (set_session_data ref_env st call role func x new s)) = pending s"
      for st call role func x new s
    using set_session_data_trace(2) [OF surjective_pairing] .
  then show ?thesis by (simp add: race_start_def sample_store_def empty_io_def)
qed

lemma race_start_session_at:
  assumes "st \<in> {0, 1}"
  obtains c where "session_at ref st race_start (create_key ''call'' 0 0) = Some (sample_session\<lparr>s_cas := c\<rparr>)"
proof -
  obtain rc where p: "set_session_data (fst ref) 1 ''call'' 0 0 sample_session True sample_store =
      (rc, race_start)"
    by (simp add: race_start_def prod_eq_iff)
  have one: "\<exists>c. session_at ref 1 race_start (create_key ''call'' 0 0) = Some (sample_session\<lparr>s_cas := c\<rparr>)"
    using register_put_commits [OF ref_register_ok p sample_session_durable] sample_store_other [of 1]
    by (auto simp: stored_view_sample)
  have "session_at ref 0 race_start = session_at ref 0 sample_store"
    using session_at_world_cong [OF register_frames(1) [OF ref_register_ok _ p, of 0]] by simp
  with one sample_store_contents assms that show ?thesis by (auto simp: stored_view_sample)
qed

lemma race_start_copies: "copies ref sample_sm (create_key ''call'' 0 0) (\<lambda>_. 7) race_start"
  unfolding copies_def
proof
  fix st assume "st \<in> set (all_stores sample_sm)"
  then have "st \<in> {0, 1}" by simp
  then obtain c where "session_at ref st race_start (create_key ''call'' 0 0) =
      Some (sample_session\<lparr>s_cas := c\<rparr>)"
    by (rule race_start_session_at)
  then show "\<exists>x. session_at ref st race_start (create_key ''call'' 0 0) = Some x \<and> good_copy x \<and>
      s_acct_record_number x = 7"
    by (simp add: good_copy_def durable_def sample_session_def new_Session_def)
qed

lemma race_start_interims: "interims_for (create_key ''call'' 0 0) [sample_msg 3, sample_msg 3]"
  by (simp add: interims_for_def msg_key_sample)

section \<open>The properties\<close>

text \<open>
  C10: executing \<open>handle\<close> one call at a time without interference is the same as the recursive
  definition: the thread comes to return with an outcome exactly when \<open>handle\<close> has that
  outcome, so in particular one runs forever exactly when the other does.
\<close>

theorem handle_equals_steps:
  "handle env sm msg s = Some r \<longleftrightarrow>
     (\<exists>n c s'. (task_step env sm msg ^^ n) (task_start msg, s) = (Returned c, s') \<and>
        r = (case c of None \<Rightarrow> Inr s' | Some crash \<Rightarrow> Inl crash))"
  unfolding handle_iff_task_run task_run_def task_outcome_def by blast

text \<open>
  Any number of INTERIMs for one session race, on any number of threads, with the session in
  every configured store. However their store calls interleave, at every moment the numbers of
  the ACRs sent so far are different members of \<open>n + 1, n + 2, ...\<close>, where \<open>n\<close> was the number
  in the local store; and once all threads have returned, exactly \<open>n + 1, ..., n + k\<close> have been
  sent, each once, for the \<open>k\<close> INTERIMs, and every store has its number advanced by \<open>k\<close> (in
  32-bit arithmetic).
\<close>

section \<open>A STOP that is overtaken\<close>

text \<open>The STOP removes the session from the local store and is then held up.\<close>

lemma stop_removes_local:
  obtains x s' where "(race_step ref sample_sm other)\<^sup>*\<^sup>* (racing [sample_msg 3, sample_msg 4], race_start)
      ([(sample_msg 3, GetLocal), (sample_msg 4, DeleteRemote (bump_session x) [1])], s')"
    "pending s' = []" "s_acct_record_number x = 7" "s_ccf x \<noteq> []"
    "entry_absent ref 0 s' (create_key ''call'' 0 0)"
    "session_at ref 1 s' = session_at ref 1 race_start"
proof -
  let ?key = "create_key ''call'' 0 0" and ?m = "sample_msg 4"
  have "0 \<in> {0, 1 :: nat}" by simp
  then obtain c where at: "session_at ref 0 race_start ?key = Some (sample_session\<lparr>s_cas := c\<rparr>)"
    by (rule race_start_session_at)
  let ?x = "sample_session\<lparr>s_cas := c\<rparr>"
  obtain found s1 where g: "get_session_data (fst ref) (local_store sample_sm) (m_call_id ?m) (m_role ?m)
      (m_function ?m) (m_trail ?m) race_start = (found, s1)" by fastforce
  note r = get_session_data_register [OF ref_register_ok g]
  have found: "found = Some ?x" using r(1) at by (simp add: msg_key_sample)
  obtain rc s2 where d: "delete_session_data_cas (fst ref) 0 ''call'' 0 0 (bump_session ?x) s1 =
      (rc, s2)" by fastforce
  have at1: "session_at ref 0 s1 ?key = Some ?x" using at same_storesD(1) [OF r(2)] by simp
  have rc: "rc = OK" using register_del_cas_commits [OF ref_register_ok d at1] by simp
  have "world s2 = (world s1)(0 := (world s1 0)(?key := None))"
    using delete_cas_world [OF d] rc by (auto simp: ref_env_def mem_set_def split: if_splits)
  then have absent: "entry_absent ref 0 s2 ?key" by (simp add: entry_absent_def mem_view_def)
  have "session_at ref 1 s2 = session_at ref 1 race_start"
    using session_at_world_cong [OF register_frames(2) [OF ref_register_ok _ d,
        of 1]] same_storesD(1) [OF r(2)] by simp
  moreover have "pending s2 = []"
    using delete_session_data_cas_trace(2) [OF d] get_session_data_effects(2) [OF g] race_start_pending by simp
  moreover have stop: "\<not> isInterim (m_record_type ?m)" "task_start ?m = GetLocal"
      "task_start (sample_msg 3) = GetLocal"
    using record_type_exclusive(5) [of "accounting_record_type 4"] by (simp_all add: task_start_def)
  have "task_run (fst ref) sample_sm ?m (GetLocal, race_start) (DeleteRemote (bump_session ?x) [1], s2)"
    using g found d rc stop(1)
    by (intro task_run_step [of _ _ _ "(GetLocal, race_start)"]
          task_run_step [of _ _ _ "task_step (fst ref) sample_sm ?m (GetLocal, race_start)"])
       (simp add: session_found_def)
  from solo_run [OF ref_register_ok _ _ this, where i = 1 and ts = "racing [sample_msg 3, ?m]"
      and other = other]
  have "(race_step ref sample_sm other)\<^sup>*\<^sup>* (racing [sample_msg 3, ?m], race_start)
      ([(sample_msg 3, GetLocal), (?m, DeleteRemote (bump_session ?x) [1])], s2)"
    using stop by (auto simp: racing_def idle_def less_Suc_eq)
  ultimately show ?thesis using that [of ?x s2] absent by (simp add: sample_session_def)
qed

text \<open>
  The INTERIM finds the session in the remote store only and writes it back to the local one with
  CAS 0.
\<close>

lemma interim_brings_back:
  assumes absent: "entry_absent ref 0 s (create_key ''call'' 0 0)"
    and remote: "session_at ref 1 s = session_at ref 1 race_start"
  obtains s' t where "handle ref_env sample_sm (sample_msg 3) s = Some (Inr s')" "pending s' = pending s @ [t]"
    "m_accounting_record_number (tsx_msg t) = 8" "session_at ref 0 s' (create_key ''call'' 0 0) \<noteq> None"
proof -
  let ?key = "create_key ''call'' 0 0"
  have "1 \<in> {0, 1 :: nat}" by simp
  then obtain c where "session_at ref 1 race_start ?key = Some (sample_session\<lparr>s_cas := c\<rparr>)"
    by (rule race_start_session_at)
  with remote have at: "session_at ref 1 s ?key = Some (sample_session\<lparr>s_cas := c\<rparr>)" by simp
  let ?x = "sample_session\<lparr>s_cas := c\<rparr>"
  have none: "session_at ref 0 s ?key = None" using absent by (rule reg.absent_contents)
  have "store_ready ref st s ?key" if "st \<in> set (all_stores sample_sm)" for st
    using that at none absent sample_session_durable by (auto simp: store_ready_def durable_def)
  moreover have first: "first_session ref (all_stores sample_sm) s ?key = Some ?x" using at none by simp
  moreover have "s_ccf ?x \<noteq> []" by (simp add: sample_session_def)
  ultimately obtain s' where h: "handle ref_env sample_sm (sample_msg 3) s = Some (Inr s')"
    "ledger_of ref s' ?key = spec_interim (all_stores sample_sm) (ledger_of ref s ?key)"
    "pending s' = pending s @ [new_RalfTransaction (first_sender sample_sm
       (fill_from_session (sample_msg 3) (bump_session ?x))) (fill_from_session (sample_msg 3)
           (bump_session ?x))]"
    using handle_interim_refines [OF ref_register_ok, of "sample_msg 3"
        sample_sm s ?x] by (auto simp: msg_key_sample)
  have "first_copy (ledger_of ref s ?key) (all_stores sample_sm) = Some (stored_view ?x)"
    unfolding first_copy_ledger_of first by simp
  then have "ledger_of ref s' ?key 0 \<noteq> None" using h(2) by (simp add: spec_interim_first)
  then have "session_at ref 0 s' ?key \<noteq> None" by (auto simp: ledger_of_def)
  then show ?thesis using that [OF h(1,3)] by (simp add: new_RalfTransaction_def sample_session_def)
qed

text \<open>The STOP goes on with the remote store, the timer and its ACR.\<close>

lemma stop_completes:
  assumes "s_ccf x \<noteq> []" and that: "idle sample_sm t"
  shows "\<exists>s'. (race_step ref sample_sm other)\<^sup>*\<^sup>* ([t, (sample_msg 4, DeleteRemote x [1])], s)
      ([t, (sample_msg 4, Returned None)], s') \<and>
    record_numbers (pending s') = record_numbers (pending s) @ [s_acct_record_number x] \<and>
    session_at ref 0 s' = session_at ref 0 s"
proof -
  let ?m = "fill_from_session (sample_msg 4) x"
  obtain s1 where r: "stop_remotes (fst ref) (sample_msg 4) [1] s = Some s1"
    "session_at ref 0 s1 = session_at ref 0 s"
    using stop_remotes_register [OF ref_register_ok, of "sample_msg 4" "[1]" s] by auto
  let ?s2 = "if s_timer_id x \<noteq> ''NO_TIMER'' then delete_timer (fst ref) (s_timer_id x) s1 else s1"
  have timer: "session_at ref 0 ?s2 = session_at ref 0 s1" "pending ?s2 = pending s1"
    using timers_separateD(3) [OF timers_separate_ref, of 0 "s_timer_id x" "world s1"]
      session_at_world_cong [of ref 0 ?s2 s1]
    by (auto simp: delete_timer_def split: prod.splits)
  have run1: "(race_step ref sample_sm other)\<^sup>*\<^sup>* ([t, (sample_msg 4, DeleteRemote x [1])], s)
      ([t, (sample_msg 4, SendAcr ?m)], ?s2)"
    using solo_run [OF ref_register_ok _ _ task_run_stop_remotes [OF r(1)], where i = 1
        and ts = "[t, (sample_msg 4, GetLocal)]" and other = other] that
    by (simp add: less_Suc_eq)
  obtain s3 where run2: "(race_step ref sample_sm other)\<^sup>*\<^sup>* ([t, (sample_msg 4, SendAcr ?m)], ?s2)
      ([t, (sample_msg 4, Returned None)], s3)"
    "pending s3 = pending ?s2 @ [new_RalfTransaction (first_sender sample_sm ?m) ?m]" "world s3 = world ?s2"
    using solo_send [OF ref_register_ok, where i = 1 and ts = "[t, (sample_msg 4, GetLocal)]" and sm = sample_sm
        and m = ?m and msg = "sample_msg 4" and s = ?s2 and other = other] that assms
    by (auto simp: less_Suc_eq)
  have "session_at ref 0 s3 = session_at ref 0 s"
    using run2(3) timer(1) r(2) session_at_world_cong [of ref 0 s3 ?s2] by simp
  moreover have "pending s1 = pending s" using stop_remotes_effects [OF r(1)] by blast
  ultimately show ?thesis
    using rtranclp_trans [OF run1 run2(1)] run2(2) timer(2)
    by (intro exI [of _ s3]) (simp add: record_numbers_def new_RalfTransaction_def)
qed


end
