(* ===== verification/Session_Memory.thy ===== *)
theory Session_Memory
  imports Task_Steps Manager_Properties
begin

text \<open>
  The \<open>Session\<close> objects \<open>SessionManager::handle\<close> works with. The store hands out a new object with
  every session it reads (\<open>new Session\<close> in \<open>deserialize_session\<close>, src/session_store.cpp), an
  INTERIM makes another one for a remote store that has none, and the caller has to delete them.
  \<open>memory_step\<close> is the number of objects created and deleted on the way from one point of
  \<open>handle\<close> to the next (theory Task_Steps), as src/session_manager.cpp does it.
\<close>

section \<open>Objects created and deleted\<close>

record session_heap =
  sessions_new :: nat
  sessions_deleted :: nat

definition new_session_object :: "session_heap \<Rightarrow> session_heap" where
  "new_session_object h = h\<lparr>sessions_new := Suc (sessions_new h)\<rparr>"

definition delete_session_object :: "session_heap \<Rightarrow> session_heap" where
  "delete_session_object h = h\<lparr>sessions_deleted := Suc (sessions_deleted h)\<rparr>"

text \<open>
  A session that has been read is a new object, from the local or a remote store; so is
  \<open>remote_sess\<close>, read or copied, which is deleted after the write whatever its result; \<open>sess\<close>
  is deleted when the message has been filled in. The restart after contention deletes nothing.
\<close>

fun memory_step :: "task_pc \<Rightarrow> task_pc \<Rightarrow> session_heap \<Rightarrow> session_heap" where
  "memory_step GetLocal (SetLocal _ _) h = new_session_object h"
| "memory_step GetLocal (DeleteLocal _) h = new_session_object h"
| "memory_step (GetRemote _) (SetLocal _ _) h = new_session_object h"
| "memory_step (GetRemote _) (DeleteLocal _) h = new_session_object h"
| "memory_step (NextRemote _ _) (SetRemote _ _ _ _ _) h = new_session_object h"
| "memory_step (SetRemote _ _ _ _ _) (NextRemote _ _) h = delete_session_object h"
| "memory_step (NextRemote _ _) (SendAcr _) h = delete_session_object h"
| "memory_step (DeleteRemote _ _) (SendAcr _) h = delete_session_object h"
| "memory_step _ _ h = h"

definition memory_task_step ::
  "'w env \<Rightarrow> session_manager \<Rightarrow> message \<Rightarrow> (task_pc \<times> 'w io) \<times> session_heap \<Rightarrow>
   (task_pc \<times> 'w io) \<times> session_heap" where
  "memory_task_step env sm msg ch =
     (let c' = task_step env sm msg (fst ch) in (c', memory_step (fst (fst ch)) (fst c') (snd ch)))"

definition no_sessions :: session_heap where
  "no_sessions = \<lparr>sessions_new = 0, sessions_deleted = 0\<rparr>"

lemma heap_simps [simp]:
  "sessions_new (new_session_object h) = Suc (sessions_new h)"
  "sessions_deleted (new_session_object h) = sessions_deleted h"
  "sessions_new (delete_session_object h) = sessions_new h"
  "sessions_deleted (delete_session_object h) = Suc (sessions_deleted h)"
  by (simp_all add: new_session_object_def delete_session_object_def)

lemma memory_task_step_fst:
  "fst ((memory_task_step env sm msg ^^ n) ch) = (task_step env sm msg ^^ n) (fst ch)"
  by (induction n) (simp_all add: memory_task_step_def Let_def)

section \<open>What a thread owns\<close>

text \<open>The objects the local variables \<open>sess\<close> and \<open>remote_sess\<close> point to.\<close>

fun objects_held :: "task_pc \<Rightarrow> nat" where
  "objects_held (SetLocal _ _) = 1"
| "objects_held (NextRemote _ _) = 1"
| "objects_held (SetRemote _ _ _ _ _) = 2"
| "objects_held (DeleteLocal _) = 1"
| "objects_held (DeleteRemote _ _) = 1"
| "objects_held _ = 0"

text \<open>A compare-and-set write to the local store that was refused: \<open>handle\<close> restarts.\<close>

fun local_refusal :: "session_manager \<Rightarrow> effect \<Rightarrow> bool" where
  "local_refusal sm (StoreSet st key data cas expiry rc) \<longleftrightarrow> st = local_store sm \<and> rc = DATA_CONTENTION"
| "local_refusal sm _ \<longleftrightarrow> False"

fun remote_targets :: "task_pc \<Rightarrow> store_id set" where
  "remote_targets (NextRemote _ rs) = set rs"
| "remote_targets (SetRemote _ _ _ r rs) = set (r # rs)"
| "remote_targets _ = {}"

lemma not_store_write_refusal: "\<not> is_store_write e \<Longrightarrow> \<not> local_refusal sm e"
  by (cases e) simp_all

lemma get_session_data_no_refusal:
  assumes "get_session_data env st call role func trail s = (r, s')"
  shows "\<exists>es. trace s' = trace s @ es \<and> filter (local_refusal sm) es = []"
  using get_session_data_effects(1,4) [OF assms] not_store_write_refusal
  by (intro exI [of _ "effects_of s s'"]) (auto simp: extends_effects_of list_all_iff filter_empty_conv)

lemma send_to_peer_no_refusal:
  assumes "send_to_peer env sm m s = Inr s'"
  shows "\<exists>es. trace s' = trace s @ es \<and> filter (local_refusal sm') es = []"
  using assms by (auto simp: send_to_peer_cases split: if_splits)

text \<open>
  The bookkeeping of one step: the effects it adds, and that the objects not deleted are those
  held and one for each restart.
\<close>

definition step_balanced :: "session_manager \<Rightarrow> task_pc \<times> 'w io \<Rightarrow> task_pc \<times> 'w io \<Rightarrow> bool" where
  "step_balanced sm c c' \<longleftrightarrow>
     remote_targets (fst c') \<subseteq> set (remote_stores sm) \<and>
     (\<exists>es. trace (snd c') = trace (snd c) @ es \<and>
        (\<forall>h. sessions_new (memory_step (fst c) (fst c') h) + objects_held (fst c) + sessions_deleted h =
           sessions_deleted (memory_step (fst c) (fst c') h) + objects_held (fst c') + sessions_new h +
           length (filter (local_refusal sm) es)))"

lemma task_step_balanced:
  assumes dist: "local_store sm \<notin> set (remote_stores sm)"
    and "remote_targets pc \<subseteq> set (remote_stores sm)"
  shows "step_balanced sm (pc, s) (task_step env sm msg (pc, s))"
proof (cases pc)
  case GetLocal
  then show ?thesis
    using get_session_data_no_refusal [of env "local_store sm" _ _ _ _ s _ _ sm]
    by (fastforce simp: step_balanced_def session_found_def split: prod.split option.split)
next
  case (GetRemote rs)
  then show ?thesis
    using get_session_data_no_refusal [of env _ _ _ _ _ s _ _ sm]
    by (cases rs) (fastforce simp: step_balanced_def session_found_def split: prod.split option.split)+
next
  case (SetLocal x new)
  obtain rc s1 where "set_session_data env (local_store sm) (m_call_id msg) (m_role msg)
      (m_function msg) x new s = (rc, s1)" by fastforce
  with SetLocal set_session_data_trace(1) [OF this] show ?thesis by (auto simp: step_balanced_def)
next
  case (NextRemote x rs)
  then show ?thesis
    using assms(2) get_session_data_no_refusal [of env _ _ _ _ _ s _ _ sm]
    by (cases rs) (fastforce simp: step_balanced_def split: prod.split option.split)+
next
  case (SetRemote x y new r rs)
  obtain rc s1 where "set_session_data env r (m_call_id msg) (m_role msg)
      (m_function msg) y new s = (rc, s1)" by fastforce
  moreover have "r \<noteq> local_store sm" using assms SetRemote by auto
  ultimately show ?thesis
    using SetRemote assms(2) set_session_data_trace(1) by (fastforce simp: step_balanced_def)
next
  case (DeleteLocal x)
  obtain rc s1 where "delete_session_data_cas env (local_store sm) (m_call_id msg) (m_role msg)
      (m_function msg) x s = (rc, s1)" by fastforce
  with DeleteLocal delete_session_data_cas_trace(1) [OF this] show ?thesis by (auto simp: step_balanced_def)
next
  case (DeleteRemote x rs)
  then show ?thesis
    by (cases rs) (auto simp: step_balanced_def split: prod.split dest!: delete_session_data_trace(1))
next
  case (SendAcr m)
  then show ?thesis
    using send_to_peer_no_refusal [of env sm m s _ sm] by (fastforce simp: step_balanced_def split: sum.split)
qed (simp add: step_balanced_def)

lemma memory_run_balanced:
  assumes dist: "local_store sm \<notin> set (remote_stores sm)"
    and start: "remote_targets pc = {}" "objects_held pc = 0"
    and run: "(memory_task_step env sm msg ^^ n) ((pc, s), no_sessions) = ((pc', s'), h)"
  shows "remote_targets pc' \<subseteq> set (remote_stores sm) \<and>
    (\<exists>es. trace s' = trace s @ es \<and>
      sessions_new h = sessions_deleted h + objects_held pc' + length (filter (local_refusal sm) es))"
  using run
proof (induction n arbitrary: pc' s' h)
  case 0
  then show ?case using start by (auto simp: no_sessions_def)
next
  case (Suc n)
  obtain pc1 s1 h1 where r: "(memory_task_step env sm msg ^^ n) ((pc, s), no_sessions) = ((pc1, s1), h1)"
    by (metis prod.exhaust)
  from Suc.IH [OF this] obtain es where t: "remote_targets pc1 \<subseteq> set (remote_stores sm)"
    and es: "trace s1 = trace s @ es"
      "sessions_new h1 = sessions_deleted h1 + objects_held pc1 + length (filter (local_refusal sm) es)"
    by auto
  have step: "memory_task_step env sm msg ((pc1, s1), h1) = ((pc', s'), h)" using Suc.prems r by simp
  have c: "task_step env sm msg (pc1, s1) = (pc', s')" "h = memory_step pc1 pc' h1"
    using step by (auto simp: memory_task_step_def Let_def)
  from task_step_balanced [OF dist t, of s1 env msg] obtain fs where
    "remote_targets pc' \<subseteq> set (remote_stores sm)" "trace s' = trace s1 @ fs"
    "sessions_new h + objects_held pc1 + sessions_deleted h1 =
       sessions_deleted h + objects_held pc' + sessions_new h1 + length (filter (local_refusal sm) fs)"
    unfolding c step_balanced_def by auto
  with es show ?case by (intro conjI exI [of _ "es @ fs"]) simp_all
qed

section \<open>Sessions that are never deleted\<close>

text \<open>
  A call of \<open>handle\<close> that returns has deleted every \<open>Session\<close> object it got, except one for
  each time the local store refused its write with contention: the restart forgets the session
  read before it. Without contention nothing is leaked.
\<close>

lemma restart_leaks_session:
  assumes "local_store sm \<notin> set (remote_stores sm)" "handle env sm msg s = Some (Inr s')"
  shows "\<exists>n h es. (memory_task_step env sm msg ^^ n) ((task_start msg, s), no_sessions) =
      ((Returned None, s'), h) \<and>
    trace s' = trace s @ es \<and>
    sessions_new h = sessions_deleted h + length (filter (local_refusal sm) es)"
proof -
  from assms(2) obtain n where "(task_step env sm msg ^^ n) (task_start msg, s) = (Returned None, s')"
    by (auto simp: handle_iff_task_run task_run_def task_outcome_def split: option.splits)
  then obtain h where h: "(memory_task_step env sm msg ^^ n) ((task_start msg, s), no_sessions) =
      ((Returned None, s'), h)"
    using memory_task_step_fst [of n env sm msg "((task_start msg, s), no_sessions)"]
    by (metis fst_conv prod.collapse)
  have "remote_targets (task_start msg) = {}" "objects_held (task_start msg) = 0"
    by (simp_all add: task_start_def)
  from memory_run_balanced [OF assms(1) this h] h show ?thesis by auto
qed

text \<open>Over stores that refuse the first write, one session is lost.\<close>

lemma busy_env_json: "json_text_ok busy_env" "json_macros_ok busy_env"
  using ref_env_json unfolding json_text_ok_def json_macros_ok_def
  by (simp_all add: busy_env_def ref_env_def)

lemma busy_get:
  "get_session_data busy_env st call role func trail s =
     (Some (sample_session\<lparr>s_cas := 1\<rparr>), called (world s) (StoreGet st (create_key call role func) OK) s)"
proof -
  have "get_data busy_env st table key w = ((OK, serialize_session ref_env sample_session, 1), w)"
    for table key w by (simp add: busy_env_def)
  moreover have "serialize_session ref_env sample_session = serialize_session busy_env sample_session"
    by (simp add: serialize_session_def json_serialize_session_def busy_env_def ref_env_def)
  ultimately show ?thesis
    using deserialize_serialize [OF busy_env_json, of sample_session]
      serialize_nonempty [OF busy_env_json(1), of sample_session]
    by (simp add: get_session_data_def stored_view_sample)
qed

lemma busy_set:
  "set_session_data busy_env st call role func x new s =
     (let rc = if world s = 0 then OK else DATA_CONTENTION
      in (rc, called (world s - 1) (StoreSet st (create_key call role func) (serialize_session busy_env x)
            (if new then 0 else s_cas x) (2 * s_session_refresh_time x) rc) s))"
  by (simp add: set_session_data_def busy_env_def Let_def)

definition single_sm :: session_manager where
  "single_sm = sample_sm\<lparr>remote_stores := []\<rparr>"

definition busy_start :: "nat io" where
  "busy_start = \<lparr>world = 1, trace = [], pending = []\<rparr>"

lemma busy_handle:
  obtains s' where "handle busy_env single_sm (sample_msg 3) busy_start = Some (Inr s')"
    "length (filter (local_refusal single_sm) (trace s')) = 1"
proof -
  let ?x = "bump_session (sample_session\<lparr>s_cas := 1\<rparr>)" and ?k = "create_key ''call'' 0 0"
  let ?s1 = "\<lparr>world = 0, trace = [StoreGet 0 ?k OK,
      StoreSet 0 ?k (serialize_session busy_env ?x) 1 600 DATA_CONTENTION], pending = []\<rparr>"
  have x: "s_ccf sample_session \<noteq> []" "s_session_refresh_time sample_session = 300"
    by (simp_all add: sample_session_def)
  note eval = find_session_def update_stores_def interim_update_def interim_remotes.simps busy_get
    busy_set single_sm_def busy_start_def called_def emit_def Let_def
  have "handle busy_env single_sm (sample_msg 3) busy_start = handle busy_env single_sm (sample_msg 3) ?s1"
    by (subst handle.simps) (simp add: eval x del: handle.simps)
  moreover have "\<exists>s'. handle busy_env single_sm (sample_msg 3) ?s1 = Some (Inr s') \<and>
      length (filter (local_refusal single_sm) (trace s')) = 1"
    by (subst handle.simps) (simp add: eval x send_to_peer_cases del: handle.simps)
  ultimately show ?thesis using that by metis
qed

end
