(* ===== verification/Ralf_Options.thy ===== *)
theory Ralf_Options
  imports Ralf_Prelude
begin

text \<open>
  The command line (src/main.cpp): the options structure, its defaults, and the two passes over
  the arguments. \<open>getopt_long\<close> is in theory Getopt; the passes take the sequence of options it
  returns, each with its argument. \<open>atoi\<close> is modelled on the integers: an argument outside the
  range of \<open>int\<close>, for which the C library promises nothing, gives its mathematical value. The
  three token rates are \<open>float\<close>s that are only ever assigned integers, and are integers here. The
  defaults that come from cpp-common and \<open>Utils::calculate_diameter_timeout\<close> are parameters;
  so is the \<open>bool\<close> that \<open>main\<close> leaves uninitialised.
\<close>

section \<open>atoi and the option codes\<close>

definition c_space :: "char \<Rightarrow> bool" where
  "c_space c \<longleftrightarrow> of_char c \<in> {9, 10, 11, 12, 13, 32 :: nat}"

definition atoi :: "string \<Rightarrow> int" where
  "atoi s =
     (case dropWhile c_space s of
        [] \<Rightarrow> 0
      | c # r \<Rightarrow>
          if c = CHR ''-'' then - int (digits_to_nat (takeWhile is_digit r))
          else if c = CHR ''+'' then int (digits_to_nat (takeWhile is_digit r))
          else int (digits_to_nat (takeWhile is_digit (c # r))))"

text \<open>What \<open>getopt_long\<close> returns: one of the option codes, or something else for a bad option.\<close>

datatype opt_code =
    LOCALHOST | DIAMETER_CONF | HTTP | HTTP_THREADS | BILLING_REALM | MAX_PEERS | ACCESS_LOG
  | LOG_FILE | LOG_LEVEL | SAS_SYSTEM | HELP
  | DNS_SERVER | TARGET_LATENCY_US | DIAMETER_TIMEOUT_MS | MAX_TOKENS | INIT_TOKEN_RATE
  | MIN_TOKEN_RATE | MAX_TOKEN_RATE | EXCEPTION_MAX_TTL | BILLING_PEER | HTTP_BLACKLIST_DURATION
  | DIAMETER_BLACKLIST_DURATION | ASTAIRE_BLACKLIST_DURATION | DNS_TIMEOUT | SAS_USE_SIGNALING_IF
  | PIDFILE | LOCAL_SITE_NAME | SESSION_STORES | DAEMON | CHRONOS_HOSTNAME
  | RALF_CHRONOS_CALLBACK_URI | RALF_HOSTNAME | HTTP_ACR_LOGGING | RAM_RECORD_EVERYTHING
  | UNKNOWN_OPTION

text \<open>The table of long options: name, whether it takes an argument, code.\<close>

definition long_opt :: "(string \<times> bool \<times> opt_code) list" where
  "long_opt =
     [(''localhost'', True, LOCALHOST), (''local-site-name'', True, LOCAL_SITE_NAME),
      (''diameter-conf'', True, DIAMETER_CONF), (''dns-servers'', True, DNS_SERVER),
      (''session-stores'', True, SESSION_STORES), (''http'', True, HTTP),
      (''http-threads'', True, HTTP_THREADS), (''billing-realm'', True, BILLING_REALM),
      (''billing-peer'', True, BILLING_PEER), (''max-peers'', True, MAX_PEERS),
      (''access-log'', True, ACCESS_LOG), (''log-file'', True, LOG_FILE),
      (''log-level'', True, LOG_LEVEL), (''sas'', True, SAS_SYSTEM), (''help'', False, HELP),
      (''target-latency-us'', True, TARGET_LATENCY_US),
      (''diameter-timeout-ms'', True, DIAMETER_TIMEOUT_MS), (''max-tokens'', True, MAX_TOKENS),
      (''init-token-rate'', True, INIT_TOKEN_RATE), (''min-token-rate'', True, MIN_TOKEN_RATE),
      (''max-token-rate'', True, MAX_TOKEN_RATE), (''exception-max-ttl'', True, EXCEPTION_MAX_TTL),
      (''http-blacklist-duration'', True, HTTP_BLACKLIST_DURATION),
      (''diameter-blacklist-duration'', True, DIAMETER_BLACKLIST_DURATION),
      (''astaire-blacklist-duration'', True, ASTAIRE_BLACKLIST_DURATION),
      (''dns-timeout'', True, DNS_TIMEOUT), (''pidfile'', True, PIDFILE),
      (''daemon'', False, DAEMON), (''sas-use-signaling-interface'', False, SAS_USE_SIGNALING_IF),
      (''chronos-hostname'', True, CHRONOS_HOSTNAME),
      (''ralf-chronos-callback-uri'', True, RALF_CHRONOS_CALLBACK_URI),
      (''ralf-hostname'', True, RALF_HOSTNAME), (''http-acr-logging'', True, HTTP_ACR_LOGGING),
      (''ram-record-everything'', False, RAM_RECORD_EVERYTHING)]"

section \<open>The options and their defaults\<close>

record options =
  local_host :: string
  local_site_name :: string
  diameter_conf :: string
  dns_servers :: "string list"
  session_stores :: "string list"
  http_address :: string
  http_port :: nat
  http_threads :: int
  billing_realm :: string
  billing_peer :: string
  max_peers :: int
  access_log_enabled :: bool
  access_log_directory :: string
  log_to_file :: bool
  log_directory :: string
  log_level :: int
  sas_system_name :: string
  target_latency_us :: int
  diameter_timeout_ms :: int
  max_tokens :: int
  init_token_rate :: int
  min_token_rate :: int
  max_token_rate :: int
  exception_max_ttl :: int
  http_blacklist_duration :: int
  diameter_blacklist_duration :: int
  astaire_blacklist_duration :: int
  dns_timeout :: int
  pidfile :: string
  daemon :: bool
  sas_signaling_if :: bool
  chronos_hostname :: string
  ralf_chronos_callback_uri :: string
  ralf_hostname :: string
  http_acr_logging :: bool
  ram_record_everything :: bool

text \<open>What cpp-common supplies, and the memory of the field that gets no default.\<close>

record library_defaults =
  default_http_blacklist :: int
  default_diameter_blacklist :: int
  default_astaire_blacklist :: int
  default_dns_timeout :: int
  calculate_diameter_timeout :: "int \<Rightarrow> int"
  split_string :: "string \<Rightarrow> string list"
  uninit_bool :: bool

definition default_options :: "library_defaults \<Rightarrow> options" where
  "default_options lib =
     \<lparr>local_host = ''127.0.0.1'', local_site_name = '''', diameter_conf = ''/var/lib/ralf/ralf.conf'',
      dns_servers = [''127.0.0.1''], session_stores = [''127.0.0.1''], http_address = ''0.0.0.0'',
      http_port = 10888, http_threads = 1, billing_realm = ''dest-realm.unknown'',
      billing_peer = '''', max_peers = 2, access_log_enabled = False, access_log_directory = '''',
      log_to_file = False, log_directory = '''', log_level = 0, sas_system_name = '''',
      target_latency_us = 100000, diameter_timeout_ms = 200, max_tokens = 1000,
      init_token_rate = 100, min_token_rate = 10, max_token_rate = 0, exception_max_ttl = 600,
      http_blacklist_duration = default_http_blacklist lib,
      diameter_blacklist_duration = default_diameter_blacklist lib,
      astaire_blacklist_duration = default_astaire_blacklist lib,
      dns_timeout = default_dns_timeout lib, pidfile = '''', daemon = False,
      sas_signaling_if = False, chronos_hostname = '''', ralf_chronos_callback_uri = '''',
      ralf_hostname = '''', http_acr_logging = uninit_bool lib, ram_record_everything = False\<rparr>"

section \<open>The two passes\<close>

fun logging_option :: "opt_code \<times> string \<Rightarrow> options \<Rightarrow> options" where
  "logging_option (LOG_FILE, optarg) o1 = o1\<lparr>log_to_file := True, log_directory := optarg\<rparr>"
| "logging_option (LOG_LEVEL, optarg) o1 = o1\<lparr>log_level := atoi optarg\<rparr>"
| "logging_option (DAEMON, optarg) o1 = o1\<lparr>daemon := True\<rparr>"
| "logging_option (RAM_RECORD_EVERYTHING, optarg) o1 = o1\<lparr>ram_record_everything := True\<rparr>"
| "logging_option _ o1 = o1"

definition init_logging_options :: "(opt_code \<times> string) list \<Rightarrow> options \<Rightarrow> options" where
  "init_logging_options args o1 = fold logging_option args o1"

text \<open>\<open>boost::split\<close> at commas: adjacent commas give empty strings.\<close>

fun split_commas :: "string \<Rightarrow> string list" where
  "split_commas [] = [[]]"
| "split_commas (c # s) =
     (if c = CHR '','' then [] # split_commas s
      else (case split_commas s of [] \<Rightarrow> [[c]] | t # ts \<Rightarrow> (c # t) # ts))"

text \<open>The options that are only stored, without a check.\<close>

fun set_plain_option :: "opt_code \<times> string \<Rightarrow> options \<Rightarrow> options" where
  "set_plain_option (EXCEPTION_MAX_TTL, optarg) o1 = o1\<lparr>exception_max_ttl := atoi optarg\<rparr>"
| "set_plain_option (HTTP_BLACKLIST_DURATION, optarg) o1 =
     o1\<lparr>http_blacklist_duration := atoi optarg\<rparr>"
| "set_plain_option (DIAMETER_BLACKLIST_DURATION, optarg) o1 =
     o1\<lparr>diameter_blacklist_duration := atoi optarg\<rparr>"
| "set_plain_option (ASTAIRE_BLACKLIST_DURATION, optarg) o1 =
     o1\<lparr>astaire_blacklist_duration := atoi optarg\<rparr>"
| "set_plain_option (DNS_TIMEOUT, optarg) o1 = o1\<lparr>dns_timeout := atoi optarg\<rparr>"
| "set_plain_option (PIDFILE, optarg) o1 = o1\<lparr>pidfile := optarg\<rparr>"
| "set_plain_option (SAS_USE_SIGNALING_IF, optarg) o1 = o1\<lparr>sas_signaling_if := True\<rparr>"
| "set_plain_option (CHRONOS_HOSTNAME, optarg) o1 = o1\<lparr>chronos_hostname := optarg\<rparr>"
| "set_plain_option (RALF_CHRONOS_CALLBACK_URI, optarg) o1 =
     o1\<lparr>ralf_chronos_callback_uri := optarg\<rparr>"
| "set_plain_option (RALF_HOSTNAME, optarg) o1 = o1\<lparr>ralf_hostname := optarg\<rparr>"
| "set_plain_option (HTTP_ACR_LOGGING, optarg) o1 = o1\<lparr>http_acr_logging := True\<rparr>"
| "set_plain_option _ o1 = o1"

text \<open>One option; \<open>None\<close> is \<open>return -1\<close>.\<close>

definition require :: "bool \<Rightarrow> 'a \<Rightarrow> 'a option" where
  "require b x = (if b then Some x else None)"

fun set_option :: "library_defaults \<Rightarrow> opt_code \<times> string \<Rightarrow> options \<Rightarrow> options option" where
  "set_option lib (LOCALHOST, optarg) o1 = Some (o1\<lparr>local_host := optarg\<rparr>)"
| "set_option lib (DIAMETER_CONF, optarg) o1 = Some (o1\<lparr>diameter_conf := optarg\<rparr>)"
| "set_option lib (LOCAL_SITE_NAME, optarg) o1 = Some (o1\<lparr>local_site_name := optarg\<rparr>)"
| "set_option lib (SESSION_STORES, optarg) o1 = Some (o1\<lparr>session_stores := split_commas optarg\<rparr>)"
| "set_option lib (HTTP, optarg) o1 = Some (o1\<lparr>http_address := optarg\<rparr>)"
| "set_option lib (SAS_SYSTEM, optarg) o1 = Some (o1\<lparr>sas_system_name := optarg\<rparr>)"
| "set_option lib (HTTP_THREADS, optarg) o1 = Some (o1\<lparr>http_threads := atoi optarg\<rparr>)"
| "set_option lib (BILLING_REALM, optarg) o1 = Some (o1\<lparr>billing_realm := optarg\<rparr>)"
| "set_option lib (BILLING_PEER, optarg) o1 = Some (o1\<lparr>billing_peer := optarg\<rparr>)"
| "set_option lib (MAX_PEERS, optarg) o1 = Some (o1\<lparr>max_peers := atoi optarg\<rparr>)"
| "set_option lib (ACCESS_LOG, optarg) o1 =
     Some (o1\<lparr>access_log_enabled := True, access_log_directory := optarg\<rparr>)"
| "set_option lib (DNS_SERVER, optarg) o1 = Some (o1\<lparr>dns_servers := split_string lib optarg\<rparr>)"
| "set_option lib (LOG_FILE, optarg) o1 = Some o1"
| "set_option lib (LOG_LEVEL, optarg) o1 = Some o1"
| "set_option lib (DAEMON, optarg) o1 = Some o1"
| "set_option lib (RAM_RECORD_EVERYTHING, optarg) o1 = Some o1"
| "set_option lib (HELP, optarg) o1 = None"
| "set_option lib (TARGET_LATENCY_US, optarg) o1 =
     require (\<not> atoi optarg \<le> 0) (o1\<lparr>target_latency_us := atoi optarg\<rparr>)"
| "set_option lib (DIAMETER_TIMEOUT_MS, optarg) o1 = Some (o1\<lparr>diameter_timeout_ms := atoi optarg\<rparr>)"
| "set_option lib (MAX_TOKENS, optarg) o1 =
     require (\<not> atoi optarg \<le> 0) (o1\<lparr>max_tokens := atoi optarg\<rparr>)"
| "set_option lib (INIT_TOKEN_RATE, optarg) o1 =
     require (\<not> atoi optarg \<le> 0) (o1\<lparr>init_token_rate := atoi optarg\<rparr>)"
| "set_option lib (MIN_TOKEN_RATE, optarg) o1 =
     require (\<not> atoi optarg \<le> 0) (o1\<lparr>min_token_rate := atoi optarg\<rparr>)"
| "set_option lib (MAX_TOKEN_RATE, optarg) o1 =
     require (\<not> atoi optarg < 0) (o1\<lparr>max_token_rate := atoi optarg\<rparr>)"
| "set_option lib (UNKNOWN_OPTION, optarg) o1 = None"
| "set_option lib (code, optarg) o1 = Some (set_plain_option (code, optarg) o1)"

fun option_loop :: "library_defaults \<Rightarrow> (opt_code \<times> string) list \<Rightarrow> options \<Rightarrow> options option" where
  "option_loop lib [] o1 = Some o1"
| "option_loop lib (a # args) o1 =
     (case set_option lib a o1 of None \<Rightarrow> None | Some o2 \<Rightarrow> option_loop lib args o2)"

text \<open>A timeout that was not given is derived from the target latency.\<close>

definition settle_diameter_timeout :: "library_defaults \<Rightarrow> bool \<Rightarrow> options \<Rightarrow> options" where
  "settle_diameter_timeout lib diameter_timeout_set o1 =
     (if diameter_timeout_set then o1
      else o1\<lparr>diameter_timeout_ms := calculate_diameter_timeout lib (target_latency_us o1)\<rparr>)"

definition init_options :: "library_defaults \<Rightarrow> (opt_code \<times> string) list \<Rightarrow> options \<Rightarrow> options option" where
  "init_options lib args o1 =
     map_option (settle_diameter_timeout lib (list_ex (\<lambda>a. fst a = DIAMETER_TIMEOUT_MS) args))
       (option_loop lib args o1)"

end
