(* ===== verification/Ralf_Main.thy ===== *)
theory Ralf_Main
  imports Ralf_Options Billing_Handler
begin

text \<open>
  Start-up (\<open>main\<close> in src/main.cpp): the exit paths, and what the objects that handle requests
  are built from: the session manager with its stores and the sender factory, the Chronos
  connection, the HTTP routes. The operating system and cpp-common are the record
  \<open>host\<close>. The library objects around them, the logs and shutdown are in theory Ralf_Lifecycle.
\<close>

section \<open>The surroundings\<close>

datatype address_family = AF_INET | AF_INET6

datatype ip_address_type =
    IPV6_ADDRESS | IPV6_ADDRESS_WITH_PORT | IPV6_ADDRESS_BRACKETED | OTHER_ADDRESS

record host =
  lock_and_write_pidfile :: "string \<Rightarrow> int"
  parse_multi_site_stores_arg :: "string list \<Rightarrow> string \<Rightarrow> (string \<times> string list) option"
  diameter_stack_starts :: bool
  parse_ip_address :: "string \<Rightarrow> ip_address_type"

section \<open>Chronos\<close>

definition is_ipv6 :: "ip_address_type \<Rightarrow> bool" where
  "is_ipv6 t \<longleftrightarrow> t = IPV6_ADDRESS \<or> t = IPV6_ADDRESS_WITH_PORT \<or> t = IPV6_ADDRESS_BRACKETED"

text \<open>The Chronos service, the callback address and the address family of the HTTP client.\<close>

definition chronos_config :: "host \<Rightarrow> options \<Rightarrow> string \<times> string \<times> address_family" where
  "chronos_config h opts =
     (let port_str = nat_to_string (http_port opts)
      in if chronos_hostname opts = ''''
         then (if is_ipv6 (parse_ip_address h (http_address opts))
               then (''127.0.0.1:7253'', ''[::1]:'' @ port_str, AF_INET6)
               else (''127.0.0.1:7253'', ''127.0.0.1:'' @ port_str, AF_INET))
         else (chronos_hostname opts @ '':7253'',
               (if ralf_chronos_callback_uri opts \<noteq> ''''
                then ralf_chronos_callback_uri opts @ '':'' @ port_str
                else ralf_hostname opts),
               (if is_ipv6 (parse_ip_address h (chronos_hostname opts)) then AF_INET6 else AF_INET)))"

section \<open>Routes\<close>

datatype route = PingRoute | BillingRoute

text \<open>The paths \<open>^/ping$\<close> and \<open>^/call-id/[^/]*$\<close> match.\<close>

definition http_route :: "string \<Rightarrow> route option" where
  "http_route path =
     (if path = ''/ping'' then Some PingRoute
      else if take 9 path = ''/call-id/'' \<and> CHR ''/'' \<notin> set (drop 9 path) then Some BillingRoute
      else None)"

section \<open>main\<close>

text \<open>
  The running process: its options, the locations of the stores by store number (the local one
  is 0) and the session manager. Every \<open>new SessionStore\<close> is a store of its own, also when
  two locations are the same.
\<close>

record process =
  p_options :: options
  p_store_locations :: "string list"
  p_manager :: session_manager
  p_chronos :: "string \<times> string \<times> address_family"

definition build_manager :: "options \<Rightarrow> string list \<Rightarrow> session_manager" where
  "build_manager opts remote_locations =
     \<lparr>local_store = 0, remote_stores = map Suc [0..<length remote_locations],
      factory = \<lparr>f_dest_realm = billing_realm opts, f_diameter_timeout = diameter_timeout_ms opts\<rparr>\<rparr>"

text \<open>\<open>Inl rc\<close> is an exit with status \<open>rc\<close> before any request is taken.\<close>

definition ralf_main :: "library_defaults \<Rightarrow> host \<Rightarrow> (opt_code \<times> string) list \<Rightarrow> int + process" where
  "ralf_main lib h args =
     (case init_options lib args (init_logging_options args (default_options lib)) of
        None \<Rightarrow> Inl 1
      | Some opts \<Rightarrow>
          if pidfile opts \<noteq> '''' \<and> lock_and_write_pidfile h (pidfile opts) = -1 then Inl 2
          else if ralf_hostname opts = '''' then Inl 1
          else
          (case parse_multi_site_stores_arg h (session_stores opts) (local_site_name opts) of
             None \<Rightarrow> Inl 1
           | Some (location, remote_locations) \<Rightarrow>
               if \<not> diameter_stack_starts h then Inl 2
               else Inr \<lparr>p_options = opts, p_store_locations = location # remote_locations,
                         p_manager = build_manager opts remote_locations,
                         p_chronos = chronos_config h opts\<rparr>))"

text \<open>A request the process takes: the route decides, the billing handler logs and runs.\<close>

definition request_logger :: "process \<Rightarrow> http_request \<Rightarrow> sas_logger" where
  "request_logger p req = billing_sas_logger (http_acr_logging (p_options p)) req"

end
