(* ===== verification/Pd_Logs.thy ===== *)
theory Pd_Logs
  imports Main
begin

text \<open>
  The problem definition logs (include/ralf_pd_definitions.h): what Ralf tells the operator in
  syslog. The identity is the offset from \<open>PDLogBase::CL_RALF_ID\<close>; adjacent C++ string literals
  are joined.
\<close>

datatype severity = LOG_EMERG | LOG_ALERT | LOG_CRIT | LOG_ERR | LOG_WARNING | LOG_NOTICE | LOG_INFO

record pd_log =
  pd_identity :: nat
  pd_severity :: severity
  pd_message :: string
  pd_cause :: string
  pd_effect :: string
  pd_action :: string

definition CL_RALF_INVALID_SAS_OPTION :: pd_log where
  "CL_RALF_INVALID_SAS_OPTION =
     \<lparr>pd_identity = 1, pd_severity = LOG_INFO,
      pd_message = ''The sas_server option in /etc/clearwater/config is invalid or not configured.'',
      pd_cause = ''The interface to the SAS is not specified.'',
      pd_effect = ''No call traces will appear in the SAS.'',
      pd_action = ''Set the fully qualified sas hostname for the sas_server=<hostname> option. ''\<rparr>"

definition CL_RALF_INVALID_OPTION_C :: pd_log where
  "CL_RALF_INVALID_OPTION_C =
     \<lparr>pd_identity = 2, pd_severity = LOG_ERR,
      pd_message = ''Fatal - Unknown command line option %c.  Run with --help for options.'',
      pd_cause = ''There was an invalid command line option in /etc/clearwater/config'',
      pd_effect = ''The application will exit and restart until the problem is fixed.'',
      pd_action = ''Correct the /etc/clearwater/config file.''\<rparr>"

definition CL_RALF_CRASHED :: pd_log where
  "CL_RALF_CRASHED =
     \<lparr>pd_identity = 3, pd_severity = LOG_ERR,
      pd_message = ''Fatal - Ralf has exited or crashed with signal %s.'',
      pd_cause = ''Ralf has encountered a fatal software error or has been terminated'',
      pd_effect = ''The application will exit and restart until the problem is fixed.'',
      pd_action = ''Ensure that Ralf has been installed correctly and that it has valid configuration.''\<rparr>"

definition CL_RALF_STARTED :: pd_log where
  "CL_RALF_STARTED =
     \<lparr>pd_identity = 4, pd_severity = LOG_ERR,
      pd_message = ''Ralf started.'',
      pd_cause = ''The Ralf application is starting.'',
      pd_effect = ''Normal.'',
      pd_action = ''None.''\<rparr>"

definition CL_RALF_HTTP_ERROR :: pd_log where
  "CL_RALF_HTTP_ERROR =
     \<lparr>pd_identity = 5, pd_severity = LOG_ERR,
      pd_message = ''The HTTP stack has encountered an error in function %s with error %d.'',
      pd_cause = ''Ralf encountered an error when attempting to make an HTTP connection to Chronos.'',
      pd_effect = ''The interface to Chronos has failed.  Ralf can't use timer services.'',
      pd_action = ''Check the /etc/clearwater/config for Chronos.''\<rparr>"

definition CL_RALF_ENDED :: pd_log where
  "CL_RALF_ENDED =
     \<lparr>pd_identity = 6, pd_severity = LOG_ERR,
      pd_message = ''Ralf ended - Termination signal received - terminating.'',
      pd_cause = ''Ralf has been terminated by Monit or has exited.'',
      pd_effect = ''Ralf billing service is not longer available.'',
      pd_action = ''(1). This occurs normally when Ralf is stopped. (2). If Ralf failed to respond then monit can restart Ralf. ''\<rparr>"

definition CL_RALF_HTTP_STOP_ERROR :: pd_log where
  "CL_RALF_HTTP_STOP_ERROR =
     \<lparr>pd_identity = 7, pd_severity = LOG_ERR,
      pd_message = ''Failed to stop HTTP stack in function %s with error %d.'',
      pd_cause = ''When Ralf was exiting it encountered an error when shutting down the HTTP stack.'',
      pd_effect = ''Not critical as Ralf is exiting anyway.'',
      pd_action = ''None.''\<rparr>"

definition CL_RALF_DIAMETER_INIT_FAIL :: pd_log where
  "CL_RALF_DIAMETER_INIT_FAIL =
     \<lparr>pd_identity = 8, pd_severity = LOG_ERR,
      pd_message = ''Fatal - Failed to initialize Diameter stack in function %s with error %d.'',
      pd_cause = ''The Diameter interface could not be initialized or encountered an error while running.'',
      pd_effect = ''The application will exit and restart until the problem is fixed.'',
      pd_action = ''(1). Check the configuration for the Diameter destination hosts. (2). Check the connectivity to the Diameter host using Wireshark.''\<rparr>"

definition CL_RALF_DIAMETER_STOP_FAIL :: pd_log where
  "CL_RALF_DIAMETER_STOP_FAIL =
     \<lparr>pd_identity = 9, pd_severity = LOG_ERR,
      pd_message = ''Failed to stop Diameter stack in function %s with error %d.'',
      pd_cause = ''The Diameter interface encountered an error when shutting down the Diameter interface.'',
      pd_effect = ''Not critical as Ralf is exiting anyway.'',
      pd_action = ''No action required.''\<rparr>"

definition all_pd_logs :: "pd_log list" where
  "all_pd_logs =
     [CL_RALF_INVALID_SAS_OPTION, CL_RALF_INVALID_OPTION_C, CL_RALF_CRASHED, CL_RALF_STARTED,
      CL_RALF_HTTP_ERROR, CL_RALF_ENDED, CL_RALF_HTTP_STOP_ERROR, CL_RALF_DIAMETER_INIT_FAIL,
      CL_RALF_DIAMETER_STOP_FAIL]"

lemmas pd_log_defs =
  CL_RALF_INVALID_SAS_OPTION_def CL_RALF_INVALID_OPTION_C_def CL_RALF_CRASHED_def
  CL_RALF_STARTED_def CL_RALF_HTTP_ERROR_def CL_RALF_ENDED_def CL_RALF_HTTP_STOP_ERROR_def
  CL_RALF_DIAMETER_INIT_FAIL_def CL_RALF_DIAMETER_STOP_FAIL_def

text \<open>A log that announces the end of the process.\<close>

definition announces_exit :: "pd_log \<Rightarrow> bool" where
  "announces_exit l \<longleftrightarrow> take 26 (pd_effect l) = ''The application will exit ''"

lemma announces_exit_simps [simp]:
  "\<not> announces_exit CL_RALF_INVALID_SAS_OPTION" "announces_exit CL_RALF_INVALID_OPTION_C"
  "announces_exit CL_RALF_CRASHED" "\<not> announces_exit CL_RALF_STARTED"
  "\<not> announces_exit CL_RALF_HTTP_ERROR" "\<not> announces_exit CL_RALF_ENDED"
  "\<not> announces_exit CL_RALF_HTTP_STOP_ERROR" "announces_exit CL_RALF_DIAMETER_INIT_FAIL"
  "\<not> announces_exit CL_RALF_DIAMETER_STOP_FAIL"
  by (simp_all add: announces_exit_def pd_log_defs)

lemma pd_identities: "map pd_identity all_pd_logs = [1, 2, 3, 4, 5, 6, 7, 8, 9]"
  by (simp add: all_pd_logs_def pd_log_defs)

lemma pd_identity_inj: "inj_on pd_identity (set all_pd_logs)"
proof -
  have "distinct (map pd_identity all_pd_logs)" unfolding pd_identities by simp
  then show ?thesis unfolding distinct_map by blast
qed

end
