(* ===== verification/Ralf_Lifecycle.thy ===== *)
theory Ralf_Lifecycle
  imports Ralf_Main Pd_Logs
begin

text \<open>
  The life of the process (\<open>main\<close>, \<open>signal_handler\<close> and \<open>terminate_handler\<close> in
  src/main.cpp): the objects \<open>main\<close> creates with what it passes to their constructors, the calls
  it makes on them, the logs it writes, and what it deletes after the termination signal, in the
  order of the code. All of these objects but the session stores, the session manager, the
  billing handler, its configuration, the sender factory and the dictionary are cpp-common's; what
  their methods do is not modelled, only that the calls on the two stacks may throw.
\<close>

section \<open>Objects and events\<close>

datatype object =
    DiameterStack | AlarmManager | CdfAlarm | ChronosAlarm | AstaireAlarm | RemoteAstaireAlarm
  | CdfCommMonitor | ChronosCommMonitor | AstaireCommMonitor | RemoteAstaireCommMonitor
  | AccessLogger | SasService | LoadMonitor | HealthChecker | ExceptionHandler | RfDictionary
  | DnsResolver | AstaireResolver | LocalMemstore | LocalSessionStore | RemoteMemstore nat
  | RemoteSessionStore nat | BillingHandlerConfig | SenderFactory | HttpResolver
  | ChronosHttpClient | ChronosHttpConnection | ChronosConnection | SessionManagerObject
  | HttpStack | PingHandler | BillingHandler | DiameterResolver | RealmManager

datatype argument =
    IntArg int | StringArg string | StringsArg "string list" | BoolArg bool | FamilyArg address_family

datatype signal = SIGABRT | SIGSEGV | SIGTERM
datatype disposition = SIG_DFL | SignalHandler | TerminateHandler

text \<open>
  \<open>Function\<close> is a call of a free or static function. \<open>Call\<close> lists the objects passed besides
  the one called.
\<close>

datatype life_event =
    New object "object list" "argument list"
  | Call object string "object list" "argument list"
  | Delete object
  | Function string "argument list"
  | Signal signal disposition
  | PdLogged pd_log "argument list"

text \<open>
  What the surroundings decide: whether the local host is an IPv6 literal, and the exceptions of
  the two stacks: after how many calls of the block, in which function, with which code.
\<close>

type_synonym exception = "nat \<times> string \<times> int"

record outcomes =
  inet6_literal :: "string \<Rightarrow> bool"
  diameter_start_throws :: "exception option"
  http_start_throws :: "exception option"
  http_stop_throws :: "exception option"
  diameter_stop_throws :: "exception option"

text \<open>A try block and its handler: the calls before the exception, then the log.\<close>

definition try_block :: "life_event list \<Rightarrow> exception option \<Rightarrow> pd_log \<Rightarrow> life_event list" where
  "try_block es throws log =
     (case throws of
        None \<Rightarrow> es
      | Some (k, func, rc) \<Rightarrow> take k es @ [PdLogged log [StringArg func, IntArg rc]])"

section \<open>Signal handlers\<close>

definition terminate_handler :: "life_event list" where
  "terminate_handler = [Function ''sem_post'' []]"

text \<open>
  \<open>handled\<close> says whether the exception handler has a jump buffer for the thread, in which case
  the call does not come back.
\<close>

definition signal_handler :: "bool \<Rightarrow> string \<Rightarrow> life_event list" where
  "signal_handler handled signame =
     [Signal SIGABRT SIG_DFL, Signal SIGSEGV SignalHandler,
      Call ExceptionHandler ''handle_exception'' [] []] @
     (if handled then []
      else [PdLogged CL_RALF_CRASHED [StringArg signame], Function ''TRC_BACKTRACE_ADV'' [],
            Function ''TRC_COMMIT'' [], Function ''RamRecorder::dump'' [StringArg ''/var/log/ralf''],
            Function ''abort'' []])"

section \<open>Start-up\<close>

definition main_prologue :: "life_event list" where
  "main_prologue =
     [Signal SIGABRT SignalHandler, Signal SIGSEGV SignalHandler, Function ''sem_init'' [],
      Signal SIGTERM TerminateHandler]"

definition log_setup :: "options \<Rightarrow> life_event list" where
  "log_setup opts =
     [Function ''daemon_log_setup'' [BoolArg (daemon opts), StringArg (log_directory opts),
        IntArg (log_level opts), BoolArg (log_to_file opts)]] @
     (if ram_record_everything opts then [Function ''RamRecorder::recordEverything'' []] else []) @
     [PdLogged CL_RALF_STARTED []]"

text \<open>The log of the second pass over the options: only an unknown option has one.\<close>

fun option_loop_logs :: "library_defaults \<Rightarrow> (opt_code \<times> string) list \<Rightarrow> options \<Rightarrow> life_event list" where
  "option_loop_logs lib [] o1 = []"
| "option_loop_logs lib (a # args) o1 =
     (case set_option lib a o1 of
        None \<Rightarrow> (if fst a = UNKNOWN_OPTION then [PdLogged CL_RALF_INVALID_OPTION_C []] else [])
      | Some o2 \<Rightarrow> option_loop_logs lib args o2)"

text \<open>The two constants of \<open>AlarmDef\<close> are given by their names.\<close>

definition alarm_args :: "string \<Rightarrow> argument list" where
  "alarm_args alarm = [StringArg ''ralf'', StringArg alarm, StringArg ''CRITICAL'']"

definition alarm_objects :: "life_event list" where
  "alarm_objects =
     [Function ''start_signal_handlers'' [], New AlarmManager [] [],
      New CdfAlarm [AlarmManager] (alarm_args ''RALF_CDF_COMM_ERROR''),
      New CdfCommMonitor [CdfAlarm] [StringArg ''Ralf'', StringArg ''CDF''],
      New ChronosAlarm [AlarmManager] (alarm_args ''RALF_CHRONOS_COMM_ERROR''),
      New ChronosCommMonitor [ChronosAlarm] [StringArg ''Ralf'', StringArg ''Chronos''],
      New AstaireAlarm [AlarmManager] (alarm_args ''RALF_ASTAIRE_COMM_ERROR''),
      New AstaireCommMonitor [AstaireAlarm] [StringArg ''Ralf'', StringArg ''Astaire''],
      New RemoteAstaireAlarm [AlarmManager] (alarm_args ''RALF_REMOTE_ASTAIRE_COMM_ERROR''),
      New RemoteAstaireCommMonitor [RemoteAstaireAlarm] [StringArg ''Ralf'', StringArg ''remote Astaire'']]"

definition access_logger :: "options \<Rightarrow> object list" where
  "access_logger opts = (if access_log_enabled opts then [AccessLogger] else [])"

definition monitor_objects :: "options \<Rightarrow> life_event list" where
  "monitor_objects opts =
     map (\<lambda>l. New l [] [StringArg (access_log_directory opts)]) (access_logger opts) @
     [New SasService [] [StringArg (sas_system_name opts), StringArg ''ralf'', BoolArg (sas_signaling_if opts)],
      New LoadMonitor [] [IntArg (target_latency_us opts), IntArg (max_tokens opts),
        IntArg (init_token_rate opts), IntArg (min_token_rate opts), IntArg (max_token_rate opts)],
      New HealthChecker [] [], Call HealthChecker ''start_thread'' [] [],
      New ExceptionHandler [HealthChecker] [IntArg (exception_max_ttl opts), BoolArg False]]"

definition diameter_start :: "options \<Rightarrow> life_event list" where
  "diameter_start opts =
     [Call DiameterStack ''initialize'' [] [],
      Call DiameterStack ''configure'' [ExceptionHandler, CdfCommMonitor] [StringArg (diameter_conf opts)],
      New RfDictionary [] [],
      Call DiameterStack ''advertize_application'' [RfDictionary] [],
      Call DiameterStack ''start'' [] []]"

definition host_family :: "outcomes \<Rightarrow> options \<Rightarrow> address_family" where
  "host_family oc opts = (if inet6_literal oc (local_host opts) then AF_INET6 else AF_INET)"

definition store_objects :: "outcomes \<Rightarrow> options \<Rightarrow> string \<Rightarrow> string list \<Rightarrow> life_event list" where
  "store_objects oc opts location remotes =
     [New DnsResolver [] [StringsArg (dns_servers opts), IntArg (dns_timeout opts)],
      New AstaireResolver [DnsResolver]
        [FamilyArg (host_family oc opts), IntArg (astaire_blacklist_duration opts)],
      New LocalMemstore [AstaireResolver, AstaireCommMonitor] [StringArg location, BoolArg False],
      New LocalSessionStore [LocalMemstore] []] @
     concat (map (\<lambda>i. [New (RemoteMemstore i) [AstaireResolver, RemoteAstaireCommMonitor]
                          [StringArg (remotes ! i), BoolArg True],
                        New (RemoteSessionStore i) [RemoteMemstore i] []]) [0..<length remotes])"

definition manager_objects :: "host \<Rightarrow> options \<Rightarrow> nat \<Rightarrow> life_event list" where
  "manager_objects h opts n =
     (let (chronos_service, chronos_callback_addr, http_af) = chronos_config h opts
      in [New BillingHandlerConfig [] [],
          New SenderFactory [] [StringArg (billing_realm opts), IntArg (diameter_timeout_ms opts)],
          New HttpResolver [DnsResolver] [FamilyArg http_af, IntArg (http_blacklist_duration opts)],
          New ChronosHttpClient [HttpResolver, ChronosCommMonitor] [BoolArg False, StringArg ''DETAIL''],
          New ChronosHttpConnection [ChronosHttpClient] [StringArg chronos_service],
          New ChronosConnection [ChronosHttpConnection] [StringArg chronos_callback_addr],
          New SessionManagerObject
            (LocalSessionStore # map RemoteSessionStore [0..<n] @
             [RfDictionary, SenderFactory, ChronosConnection, DiameterStack, HealthChecker]) [],
          Call BillingHandlerConfig ''mgr ='' [SessionManagerObject] [],
          New HttpStack ([ExceptionHandler] @ access_logger opts @ [LoadMonitor]) [IntArg (http_threads opts)],
          New PingHandler [] [],
          New BillingHandler [BillingHandlerConfig] [BoolArg (http_acr_logging opts)]])"

definition http_start :: "options \<Rightarrow> life_event list" where
  "http_start opts =
     [Call HttpStack ''initialize'' [] [],
      Call HttpStack ''bind_tcp_socket'' [] [StringArg (http_address opts), IntArg (int (http_port opts))],
      Call HttpStack ''register_handler'' [PingHandler] [StringArg ''^/ping$''],
      Call HttpStack ''register_handler'' [BillingHandler] [StringArg ''^/call-id/[^/]*$''],
      Call HttpStack ''start'' [] []]"

definition realm_objects :: "outcomes \<Rightarrow> options \<Rightarrow> life_event list" where
  "realm_objects oc opts =
     [New DiameterResolver [DnsResolver]
        [FamilyArg (host_family oc opts), IntArg (diameter_blacklist_duration opts)],
      New RealmManager [DiameterStack, DiameterResolver]
        [StringArg (billing_realm opts), StringArg (billing_peer opts), IntArg (max_peers opts)],
      Call RealmManager ''start'' [] []]"

section \<open>Shutdown\<close>

definition stack_stop :: "object \<Rightarrow> life_event list" where
  "stack_stop stack = [Call stack ''stop'' [] [], Call stack ''wait_stopped'' [] []]"

text \<open>The two handlers are local variables of \<open>main\<close>, destroyed when it returns.\<close>

definition teardown :: "nat \<Rightarrow> life_event list" where
  "teardown n =
     [Call RealmManager ''stop'' [] [], Delete RealmManager, Delete DiameterResolver,
      Delete ChronosConnection, Delete ChronosHttpConnection, Delete ChronosHttpClient,
      Delete HttpResolver, Delete DnsResolver, Delete LoadMonitor,
      Delete LocalSessionStore, Delete LocalMemstore] @
     map (\<lambda>i. Delete (RemoteSessionStore i)) [0..<n] @
     map (\<lambda>i. Delete (RemoteMemstore i)) [0..<n] @
     [Delete AstaireResolver,
      Call HealthChecker ''stop_thread'' [] [], Delete ExceptionHandler, Delete HealthChecker,
      Delete HttpStack, Delete CdfCommMonitor, Delete ChronosCommMonitor, Delete AstaireCommMonitor,
      Delete RemoteAstaireCommMonitor, Delete AlarmManager, Delete SasService,
      Signal SIGTERM SIG_DFL, Function ''sem_destroy'' [], Delete BillingHandler, Delete PingHandler]"

definition shutdown :: "outcomes \<Rightarrow> nat \<Rightarrow> life_event list" where
  "shutdown oc n =
     [PdLogged CL_RALF_ENDED []] @
     try_block (stack_stop HttpStack) (http_stop_throws oc) CL_RALF_HTTP_STOP_ERROR @
     try_block (stack_stop DiameterStack) (diameter_stop_throws oc) CL_RALF_DIAMETER_STOP_FAIL @
     teardown n"

section \<open>main\<close>

text \<open>From the Diameter stack on, for a configuration that has been accepted.\<close>

definition main_serving :: "host \<Rightarrow> outcomes \<Rightarrow> options \<Rightarrow> string \<Rightarrow> string list \<Rightarrow> life_event list" where
  "main_serving h oc opts location remotes =
     store_objects oc opts location remotes @
     manager_objects h opts (length remotes) @
     try_block (http_start opts) (http_start_throws oc) CL_RALF_HTTP_ERROR @
     realm_objects oc opts @
     [Function ''sem_wait'' []] @
     shutdown oc (length remotes)"

text \<open>The events of a run of \<open>main\<close> that is ended by SIGTERM if it gets that far, and its status.\<close>

definition main_run ::
  "library_defaults \<Rightarrow> host \<Rightarrow> outcomes \<Rightarrow> (opt_code \<times> string) list \<Rightarrow> life_event list \<times> int" where
  "main_run lib h oc args =
     (let o1 = init_logging_options args (default_options lib);
          es = main_prologue @ log_setup o1
      in case init_options lib args o1 of
           None \<Rightarrow> (es @ option_loop_logs lib args o1, 1)
         | Some opts \<Rightarrow>
             if pidfile opts \<noteq> '''' \<and> lock_and_write_pidfile h (pidfile opts) = -1 then (es, 2)
             else if ralf_hostname opts = '''' then (es, 1)
             else
             (case parse_multi_site_stores_arg h (session_stores opts) (local_site_name opts) of
                None \<Rightarrow> (es, 1)
              | Some (location, remotes) \<Rightarrow>
                  (let es1 = es @ alarm_objects @ monitor_objects opts @
                         try_block (diameter_start opts) (diameter_start_throws oc) CL_RALF_DIAMETER_INIT_FAIL
                   in if diameter_start_throws oc \<noteq> None then (es1, 2)
                      else (es1 @ main_serving h oc opts location remotes, 0))))"

end
