(* ===== verification/Main_Properties.thy ===== *)
theory Main_Properties
  imports Ralf_Main Handler_Properties
begin

text \<open>
  What start-up guarantees: the limits the load monitor and the Diameter timeout get, that the
  stores of the session manager are different ones, as the refinement theorems assume, and that
  timer callbacks reach the billing handler.
\<close>

section \<open>Options\<close>

lemma require_Some [simp]: "require b x = Some y \<longleftrightarrow> b \<and> x = y"
  by (simp add: require_def)

definition limits_ok :: "options \<Rightarrow> bool" where
  "limits_ok o1 \<longleftrightarrow> 0 < target_latency_us o1 \<and> 0 < max_tokens o1 \<and> 0 < init_token_rate o1 \<and>
     0 < min_token_rate o1 \<and> 0 \<le> max_token_rate o1"

lemma set_option_limits: "set_option lib a o1 = Some o2 \<Longrightarrow> limits_ok o1 \<Longrightarrow> limits_ok o2"
  by (cases "(lib, a, o1)" rule: set_option.cases) (auto simp: limits_ok_def)

lemma option_loop_limits: "option_loop lib args o1 = Some o2 \<Longrightarrow> limits_ok o1 \<Longrightarrow> limits_ok o2"
  by (induction args arbitrary: o1) (auto split: option.splits dest: set_option_limits)

lemma logging_option_limits [simp]: "limits_ok (logging_option a o1) = limits_ok o1"
  by (cases "(a, o1)" rule: logging_option.cases) (auto simp: limits_ok_def)

lemma init_logging_limits [simp]: "limits_ok (init_logging_options args o1) = limits_ok o1"
  unfolding init_logging_options_def by (induction args arbitrary: o1) auto

text \<open>The two passes look after different fields, so their order does not matter.\<close>

lemma set_option_logging:
  "set_option lib a (logging_option b o1) = map_option (logging_option b) (set_option lib a o1)"
  by (cases "(lib, a, o1)" rule: set_option.cases; cases "(b, o1)" rule: logging_option.cases)
     (auto simp: require_def)

lemma option_loop_logging:
  "option_loop lib args (logging_option b o1) = map_option (logging_option b) (option_loop lib args o1)"
  by (induction args arbitrary: o1) (simp_all add: set_option_logging split: option.split)

text \<open>The start-up sequence as far as the options are concerned.\<close>

lemma ralf_main_options:
  assumes "ralf_main lib h args = Inr p"
  obtains o2 remotes where
    "option_loop lib args (init_logging_options args (default_options lib)) = Some o2"
    "p_options p = (if list_ex (\<lambda>a. fst a = DIAMETER_TIMEOUT_MS) args then o2
       else o2\<lparr>diameter_timeout_ms := calculate_diameter_timeout lib (target_latency_us o2)\<rparr>)"
    "ralf_hostname (p_options p) \<noteq> ''''"
    "p_store_locations p = hd (p_store_locations p) # remotes"
    "p_manager p = build_manager (p_options p) remotes" "p_chronos p = chronos_config h (p_options p)"
  using assms by (auto simp: ralf_main_def init_options_def settle_diameter_timeout_def split:
      option.splits if_splits)

lemma default_limits: "limits_ok (default_options lib)"
  by (simp add: limits_ok_def default_options_def)

text \<open>
  Whatever the command line, a process that starts has a positive target latency, bucket
  size, initial and minimum token rate and a non-negative maximum rate; and it refuses to start, with exit
  status 1 or 2, otherwise.
\<close>

lemma startup_limits:
  assumes "ralf_main lib h args = r"
  shows "case r of
      Inl rc \<Rightarrow> rc = 1 \<or> rc = 2
    | Inr p \<Rightarrow> 0 < target_latency_us (p_options p) \<and> 0 < max_tokens (p_options p) \<and>
        0 < init_token_rate (p_options p) \<and> 0 < min_token_rate (p_options p) \<and>
        0 \<le> max_token_rate (p_options p)"
proof (cases r)
  case (Inl rc)
  then show ?thesis using assms by (auto simp: ralf_main_def split: option.splits if_splits)
next
  case (Inr p)
  obtain o2 where o2: "option_loop lib args (init_logging_options args (default_options lib)) = Some o2"
    "p_options p = (if list_ex (\<lambda>a. fst a = DIAMETER_TIMEOUT_MS) args then o2
       else o2\<lparr>diameter_timeout_ms := calculate_diameter_timeout lib (target_latency_us o2)\<rparr>)"
    using assms unfolding Inr by (rule ralf_main_options)
  have "limits_ok o2" using option_loop_limits [OF o2(1)] default_limits by simp
  with o2(2) Inr show ?thesis by (simp add: limits_ok_def)
qed

definition sample_lib :: library_defaults where
  "sample_lib = \<lparr>default_http_blacklist = 30, default_diameter_blacklist = 30,
     default_astaire_blacklist = 30, default_dns_timeout = 200,
     calculate_diameter_timeout = (\<lambda>us. 2 * us div 1000), split_string = split_commas, uninit_bool = True\<rparr>"

definition sample_host :: host where
  "sample_host = \<lparr>lock_and_write_pidfile = (\<lambda>_. 0),
     parse_multi_site_stores_arg = (\<lambda>stores site. case stores of [] \<Rightarrow> None | s # ss \<Rightarrow> Some (s, ss)),
     diameter_stack_starts = True, parse_ip_address = (\<lambda>_. OTHER_ADDRESS)\<rparr>"

definition sample_args :: "(opt_code \<times> string) list" where
  "sample_args = [(SESSION_STORES, ''a,b,b''), (RALF_HOSTNAME, ''ralf''), (MAX_TOKENS, '' 50x'')]"

lemma sample_main:
  obtains p where "ralf_main sample_lib sample_host sample_args = Inr p"
    "p_store_locations p = [''a'', ''b'', ''b'']"
  by (simp add: ralf_main_def init_options_def settle_diameter_timeout_def init_logging_options_def
      sample_args_def sample_host_def
      sample_lib_def default_options_def require_def atoi_def c_space_def is_digit_def
      digits_to_nat_def digit_val_def)

lemma set_option_timeout:
  "set_option lib a o1 = Some o2 \<Longrightarrow>
     diameter_timeout_ms o2 = (if fst a = DIAMETER_TIMEOUT_MS then atoi (snd a) else diameter_timeout_ms o1)"
  by (cases "(lib, a, o1)" rule: set_option.cases) auto

lemma option_loop_timeout:
  "option_loop lib args o1 = Some o2 \<Longrightarrow>
     diameter_timeout_ms o2 =
       (case filter (\<lambda>a. fst a = DIAMETER_TIMEOUT_MS) args of
          [] \<Rightarrow> diameter_timeout_ms o1 | a # as \<Rightarrow> atoi (snd (last (a # as))))"
proof (induction args arbitrary: o1)
  case (Cons a args)
  then obtain o3 where o3: "set_option lib a o1 = Some o3" "option_loop lib args o3 = Some o2"
    by (auto split: option.splits)
  from Cons.IH [OF o3(2)] set_option_timeout [OF o3(1)] show ?case
    by (auto split: list.splits)
qed simp

text \<open>
  The timeout of every Diameter request the process sends is the one from the last
  --diameter-timeout-ms option; without such an option it is computed from the target latency,
  the final one, wherever that option stands on the command line. The destination realm is
  the configured billing realm.
\<close>

lemma diameter_timeout_choice:
  assumes "ralf_main lib h args = Inr p"
  shows "f_diameter_timeout (factory (p_manager p)) =
      (case filter (\<lambda>a. fst a = DIAMETER_TIMEOUT_MS) args of
         [] \<Rightarrow> calculate_diameter_timeout lib (target_latency_us (p_options p))
       | a # as \<Rightarrow> atoi (snd (last (a # as)))) \<and>
    f_dest_realm (factory (p_manager p)) = billing_realm (p_options p)"
proof -
  obtain o2 remotes where
    o2: "option_loop lib args (init_logging_options args (default_options lib)) = Some o2"
    "p_options p = (if list_ex (\<lambda>a. fst a = DIAMETER_TIMEOUT_MS) args then o2
       else o2\<lparr>diameter_timeout_ms := calculate_diameter_timeout lib (target_latency_us o2)\<rparr>)"
    "p_manager p = build_manager (p_options p) remotes"
    using assms by (rule ralf_main_options)
  have "list_ex (\<lambda>a. fst a = DIAMETER_TIMEOUT_MS) args \<longleftrightarrow> filter (\<lambda>a. fst a = DIAMETER_TIMEOUT_MS) args \<noteq> []"
    by (auto simp: list_ex_iff filter_empty_conv)
  with option_loop_timeout [OF o2(1)] o2(2,3) show ?thesis
    by (auto simp: build_manager_def split: list.splits)
qed

section \<open>Stores, logging and routes\<close>

text \<open>
  The session manager of a running process has one store per configured location, the local
  one and one for each remote site, and they are all different stores, even when two locations
  are the same text. This is what the refinement theorems ask of a manager.
\<close>

lemma startup_stores_distinct:
  assumes "ralf_main lib h args = Inr p"
  shows "distinct (all_stores (p_manager p)) \<and>
    all_stores (p_manager p) = [0..<length (p_store_locations p)]"
proof -
  obtain remotes where r: "p_store_locations p = hd (p_store_locations p) # remotes"
    "p_manager p = build_manager (p_options p) remotes"
    using assms by (rule ralf_main_options)
  then have "length (p_store_locations p) = Suc (length remotes)" by (metis length_Cons)
  with r(2) show ?thesis by (simp add: build_manager_def map_Suc_upt upt_conv_Cons del: upt_Suc)
qed

lemma set_option_acr_logging:
  "set_option lib a o1 = Some o2 \<Longrightarrow> fst a \<noteq> HTTP_ACR_LOGGING \<Longrightarrow> http_acr_logging o2 = http_acr_logging o1"
  by (cases "(lib, a, o1)" rule: set_option.cases) auto

lemma option_loop_acr_logging:
  "option_loop lib args o1 = Some o2 \<Longrightarrow> HTTP_ACR_LOGGING \<notin> fst ` set args \<Longrightarrow>
     http_acr_logging o2 = http_acr_logging o1"
  by (induction args arbitrary: o1) (auto split: option.splits dest: set_option_acr_logging)

lemma logging_option_acr_logging [simp]: "http_acr_logging (logging_option a o1) = http_acr_logging o1"
  by (cases "(a, o1)" rule: logging_option.cases) auto

lemma init_logging_acr_logging [simp]: "http_acr_logging (init_logging_options args o1) = http_acr_logging o1"
  unfolding init_logging_options_def by (induction args arbitrary: o1) auto

text \<open>
  Without --http-acr-logging the choice of the logger for ACR requests, and with it whether
  their bodies appear in SAS, is made by a field that nothing has initialised: it is whatever
  the memory of \<open>main\<close>'s options structure held.
\<close>

lemma acr_logging_uninitialised:
  assumes "ralf_main lib h args = Inr p" "HTTP_ACR_LOGGING \<notin> fst ` set args"
    and "req_param req TIMER_INTERIM_PARAM \<noteq> ''true''"
  shows "request_logger p req = (if uninit_bool lib then DEFAULT_SAS_LOGGER else PRIVATE_SAS_LOGGER)"
proof -
  obtain o2 where
    o2: "option_loop lib args (init_logging_options args (default_options lib)) = Some o2"
    "p_options p = (if list_ex (\<lambda>a. fst a = DIAMETER_TIMEOUT_MS) args then o2
       else o2\<lparr>diameter_timeout_ms := calculate_diameter_timeout lib (target_latency_us o2)\<rparr>)"
    using assms(1) by (rule ralf_main_options)
  from option_loop_acr_logging [OF o2(1) assms(2)] o2(2) have "http_acr_logging (p_options p) = uninit_bool lib"
    by (simp add: default_options_def)
  with assms(3) show ?thesis by (simp add: request_logger_def billing_sas_logger_def)
qed

text \<open>
  The path of a timer's callback URI reaches the billing handler, for every call identifier,
  as long as URL escaping leaves no slash; a path with another slash after the call identifier
  reaches no handler, so the timer flag has to be the query parameter it is.
\<close>

lemma callback_uri_routed:
  assumes "\<forall>call. CHR ''/'' \<notin> set (url_escape env call)"
  shows "\<exists>path. callback_uri env msg = path @ ''?timer-interim=true'' \<and> http_route path = Some BillingRoute \<and>
    http_route (path @ ''/timer-interim=true'') = None"
  using assms
  by (intro exI [of _ "''/call-id/'' @ url_escape env (m_call_id msg)"])
     (simp add: callback_uri_def http_route_def)

end
