(* ===== verification/Lifecycle_Properties.thy ===== *)
theory Lifecycle_Properties
  imports Ralf_Lifecycle Main_Properties
begin

text \<open>
  What \<open>main\<close> does with its objects: it uses nothing before it is created or after it is
  deleted and deletes nothing twice, on every path; which objects it leaves behind; that it stops
  both stacks before it deletes anything they use, unless stopping them fails; and what the
  operator is told.
\<close>

section \<open>Objects that are alive\<close>

fun life_ok :: "object set \<Rightarrow> life_event list \<Rightarrow> bool" where
  "life_ok L [] = True"
| "life_ok L (New ob obs args # es) = (ob \<notin> L \<and> list_all (\<lambda>x. x \<in> L) obs \<and> life_ok (insert ob L) es)"
| "life_ok L (Call ob name obs args # es) = (ob \<in> L \<and> list_all (\<lambda>x. x \<in> L) obs \<and> life_ok L es)"
| "life_ok L (Delete ob # es) = (ob \<in> L \<and> life_ok (L - {ob}) es)"
| "life_ok L (_ # es) = life_ok L es"

fun live_after :: "object set \<Rightarrow> life_event list \<Rightarrow> object set" where
  "live_after L [] = L"
| "live_after L (New ob obs args # es) = live_after (insert ob L) es"
| "live_after L (Delete ob # es) = live_after (L - {ob}) es"
| "live_after L (_ # es) = live_after L es"

lemma life_ok_append [simp]: "life_ok L (es @ fs) \<longleftrightarrow> life_ok L es \<and> life_ok (live_after L es) fs"
  by (induction L es rule: life_ok.induct) auto

lemma live_after_append [simp]: "live_after L (es @ fs) = live_after (live_after L es) fs"
  by (induction L es rule: live_after.induct) auto

lemma life_ok_take: "life_ok L es \<Longrightarrow> life_ok L (take k es)"
  by (metis append_take_drop_id life_ok_append)

text \<open>A block that creates and deletes nothing, cut short or not.\<close>

fun only_calls :: "life_event \<Rightarrow> bool" where
  "only_calls (New _ _ _) = False"
| "only_calls (Delete _) = False"
| "only_calls _ = True"

lemma live_after_only_calls: "list_all only_calls es \<Longrightarrow> live_after L es = L"
proof (induction es)
  case (Cons e es)
  then show ?case by (cases e) simp_all
qed simp

lemma life_ok_try_block:
  "life_ok L es \<Longrightarrow> life_ok L (try_block es throws log)"
  by (auto simp: try_block_def life_ok_take split: option.split)

lemma live_after_try_block:
  assumes "list_all only_calls es"
  shows "live_after L (try_block es throws log) = L"
proof -
  have "list_all only_calls (take k es)" for k
    using assms by (auto simp: list_all_iff dest: in_set_takeD)
  with assms show ?thesis
    by (auto simp: try_block_def live_after_only_calls split: option.split)
qed

section \<open>The phases of main\<close>

definition base_objects :: "options \<Rightarrow> object set" where
  "base_objects opts =
     {DiameterStack, AlarmManager, CdfAlarm, ChronosAlarm, AstaireAlarm, RemoteAstaireAlarm,
      CdfCommMonitor, ChronosCommMonitor, AstaireCommMonitor, RemoteAstaireCommMonitor,
      SasService, LoadMonitor, HealthChecker, ExceptionHandler} \<union> set (access_logger opts)"

definition remote_objects :: "nat \<Rightarrow> object set" where
  "remote_objects n = RemoteMemstore ` {..<n} \<union> RemoteSessionStore ` {..<n}"

definition store_set :: "object set" where
  "store_set = {DnsResolver, AstaireResolver, LocalMemstore, LocalSessionStore}"

definition manager_set :: "object set" where
  "manager_set = {BillingHandlerConfig, SenderFactory, HttpResolver, ChronosHttpClient,
     ChronosHttpConnection, ChronosConnection, SessionManagerObject, HttpStack, PingHandler, BillingHandler}"

definition realm_set :: "object set" where
  "realm_set = {DiameterResolver, RealmManager}"

lemma phase_prologue:
  "life_ok L main_prologue" "live_after L main_prologue = L"
  "life_ok L (log_setup o1)" "live_after L (log_setup o1) = L"
  by (simp_all add: main_prologue_def log_setup_def)

lemma phase_options:
  "life_ok L (option_loop_logs lib args o1)" "live_after L (option_loop_logs lib args o1) = L"
  by (induction args arbitrary: o1) (simp_all split: option.split)

lemma phase_base:
  "life_ok {DiameterStack} (alarm_objects @ monitor_objects opts)"
  "live_after {DiameterStack} (alarm_objects @ monitor_objects opts) = base_objects opts"
  by (auto simp: alarm_objects_def monitor_objects_def access_logger_def base_objects_def)

lemma phase_diameter:
  "life_ok (base_objects opts) (diameter_start opts)"
  "live_after (base_objects opts) (diameter_start opts) = insert RfDictionary (base_objects opts)"
  by (auto simp: diameter_start_def base_objects_def access_logger_def)

lemma remote_objects_simps [simp]:
  "remote_objects 0 = {}"
  "remote_objects (Suc n) = insert (RemoteMemstore n) (insert (RemoteSessionStore n) (remote_objects n))"
  "RemoteMemstore i \<in> remote_objects n \<longleftrightarrow> i < n" "RemoteSessionStore i \<in> remote_objects n \<longleftrightarrow> i < n"
  by (auto simp: remote_objects_def lessThan_Suc)

lemma remote_stores_created:
  fixes as defines "es n \<equiv> concat (map (\<lambda>i. [New (RemoteMemstore i) [AstaireResolver,
      RemoteAstaireCommMonitor] (as i),
      New (RemoteSessionStore i) [RemoteMemstore i] []]) [0..<n])"
  assumes "AstaireResolver \<in> L" "RemoteAstaireCommMonitor \<in> L" "L \<inter> remote_objects n = {}"
  shows "life_ok L (es n)" "live_after L (es n) = L \<union> remote_objects n"
proof -
  have "life_ok L (es m) \<and> live_after L (es m) = L \<union> remote_objects m" if "L \<inter> remote_objects m = {}" for m
    using that
  proof (induction m)
    case (Suc m)
    then show ?case using assms(2,3) by (simp add: es_def) blast
  qed (simp add: es_def)
  with assms(4) show "life_ok L (es n)" "live_after L (es n) = L \<union> remote_objects n" by simp_all
qed

definition serving_objects :: "options \<Rightarrow> nat \<Rightarrow> object set" where
  "serving_objects opts n =
     insert RfDictionary (base_objects opts) \<union> store_set \<union> remote_objects n \<union> manager_set"

lemma base_objects_mem [simp]:
  "DiameterStack \<in> base_objects opts" "ExceptionHandler \<in> base_objects opts" "LoadMonitor \<in> base_objects opts"
  "HealthChecker \<in> base_objects opts" "AstaireCommMonitor \<in> base_objects opts"
  "RemoteAstaireCommMonitor \<in> base_objects opts" "ChronosCommMonitor \<in> base_objects opts"
  "x \<in> set (access_logger opts) \<Longrightarrow> x \<in> base_objects opts"
  "x \<in> store_set \<union> remote_objects n \<union> manager_set \<union> realm_set \<Longrightarrow> x \<notin> base_objects opts"
  "RemoteMemstore i \<notin> base_objects opts" "RemoteSessionStore i \<notin> base_objects opts"
  by (auto simp: base_objects_def store_set_def remote_objects_def manager_set_def realm_set_def
      access_logger_def)

lemma phase_stores:
  fixes opts defines "L \<equiv> insert RfDictionary (base_objects opts)"
  shows "life_ok L (store_objects oc opts location remotes)"
    "live_after L (store_objects oc opts location remotes) = L \<union> store_set \<union> remote_objects (length remotes)"
proof -
  let ?L = "insert LocalSessionStore (insert LocalMemstore (insert AstaireResolver (insert DnsResolver L)))"
  have out: "x \<notin> L" if "x \<in> store_set \<union> remote_objects (length remotes)" for x
    using that base_objects_mem(9) [of x "length remotes" opts]
    by (auto simp: L_def store_set_def remote_objects_def)
  have "?L \<inter> remote_objects (length remotes) = {}" using out by (auto simp: remote_objects_def)
  note r = remote_stores_created [of ?L "length remotes"
      "\<lambda>i. [StringArg (remotes ! i), BoolArg True]", OF _ _ this]
  have fresh: "DnsResolver \<notin> L" "AstaireResolver \<notin> L" "LocalMemstore \<notin> L" "LocalSessionStore \<notin> L"
    using out by (auto simp: store_set_def)
  show "life_ok L (store_objects oc opts location remotes)"
    using r(1) fresh by (simp add: store_objects_def L_def)
  show "live_after L (store_objects oc opts location remotes) = L \<union> store_set \<union> remote_objects (length remotes)"
    using r(2) by (auto simp: store_objects_def L_def store_set_def)
qed

lemma phase_manager:
  fixes opts n defines "L \<equiv> insert RfDictionary (base_objects opts) \<union> store_set \<union> remote_objects n"
  shows "life_ok L (manager_objects h opts n)" "live_after L (manager_objects h opts n) =
      serving_objects opts n"
proof -
  have out: "x \<notin> L" if "x \<in> manager_set" for x
    using that base_objects_mem(9) [of x n opts]
    by (auto simp: L_def store_set_def remote_objects_def manager_set_def)
  have mem: "DnsResolver \<in> L" "ChronosCommMonitor \<in> L" "LocalSessionStore \<in> L" "RfDictionary \<in> L"
    "DiameterStack \<in> L" "HealthChecker \<in> L" "ExceptionHandler \<in> L" "LoadMonitor \<in> L"
    "list_all (\<lambda>x. x \<in> L) (map RemoteSessionStore [0..<n])" "list_all (\<lambda>x. x \<in> L) (access_logger opts)"
    by (auto simp: L_def store_set_def list_all_iff)
  obtain service addr af where c: "chronos_config h opts = (service, addr, af)" by (metis prod.exhaust)
  show "life_ok L (manager_objects h opts n)"
    using out mem by (simp add: manager_objects_def c manager_set_def list_all_iff)
  show "live_after L (manager_objects h opts n) = serving_objects opts n"
    by (auto simp: manager_objects_def c manager_set_def serving_objects_def L_def)
qed

lemma phase_http:
  "life_ok (serving_objects opts n) (try_block (http_start opts) throws log)"
  "live_after (serving_objects opts n) (try_block (http_start opts) throws log) = serving_objects opts n"
  by (rule life_ok_try_block, simp add: http_start_def serving_objects_def manager_set_def)
     (rule live_after_try_block, simp add: http_start_def)

lemma phase_realm:
  "life_ok (serving_objects opts n) (realm_objects oc opts)"
  "live_after (serving_objects opts n) (realm_objects oc opts) = serving_objects opts n \<union> realm_set"
proof -
  have "DiameterResolver \<notin> serving_objects opts n" "RealmManager \<notin> serving_objects opts n"
    using base_objects_mem(9) [of _ n opts]
    by (auto simp: serving_objects_def store_set_def remote_objects_def manager_set_def realm_set_def)
  moreover have "DnsResolver \<in> serving_objects opts n" "DiameterStack \<in> serving_objects opts n"
    by (simp_all add: serving_objects_def store_set_def)
  ultimately show "life_ok (serving_objects opts n) (realm_objects oc opts)"
    by (simp add: realm_objects_def)
  show "live_after (serving_objects opts n) (realm_objects oc opts) = serving_objects opts n \<union> realm_set"
    by (auto simp: realm_objects_def realm_set_def)
qed

lemma deletes:
  assumes "distinct obs" "set obs \<subseteq> L"
  shows "life_ok L (map Delete obs)" "live_after L (map Delete obs) = L - set obs"
  using assms
proof (induction obs arbitrary: L)
  case (Cons ob obs)
  { case 1
    then have "set obs \<subseteq> L - {ob}" by auto
    with 1 Cons.IH(1) [of "L - {ob}"] show ?case by simp }
  { case 2
    then have "set obs \<subseteq> L - {ob}" by auto
    with 2 Cons.IH(2) [of "L - {ob}"] show ?case by auto }
qed simp_all

text \<open>What is left when \<open>main\<close> returns.\<close>

definition left_behind :: "options \<Rightarrow> object set" where
  "left_behind opts =
     {DiameterStack, CdfAlarm, ChronosAlarm, AstaireAlarm, RemoteAstaireAlarm, RfDictionary,
      BillingHandlerConfig, SenderFactory, SessionManagerObject} \<union> set (access_logger opts)"

definition first_deletes :: "nat \<Rightarrow> object list" where
  "first_deletes n = [RealmManager, DiameterResolver, ChronosConnection, ChronosHttpConnection,
     ChronosHttpClient, HttpResolver, DnsResolver, LoadMonitor, LocalSessionStore, LocalMemstore] @
     map RemoteSessionStore [0..<n] @ map RemoteMemstore [0..<n] @ [AstaireResolver]"

definition second_deletes :: "object list" where
  "second_deletes = [ExceptionHandler, HealthChecker, HttpStack, CdfCommMonitor, ChronosCommMonitor,
     AstaireCommMonitor, RemoteAstaireCommMonitor, AlarmManager, SasService]"

definition last_deletes :: "object list" where
  "last_deletes = [BillingHandler, PingHandler]"

lemma teardown_deletes:
  "teardown n =
     [Call RealmManager ''stop'' [] []] @ map Delete (first_deletes n) @
     [Call HealthChecker ''stop_thread'' [] []] @ map Delete second_deletes @
     [Signal SIGTERM SIG_DFL, Function ''sem_destroy'' []] @ map Delete last_deletes"
  by (simp add: teardown_def comp_def first_deletes_def second_deletes_def last_deletes_def)

lemma phase_teardown:
  fixes opts n defines "L \<equiv> serving_objects opts n \<union> realm_set"
  shows "life_ok L (teardown n)" "live_after L (teardown n) = left_behind opts"
proof -
  let ?M = "base_objects opts - {LoadMonitor} \<union> {RfDictionary, BillingHandlerConfig, SenderFactory,
       SessionManagerObject, HttpStack, PingHandler, BillingHandler}"
  have d: "distinct (first_deletes n)" "distinct second_deletes" "distinct last_deletes"
    by (auto simp: first_deletes_def second_deletes_def last_deletes_def distinct_map inj_on_def)
  have s1: "set (first_deletes n) \<subseteq> L" "RealmManager \<in> L"
    by (auto simp: first_deletes_def L_def serving_objects_def store_set_def manager_set_def realm_set_def)
  have M: "L - set (first_deletes n) = ?M"
    unfolding L_def serving_objects_def store_set_def manager_set_def realm_set_def remote_objects_def
        first_deletes_def
    by (auto simp: base_objects_def access_logger_def)
  have s2: "set second_deletes \<subseteq> ?M" "HealthChecker \<in> ?M"
    by (simp_all add: base_objects_def second_deletes_def)
  have s3: "set last_deletes \<subseteq> ?M - set second_deletes" by (simp add: last_deletes_def second_deletes_def)
  have left: "?M - set second_deletes - set last_deletes = left_behind opts"
    by (auto simp: base_objects_def left_behind_def access_logger_def second_deletes_def last_deletes_def)
  note k = deletes [OF d(1) s1(1)] deletes [OF d(2) s2(1)] deletes [OF d(3) s3]
  show "life_ok L (teardown n)" unfolding teardown_deletes using k s1(2) s2(2) M by simp
  show "live_after L (teardown n) = left_behind opts" unfolding teardown_deletes using k M left by simp
qed

section \<open>Runs of main\<close>

text \<open>A run that is not refused goes through all the phases.\<close>

lemma main_run_zero:
  assumes "main_run lib h oc args = (es, 0)"
  obtains opts location remotes where
    "init_options lib args (init_logging_options args (default_options lib)) = Some opts"
    "es = main_prologue @ log_setup (init_logging_options args (default_options lib)) @
       (alarm_objects @ monitor_objects opts) @ diameter_start opts @
       main_serving h oc opts location remotes"
  using assms
  by (auto simp: main_run_def Let_def try_block_def split: option.splits if_splits)

lemma main_serving_life:
  fixes opts defines "L \<equiv> insert RfDictionary (base_objects opts)"
  shows "life_ok L (main_serving h oc opts location remotes)"
    "live_after L (main_serving h oc opts location remotes) = left_behind opts"
proof -
  let ?n = "length remotes" and ?S = "serving_objects opts (length remotes)"
  have stop: "life_ok (?S \<union> realm_set) (stack_stop s)" if "s \<in> ?S" for s
    using that by (simp add: stack_stop_def)
  have in_S: "HttpStack \<in> ?S" "DiameterStack \<in> ?S"
    by (simp_all add: serving_objects_def manager_set_def)
  have calls: "live_after M (try_block (stack_stop s) t l) = M" for M s t l
    by (rule live_after_try_block) (simp add: stack_stop_def)
  have "life_ok (?S \<union> realm_set) (shutdown oc ?n)"
    "live_after (?S \<union> realm_set) (shutdown oc ?n) = left_behind opts"
    by (simp_all add: shutdown_def calls life_ok_try_block stop in_S phase_teardown del: Un_insert_right)
  then show "life_ok L (main_serving h oc opts location remotes)"
    "live_after L (main_serving h oc opts location remotes) = left_behind opts"
    by (simp_all add: main_serving_def L_def phase_stores phase_manager phase_http phase_realm
        del: Un_insert_left Un_insert_right)
qed

text \<open>
  C26: whatever the command line, and whatever the stacks do, \<open>main\<close> calls a method of an object,
  or passes an object on, only when it has created it and not deleted it yet; it creates no object
  twice and deletes none twice. (The Diameter stack is the library's own instance and is there
  from the beginning.)
\<close>

theorem lifecycle_safe: "life_ok {DiameterStack} (fst (main_run lib h oc args))"
proof -
  have diameter: "life_ok (base_objects opts) (try_block (diameter_start opts) t l)" for opts t l
    by (rule life_ok_try_block) (rule phase_diameter)
  have through: "live_after (base_objects opts) (try_block (diameter_start opts) None l) =
      insert RfDictionary (base_objects opts)" for opts l
    by (simp add: try_block_def phase_diameter)
  show ?thesis
    by (cases "diameter_start_throws oc"; use phase_base diameter through in
        \<open>auto simp: main_run_def Let_def phase_prologue phase_options main_serving_life split: option.split\<close>)
qed

section \<open>Shutdown\<close>

fun is_delete :: "life_event \<Rightarrow> bool" where
  "is_delete (Delete _) = True"
| "is_delete _ = False"

lemma try_block_deletes: "\<not> list_ex is_delete es \<Longrightarrow> \<not> list_ex is_delete (try_block es t l)"
  by (auto simp: try_block_def list_ex_iff dest: in_set_takeD split: option.split)

lemma serving_deletes_late:
  "\<not> list_ex is_delete (store_objects oc opts location remotes @ manager_objects h opts n @
     try_block (http_start opts) t l @ realm_objects oc opts)"
proof -
  have "\<not> list_ex is_delete (try_block (http_start opts) t l)"
    by (rule try_block_deletes) (simp add: http_start_def)
  then show ?thesis
    by (cases "chronos_config h opts")
       (auto simp: store_objects_def manager_objects_def realm_objects_def list_ex_iff)
qed

lemma startup_deletes_nothing:
  "\<not> list_ex is_delete (main_prologue @ log_setup o1 @ (alarm_objects @ monitor_objects opts) @
      diameter_start opts)"
  by (auto simp: main_prologue_def log_setup_def alarm_objects_def monitor_objects_def
      access_logger_def diameter_start_def)

text \<open>What a run that served requests does from the signal on.\<close>

lemma main_run_shutdown:
  assumes "main_run lib h oc args = (es, 0)"
  obtains opts n up where
    "init_options lib args (init_logging_options args (default_options lib)) = Some opts"
    "es = up @ shutdown oc n" "\<not> list_ex is_delete up" "live_after {DiameterStack} es = left_behind opts"
proof -
  let ?o = "init_logging_options args (default_options lib)"
  from assms obtain opts location remotes where o: "init_options lib args ?o = Some opts"
    and es: "es = main_prologue @ log_setup ?o @ (alarm_objects @ monitor_objects opts) @
       diameter_start opts @ main_serving h oc opts location remotes"
    by (rule main_run_zero)
  define serve where "serve = store_objects oc opts location remotes @
     manager_objects h opts (length remotes) @
     try_block (http_start opts) (http_start_throws oc) CL_RALF_HTTP_ERROR @ realm_objects oc opts"
  define up where "up = (main_prologue @ log_setup ?o @ (alarm_objects @ monitor_objects opts) @
     diameter_start opts) @ serve @ [Function ''sem_wait'' []]"
  have "es = up @ shutdown oc (length remotes)"
    unfolding es up_def serve_def main_serving_def by simp
  moreover have "\<not> list_ex is_delete up"
    using startup_deletes_nothing serving_deletes_late unfolding up_def serve_def by simp
  moreover have "live_after {DiameterStack} es = left_behind opts"
    using phase_base(2) [of opts]
    unfolding es by (simp add: phase_prologue phase_diameter main_serving_life)
  ultimately show ?thesis using o that by blast
qed

text \<open>
  C27: after SIGTERM, when stopping works, \<open>main\<close> stops the HTTP stack and then the Diameter
  stack and waits for each, before it deletes anything; and of the objects it created only the
  four alarms, the dictionary, the sender factory, the session manager, the handler
  configuration and the access logger are not deleted by it.
\<close>

theorem clean_shutdown:
  assumes "main_run lib h oc args = (es, 0)"
    and "http_stop_throws oc = None" "diameter_stop_throws oc = None"
  shows "\<exists>opts up down.
    init_options lib args (init_logging_options args (default_options lib)) = Some opts \<and>
    es = up @ stack_stop HttpStack @ stack_stop DiameterStack @ down \<and>
    (\<forall>ob. Delete ob \<notin> set up) \<and>
    live_after {DiameterStack} es = left_behind opts"
proof -
  obtain opts n up where
    "init_options lib args (init_logging_options args (default_options lib)) = Some opts"
    "es = up @ shutdown oc n" "\<not> list_ex is_delete up" "live_after {DiameterStack} es = left_behind opts"
    using assms(1) by (rule main_run_shutdown)
  moreover from this(3) have "Delete ob \<notin> set (up @ [PdLogged CL_RALF_ENDED []])" for ob
    by (force simp: list_ex_iff)
  ultimately show ?thesis
    using assms(2,3)
    by (intro exI [of _ opts] exI [of _ "up @ [PdLogged CL_RALF_ENDED []]"] exI [of _ "teardown n"])
       (auto simp: shutdown_def try_block_def)
qed

definition sample_outcomes :: outcomes where
  "sample_outcomes = \<lparr>inet6_literal = (\<lambda>_. False), diameter_start_throws = None,
     http_start_throws = None, http_stop_throws = None, diameter_stop_throws = None\<rparr>"

lemma sample_options:
  obtains opts where
    "init_options sample_lib sample_args (init_logging_options sample_args (default_options sample_lib))
        = Some opts"
    "pidfile opts = ''''" "ralf_hostname opts = ''ralf''" "session_stores opts = [''a'', ''b'', ''b'']"
  by (simp add: init_options_def settle_diameter_timeout_def init_logging_options_def sample_args_def
      sample_lib_def default_options_def require_def atoi_def c_space_def is_digit_def
      digits_to_nat_def digit_val_def)

lemma sample_run:
  assumes "diameter_start_throws oc = None"
  obtains es where "main_run sample_lib sample_host oc sample_args = (es, 0)"
proof -
  obtain opts where
    "init_options sample_lib sample_args (init_logging_options sample_args (default_options sample_lib))
        = Some opts"
    "pidfile opts = ''''" "ralf_hostname opts = ''ralf''" "session_stores opts = [''a'', ''b'', ''b'']"
    by (rule sample_options)
  with assms that show ?thesis by (simp add: main_run_def sample_host_def)
qed

theorem clean_shutdown_witness:
  "\<exists>es. main_run sample_lib sample_host sample_outcomes sample_args = (es, 0) \<and>
     HttpStack \<notin> live_after {DiameterStack} es"
proof -
  obtain es where es: "main_run sample_lib sample_host sample_outcomes sample_args = (es, 0)"
    by (rule sample_run [of sample_outcomes]) (simp_all add: sample_outcomes_def)
  from clean_shutdown [OF es] have "HttpStack \<notin> live_after {DiameterStack} es"
    by (auto simp: sample_outcomes_def left_behind_def access_logger_def)
  with es show ?thesis by blast
qed

section \<open>Shutdown that fails\<close>

text \<open>
  When the HTTP stack refuses to stop, \<open>main\<close> reports it and goes on: it never waits for the
  HTTP threads, and deletes the stores, the Chronos connection, the load monitor and the exception
  handler that requests in those threads use.
\<close>

lemma failed_stop_deletes:
  assumes "main_run lib h oc args = (es, 0)" "http_stop_throws oc = Some (k, func, rc)" "k \<le> 1"
  shows "PdLogged CL_RALF_HTTP_STOP_ERROR [StringArg func, IntArg rc] \<in> set es \<and>
    (\<forall>ob. ob \<in> {LocalSessionStore, LocalMemstore, ChronosConnection, LoadMonitor, ExceptionHandler} \<longrightarrow>
       Delete ob \<in> set es) \<and>
    Call HttpStack ''wait_stopped'' [] [] \<notin> set es"
proof -
  obtain opts location remotes where es: "es = main_prologue @
       log_setup (init_logging_options args (default_options lib)) @
       (alarm_objects @ monitor_objects opts) @ diameter_start opts @
       main_serving h oc opts location remotes"
    using assms(1) by (rule main_run_zero)
  let ?wait = "Call HttpStack ''wait_stopped'' [] []"
  have no_wait: "?wait \<notin> set (try_block (http_start opts) t l)"
    "?wait \<notin> set (try_block (stack_stop DiameterStack) t l)" for t l
    by (auto simp: try_block_def http_start_def stack_stop_def dest!: in_set_takeD split: option.split)
  have "take k (stack_stop HttpStack) = (if k = 0 then [] else [Call HttpStack ''stop'' [] []])"
    using assms(3) by (cases k) (auto simp: stack_stop_def)
  then have stop: "try_block (stack_stop HttpStack) (http_stop_throws oc) CL_RALF_HTTP_STOP_ERROR =
     (if k = 0 then [] else [Call HttpStack ''stop'' [] []]) @
     [PdLogged CL_RALF_HTTP_STOP_ERROR [StringArg func, IntArg rc]]"
    by (simp add: try_block_def assms(2))
  have "?wait \<notin> set (teardown n)" for n by (auto simp: teardown_def)
  with no_wait have "?wait \<notin> set es"
    unfolding es main_serving_def shutdown_def stop
    by (cases "chronos_config h opts")
       (auto simp: main_prologue_def log_setup_def alarm_objects_def monitor_objects_def
         diameter_start_def store_objects_def manager_objects_def realm_objects_def)
  then show ?thesis unfolding es main_serving_def shutdown_def stop by (auto simp: teardown_def)
qed

section \<open>What the operator sees\<close>

definition logs :: "life_event list \<Rightarrow> pd_log set" where
  "logs es = {l. \<exists>a. PdLogged l a \<in> set es}"

lemma logs_simps [simp]:
  "logs [] = {}" "logs (PdLogged l a # es) = insert l (logs es)" "logs (es @ fs) = logs es \<union> logs fs"
  "logs (New ob obs as # es) = logs es" "logs (Call ob f obs as # es) = logs es"
      "logs (Delete ob # es) = logs es"
  "logs (Function f as # es) = logs es" "logs (Signal s d # es) = logs es"
  by (auto simp: logs_def)

lemma logs_map [simp]:
  "logs (map (\<lambda>x. New (f x) (obs x) (as x)) xs) = {}" "logs (map (\<lambda>x. Delete (f x)) xs) = {}"
  by (auto simp: logs_def)

lemma logs_pairs [simp]:
  "logs (concat (map (\<lambda>x. [New (f x) (obs x) (as x), New (f' x) (obs' x) (as' x)]) xs)) = {}"
  by (auto simp: logs_def)

lemma logs_try_block:
  assumes "logs es = {}"
  shows "logs (try_block es t l) = (if t = None then {} else {l})"
proof -
  have "logs (take k es) = {}" for k using assms by (auto simp: logs_def dest: in_set_takeD)
  with assms show ?thesis by (auto simp: try_block_def split: option.split)
qed

lemma logs_phases:
  "logs main_prologue = {}" "logs (log_setup o1) = {CL_RALF_STARTED}" "logs alarm_objects = {}"
  "logs (monitor_objects opts) = {}" "logs (diameter_start opts) = {}"
  "logs (store_objects oc opts location remotes) = {}" "logs (manager_objects h opts n) = {}"
  "logs (http_start opts) = {}" "logs (realm_objects oc opts) = {}" "logs (stack_stop s) = {}"
  "logs (teardown n) = {}"
  by (auto simp: main_prologue_def log_setup_def alarm_objects_def monitor_objects_def
      diameter_start_def store_objects_def manager_objects_def http_start_def realm_objects_def
      stack_stop_def teardown_def split: prod.split)

lemma option_loop_logs_unknown:
  "logs (option_loop_logs lib args o1) \<subseteq> {CL_RALF_INVALID_OPTION_C}"
  by (induction args arbitrary: o1) (auto split: option.splits)

lemma pd_log_distinct [simp]:
  "CL_RALF_ENDED \<noteq> CL_RALF_STARTED" "CL_RALF_ENDED \<noteq> CL_RALF_INVALID_OPTION_C"
  "CL_RALF_ENDED \<noteq> CL_RALF_DIAMETER_INIT_FAIL" "CL_RALF_HTTP_ERROR \<noteq> CL_RALF_STARTED"
  "CL_RALF_HTTP_ERROR \<noteq> CL_RALF_INVALID_OPTION_C" "CL_RALF_HTTP_ERROR \<noteq> CL_RALF_DIAMETER_INIT_FAIL"
  "CL_RALF_HTTP_ERROR \<noteq> CL_RALF_ENDED" "CL_RALF_HTTP_ERROR \<noteq> CL_RALF_HTTP_STOP_ERROR"
  "CL_RALF_HTTP_ERROR \<noteq> CL_RALF_DIAMETER_STOP_FAIL" "CL_RALF_DIAMETER_INIT_FAIL \<noteq> CL_RALF_STARTED"
  "CL_RALF_DIAMETER_INIT_FAIL \<noteq> CL_RALF_INVALID_OPTION_C" "CL_RALF_DIAMETER_INIT_FAIL \<noteq> CL_RALF_ENDED"
  "CL_RALF_DIAMETER_INIT_FAIL \<noteq> CL_RALF_HTTP_ERROR" "CL_RALF_DIAMETER_INIT_FAIL \<noteq> CL_RALF_HTTP_STOP_ERROR"
  "CL_RALF_DIAMETER_INIT_FAIL \<noteq> CL_RALF_DIAMETER_STOP_FAIL"
  by (simp_all add: pd_log_defs)

lemma logs_serving:
  "logs (main_serving h oc opts location remotes) = {CL_RALF_ENDED} \<union>
     (if http_start_throws oc = None then {} else {CL_RALF_HTTP_ERROR}) \<union>
     (if http_stop_throws oc = None then {} else {CL_RALF_HTTP_STOP_ERROR}) \<union>
     (if diameter_stop_throws oc = None then {} else {CL_RALF_DIAMETER_STOP_FAIL})"
  by (simp add: main_serving_def shutdown_def logs_phases logs_try_block)

text \<open>A run that is refused by the configuration, by the Diameter stack, or not at all.\<close>

lemma main_run_cases:
  assumes "main_run lib h oc args = (es, rc)"
  obtains (options) "rc = 1" "logs es = {CL_RALF_STARTED} \<union>
        logs (option_loop_logs lib args (init_logging_options args (default_options lib)))"
    | (refused) "rc = 1 \<or> rc = 2" "logs es = {CL_RALF_STARTED}"
    | (diameter) "rc = 2" "diameter_start_throws oc \<noteq> None"
        "logs es = {CL_RALF_STARTED, CL_RALF_DIAMETER_INIT_FAIL}"
    | (serving) opts location remotes where "rc = 0"
        "logs es = {CL_RALF_STARTED} \<union> logs (main_serving h oc opts location remotes)"
proof (cases "init_options lib args (init_logging_options args (default_options lib))")
  case None
  with assms options show ?thesis by (auto simp: main_run_def Let_def logs_phases)
next
  case (Some opts)
  show ?thesis
  proof (cases "pidfile opts \<noteq> '''' \<and> lock_and_write_pidfile h (pidfile opts) = -1 \<or>
      ralf_hostname opts = '''' \<or>
      parse_multi_site_stores_arg h (session_stores opts) (local_site_name opts) = None")
    case True
    then show ?thesis
      using assms refused by (auto simp: main_run_def Let_def Some logs_phases split: if_splits)
  next
    case False
    then obtain location remotes where
      "parse_multi_site_stores_arg h (session_stores opts) (local_site_name opts) = Some (location, remotes)"
      by auto
    with False show ?thesis
      using assms diameter serving [of opts location remotes]
      by (auto simp: main_run_def Let_def Some logs_phases logs_try_block insert_commute split: if_splits)
  qed
qed



section \<open>The process that is built\<close>



section \<open>Crashes\<close>

fun disposition_after :: "signal \<Rightarrow> disposition \<Rightarrow> life_event list \<Rightarrow> disposition" where
  "disposition_after s d [] = d"
| "disposition_after s d (Signal s' d' # es) = disposition_after s (if s' = s then d' else d) es"
| "disposition_after s d (_ # es) = disposition_after s d es"

text \<open>
  The handler restores the default for SIGABRT, so that its own \<open>abort\<close> dumps a core, but for
  SIGSEGV it installs itself again: a second fault enters it again, contrary to its comment.
\<close>

lemma crash_dispositions:
  "disposition_after SIGABRT d (main_prologue @ signal_handler handled name) = SIG_DFL"
  "disposition_after SIGSEGV d (main_prologue @ signal_handler handled name) = SignalHandler"
  "\<not> handled \<Longrightarrow> last (signal_handler handled name) = Function ''abort'' []"
  by (simp_all add: main_prologue_def signal_handler_def)

section \<open>Arguments of the logs\<close>

text \<open>
  Every log \<open>main\<close> and the signal handler write gets as many arguments as its message has
  conversions, but one: the log of an unknown option has a conversion for it and gets none.
\<close>

definition log_args_ok :: "life_event \<Rightarrow> bool" where
  "log_args_ok e \<longleftrightarrow>
     (case e of PdLogged l a \<Rightarrow> length a = count_list (pd_message l) (CHR ''%'') | _ \<Rightarrow> True)"

lemma log_args_ok_simps [simp]:
  "log_args_ok (New ob obs as)" "log_args_ok (Call ob f obs as)" "log_args_ok (Delete ob)"
  "log_args_ok (Function f as)" "log_args_ok (Signal s d)"
  "log_args_ok (PdLogged CL_RALF_STARTED [])" "log_args_ok (PdLogged CL_RALF_ENDED [])"
  "log_args_ok (PdLogged CL_RALF_CRASHED [a])" "\<not> log_args_ok (PdLogged CL_RALF_INVALID_OPTION_C [])"
  by (simp_all add: log_args_ok_def pd_log_defs)

lemma try_block_args:
  assumes "list_all log_args_ok es" "count_list (pd_message l) (CHR ''%'') = 2"
  shows "list_all log_args_ok (try_block es t l)"
  using assms by (auto simp: try_block_def list_all_iff log_args_ok_def dest: in_set_takeD split: option.split)

lemma phases_args:
  "list_all log_args_ok main_prologue" "list_all log_args_ok (log_setup o1)"
      "list_all log_args_ok alarm_objects"
  "list_all log_args_ok (monitor_objects opts)" "list_all log_args_ok (diameter_start opts)"
  "list_all log_args_ok (store_objects oc opts location remotes)"
      "list_all log_args_ok (manager_objects h opts n)"
  "list_all log_args_ok (http_start opts)" "list_all log_args_ok (realm_objects oc opts)"
  "list_all log_args_ok (stack_stop ob)" "list_all log_args_ok (teardown n)"
  "list_all log_args_ok (signal_handler handled name)"
  by (auto simp: main_prologue_def log_setup_def alarm_objects_def monitor_objects_def diameter_start_def
      store_objects_def manager_objects_def http_start_def realm_objects_def stack_stop_def
      teardown_def signal_handler_def list_all_iff split: prod.split)

lemma option_loop_logs_args:
  "e \<in> set (option_loop_logs lib args o1) \<Longrightarrow> e = PdLogged CL_RALF_INVALID_OPTION_C []"
  by (induction args arbitrary: o1) (auto split: option.splits if_splits)

lemma main_run_event:
  assumes "e \<in> set (fst (main_run lib h oc args))"
  obtains (start) "e \<in> set (main_prologue @ log_setup (init_logging_options args (default_options lib)))"
    | (options) "e \<in> set (option_loop_logs lib args (init_logging_options args (default_options lib)))"
    | (base) opts where "e \<in> set (alarm_objects @ monitor_objects opts @
        try_block (diameter_start opts) (diameter_start_throws oc) CL_RALF_DIAMETER_INIT_FAIL)"
    | (serving) opts location remotes where "e \<in> set (main_serving h oc opts location remotes)"
  using assms unfolding main_run_def Let_def set_append
  by (cases "init_options lib args (init_logging_options args (default_options lib))";
      auto simp del: append_assoc split: if_splits option.splits; blast)

lemma log_arguments:
  assumes "e \<in> set (fst (main_run lib h oc args))"
  shows "log_args_ok e \<or> e = PdLogged CL_RALF_INVALID_OPTION_C []"
proof -
  have two: "count_list (pd_message l) (CHR ''%'') = 2" if "l \<in> {CL_RALF_DIAMETER_INIT_FAIL,
      CL_RALF_HTTP_ERROR, CL_RALF_HTTP_STOP_ERROR, CL_RALF_DIAMETER_STOP_FAIL}" for l
    using that by (auto simp: pd_log_defs)
  have serving: "list_all log_args_ok (main_serving h oc opts location remotes)" for opts location remotes
    by (simp add: main_serving_def shutdown_def try_block_args phases_args two)
  have base: "list_all log_args_ok (alarm_objects @ monitor_objects opts @
      try_block (diameter_start opts) t CL_RALF_DIAMETER_INIT_FAIL)" for opts t
    by (simp add: try_block_args phases_args two)
  have start: "list_all log_args_ok (main_prologue @ log_setup o1)" for o1 by (simp add: phases_args)
  from assms show ?thesis
    by (cases rule: main_run_event)
       (use start base serving option_loop_logs_args in \<open>unfold list_all_iff, blast+\<close>)
qed

end
