(* ===== verification/Getopt.thy ===== *)
theory Getopt
  imports Ralf_Options
begin

text \<open>
  The words of the command line. \<open>main\<close> hands them to the C library's \<open>getopt_long\<close> with the
  option string \<open>options_description\<close> and the table \<open>long_opt\<close> (src/main.cpp); \<open>getopt_long\<close>
  here is that function's behaviour as the GNU C library documents it (without
  \<open>POSIXLY_CORRECT\<close>), run until it returns -1. An argument comes with the option, in the same
  word or as the next word whatever that looks like; words that are not options are skipped; a long
  name may be abbreviated as long as it is unambiguous; \<open>--\<close> ends the options. What it returns for a
  word it does not accept, \<open>'?'\<close>, is the code \<open>UNKNOWN_OPTION\<close>. The second pass sees the words in
  the order the first has left them, with the skipped ones at the end: the options are the same.
\<close>

section \<open>Short options\<close>

definition options_description :: string where
  "options_description = ''l:c:H:t:b:p:a:F:L:s:h''"

text \<open>The letters of an option string, each with whether it takes an argument.\<close>

fun short_options :: "string \<Rightarrow> (char \<times> bool) list" where
  "short_options [] = []"
| "short_options [c] = [(c, False)]"
| "short_options (c # d # s) =
     (if d = CHR '':'' then (c, True) # short_options s else (c, False) # short_options (d # s))"

text \<open>The codes that are characters in the source.\<close>

definition letter_codes :: "(char \<times> opt_code) list" where
  "letter_codes =
     [(CHR ''l'', LOCALHOST), (CHR ''c'', DIAMETER_CONF), (CHR ''H'', HTTP), (CHR ''t'', HTTP_THREADS),
      (CHR ''b'', BILLING_REALM), (CHR ''p'', MAX_PEERS), (CHR ''a'', ACCESS_LOG),
      (CHR ''F'', LOG_FILE), (CHR ''L'', LOG_LEVEL), (CHR ''s'', SAS_SYSTEM), (CHR ''h'', HELP)]"

definition find_short :: "char \<Rightarrow> (bool \<times> opt_code) option" where
  "find_short c =
     (case map_of (short_options options_description) c of
        None \<Rightarrow> None
      | Some has_arg \<Rightarrow> map_option (Pair has_arg) (map_of letter_codes c))"

text \<open>The letters of one word, and the words after it: what is returned and the words left.\<close>

fun getopt_letters :: "string \<Rightarrow> string list \<Rightarrow> (opt_code \<times> string) list \<times> string list" where
  "getopt_letters [] argv = ([], argv)"
| "getopt_letters (c # cs) argv =
     (case find_short c of
        None \<Rightarrow> map_prod ((#) (UNKNOWN_OPTION, [])) id (getopt_letters cs argv)
      | Some (False, code) \<Rightarrow> map_prod ((#) (code, [])) id (getopt_letters cs argv)
      | Some (True, code) \<Rightarrow>
          if cs \<noteq> [] then ([(code, cs)], argv)
          else (case argv of [] \<Rightarrow> ([(UNKNOWN_OPTION, [])], []) | a # rest \<Rightarrow> ([(code, a)], rest)))"

section \<open>Long options\<close>

definition find_long :: "string \<Rightarrow> (bool \<times> opt_code) option" where
  "find_long name =
     (case map_of long_opt name of
        Some found \<Rightarrow> Some found
      | None \<Rightarrow>
          (case map snd (filter (\<lambda>entry. prefix name (fst entry)) long_opt) of
             [found] \<Rightarrow> Some found
           | _ \<Rightarrow> None))"

text \<open>\<open>word\<close> is what follows the two dashes.\<close>

definition getopt_name :: "string \<Rightarrow> string list \<Rightarrow> (opt_code \<times> string) \<times> string list" where
  "getopt_name word argv =
     (let name = takeWhile (\<lambda>c. c \<noteq> CHR ''='') word; given = dropWhile (\<lambda>c. c \<noteq> CHR ''='') word
      in case find_long name of
           None \<Rightarrow> ((UNKNOWN_OPTION, []), argv)
         | Some (False, code) \<Rightarrow> ((if given = [] then code else UNKNOWN_OPTION, []), argv)
         | Some (True, code) \<Rightarrow>
             if given \<noteq> [] then ((code, tl given), argv)
             else (case argv of [] \<Rightarrow> ((UNKNOWN_OPTION, []), []) | a # rest \<Rightarrow> ((code, a), rest)))"

section \<open>All words\<close>

lemma getopt_letters_rest: "length (snd (getopt_letters cs argv)) \<le> length argv"
  by (induction cs argv rule: getopt_letters.induct) (auto split: option.splits bool.splits list.splits)

lemma getopt_name_rest: "length (snd (getopt_name word argv)) \<le> length argv"
  by (auto simp: getopt_name_def Let_def split: option.splits bool.splits list.splits)

function getopt_long :: "string list \<Rightarrow> (opt_code \<times> string) list" where
  "getopt_long [] = []"
| "getopt_long (w # argv) =
     (if w = ''--'' then []
      else if take 2 w = ''--''
      then (let (opt, rest) = getopt_name (drop 2 w) argv in opt # getopt_long rest)
      else if take 1 w = ''-'' \<and> w \<noteq> ''-''
      then (let (opts, rest) = getopt_letters (drop 1 w) argv in opts @ getopt_long rest)
      else getopt_long argv)"
  by pat_completeness auto

termination
proof (relation "measure length", goal_cases)
  case (2 w argv p opt rest)
  with getopt_name_rest [of "drop 2 w" argv] show ?case
      by (metis in_measure le_imp_less_Suc length_Cons snd_conv)
next
  case (3 w argv p opts rest)
  with getopt_letters_rest [of "drop 1 w"
      argv] show ?case by (metis in_measure le_imp_less_Suc length_Cons snd_conv)
qed simp_all

declare getopt_long.simps(2) [simp del]

end
