(* ===== verification/Ralf_Usage.thy ===== *)
theory Ralf_Usage
  imports Getopt
begin

text \<open>
  The help screen (\<open>usage\<close> in src/main.cpp), line by line, and what it says about each option: its
  letter if it has one, its long name, and whether it is shown with an argument. Where the source
  has \<open>n\<close> instead of a line break, the line goes on.
\<close>

definition usage :: "string list" where
  "usage =
     [''Options:'',
      '''',
      '' -l, --localhost <hostname> Specify the local hostname or IP address'',
      ''     --local-site-name <name>'',
      ''                            The name of the local site (used in a geo-redundant deployment)'',
      '' -c, --diameter-conf <file> File name for Diameter configuration'',
      ''     --dns-servers <server>[,<server2>,<server3>]'',
      ''                            IP addresses of the DNS servers to use (defaults to 127.0.0.1)'',
      ''     --session-stores <site_name>=<domain>[:<port>][,<site_name>=<domain>[:<port>],...]'',
      ''                            Specifies location of the memcached store in each GR site for storing'',
      ''                            sessions. One of the sites must be the local site. Remote sites for'',
      ''                            geo-redundant storage are optional.'',
      '' -H, --http <address>[:<port>]'',
      ''                            Set HTTP bind address and port (default: 0.0.0.0:8888)'',
      '' -t, --http-threads N       Number of HTTP threads (default: 1)'',
      '' -b, --billing-realm <name> Set Destination-Realm on Rf messages'',
      ''     --billing-peer <name>  If Ralf can't find a CDF by resolving the --billing-realm,'',
      ''                            it will try and connect to this Diameter peer.'',
      '' -p, --max-peers N          Number of peers to connect to (default: 2)'',
      '' -a, --access-log <directory>'',
      ''                            Generate access logs in specified directory'',
      '' -F, --log-file <directory>'',
      ''                            Log to file in specified directory'',
      '' -L, --log-level N          Set log level to N (default: 4)'',
      '' -s, --sas <system name>'',
      ''                            Use specified system name to identify this system to SAS.'',
      ''     --target-latency-us <usecs>'',
      ''                            Target latency above which throttling applies (default: 100000)'',
      ''     --diameter-timeout <milliseconds>'',
      ''                            Length of time (in ms) before timing out a Diameter request to the CDF'',
      ''     --max-tokens N         Maximum number of tokens allowed in the token bucket (used by'',
      ''                            the throttling code (default: 1000))'',
      ''     --dns-timeout <milliseconds>'',
      ''                            The amount of time to wait for a DNS response (default: 200)n     --init-token-rate N    Initial token refill rate of tokens in the token bucket (used by'',
      ''                            the throttling code (default: 100.0))'',
      ''     --min-token-rate N     Minimum token refill rate of tokens in the token bucket (used by'',
      ''                            the throttling code (default: 10.0))'',
      ''     --exception-max-ttl <secs>'',
      ''                            The maximum time before the process exits if it hits an exception.'',
      ''                            The actual time is randomised.'',
      ''     --http-blacklist-duration <secs>'',
      ''                            The amount of time to blacklist an HTTP peer when it is unresponsive.'',
      ''     --diameter-blacklist-duration <secs>'',
      ''                            The amount of time to blacklist a Diameter peer when it is unresponsive.'',
      ''     --astaire-blacklist-duration <secs>'',
      ''                            The amount of time to blacklist an Astaire node when it is unresponsive.'',
      ''     --sas-use-signaling-interface'',
      ''                            Whether SAS traffic is to be dispatched over the signaling network'',
      ''                            interface rather than the default management interface'',
      ''     --chronos-hostname <hostname>'',
      ''                            The hostname of the remote Chronos cluster to use. If unset, the default'',
      ''                            is to use localhost, using localhost as the callback URL.'',
      ''     --ralf-chronos-callback-uri <hostname>'',
      ''                            The ralf hostname used for Chronos callbacks. If unset the default '',
      ''                            is to use the ralf-hostname.'',
      ''                            Ignored if chronos-hostname is not set.'',
      ''     --ralf-hostname <hostname:port>'',
      ''                            The hostname and port of the cluster of Ralf nodes to which this Ralf is'',
      ''                            a member. The port should be the HTTP port the nodes are listening on.'',
      ''                            This is used to form the callback URL for the Chronos cluser.'',
      ''     --http-acr-logging     Whether to include the bodies of ACR HTTP requests when they are logged'',
      ''                            to SAS'',
      ''     --ram-record-everything'',
      ''                            Write all logs to RAM and dump them to file on abnormal termination'',
      ''     --pidfile=<filename>   Write pidfile'',
      ''     --daemon               Run as a daemon'',
      '' -h, --help                 Show this help screen'']"

section \<open>Reading the help screen\<close>

text \<open>
  The line of an option has its letter or a gap at the margin, then the long name. An argument is shown
  in angle brackets or as \<open>N\<close>, after a blank or an equals sign.
\<close>

definition name_char :: "char \<Rightarrow> bool" where
  "name_char c \<longleftrightarrow> c \<noteq> CHR '' '' \<and> c \<noteq> CHR ''=''"

definition shows_argument :: "string \<Rightarrow> bool" where
  "shows_argument s \<longleftrightarrow> take 2 s \<in> {'' <'', ''=<'', '' N''}"

definition documented_option :: "string \<Rightarrow> (char option \<times> string \<times> bool) option" where
  "documented_option line =
     (let letter = (if take 2 line = '' -'' \<and> take 2 (drop 3 line) = '', '' then Some (line ! 2) else None)
      in if (letter \<noteq> None \<or> take 5 line = ''     '') \<and> take 2 (drop 5 line) = ''--''
         then Some (letter, takeWhile name_char (drop 7 line),
             shows_argument (dropWhile name_char (drop 7 line)))
         else None)"

definition documented :: "(char option \<times> string \<times> bool) list" where
  "documented = List.map_filter documented_option usage"

end
