(* ===== verification/Usage_Properties.thy ===== *)
theory Usage_Properties
  imports Ralf_Usage
begin

text \<open>The help screen against the table of options.\<close>

section \<open>The help screen\<close>

lemma documented_table:
  "documented =
     [(Some CHR ''l'', ''localhost'', True), (None, ''local-site-name'', True),
      (Some CHR ''c'', ''diameter-conf'', True), (None, ''dns-servers'', True),
      (None, ''session-stores'', True), (Some CHR ''H'', ''http'', True),
      (Some CHR ''t'', ''http-threads'', True), (Some CHR ''b'', ''billing-realm'', True),
      (None, ''billing-peer'', True), (Some CHR ''p'', ''max-peers'', True),
      (Some CHR ''a'', ''access-log'', True), (Some CHR ''F'', ''log-file'', True),
      (Some CHR ''L'', ''log-level'', True), (Some CHR ''s'', ''sas'', True),
      (None, ''target-latency-us'', True), (None, ''diameter-timeout'', True),
      (None, ''max-tokens'', True), (None, ''dns-timeout'', True), (None, ''min-token-rate'', True),
      (None, ''exception-max-ttl'', True), (None, ''http-blacklist-duration'', True),
      (None, ''diameter-blacklist-duration'', True), (None, ''astaire-blacklist-duration'', True),
      (None, ''sas-use-signaling-interface'', False), (None, ''chronos-hostname'', True),
      (None, ''ralf-chronos-callback-uri'', True), (None, ''ralf-hostname'', True),
      (None, ''http-acr-logging'', False), (None, ''ram-record-everything'', False),
      (None, ''pidfile'', True), (None, ''daemon'', False), (Some CHR ''h'', ''help'', False)]"
  by code_simp

text \<open>The entry of the help screen and the tables agree.\<close>

definition entry_ok :: "char option \<times> string \<times> bool \<Rightarrow> bool" where
  "entry_ok entry =
     (case entry of (letter, name, has_arg) \<Rightarrow>
        (case find_long name of
           None \<Rightarrow> False
         | Some (takes, code) \<Rightarrow>
             takes = has_arg \<and> (case letter of None \<Rightarrow> True | Some c \<Rightarrow> find_short c = Some (takes, code))))"

text \<open>
  Every option of the help screen is accepted, by its name and by its letter, both for the same
  purpose and with an argument exactly when one is shown, except \<open>--http-acr-logging\<close>: shown without an
  argument, it takes one. (\<open>--diameter-timeout\<close> is not in the table, but an abbreviation of an option that is.)
  Of the options in the table three are not on the help screen by their names; one of them because
  its line is not broken off the one before.
\<close>

lemma usage_agrees:
  "filter (\<lambda>entry. \<not> entry_ok entry) documented = [(None, ''http-acr-logging'', False)] \<and>
   find_long ''http-acr-logging'' = Some (True, HTTP_ACR_LOGGING) \<and>
   filter (\<lambda>name. name \<notin> (fst \<circ> snd) ` set documented) (map fst long_opt) =
     [''diameter-timeout-ms'', ''init-token-rate'', ''max-token-rate'']"
proof -
  have "filter (\<lambda>entry. \<not> entry_ok entry) documented = [(None, ''http-acr-logging'', False)]"
    unfolding documented_table by code_simp
  moreover have "find_long ''http-acr-logging'' = Some (True, HTTP_ACR_LOGGING)"
    by code_simp
  moreover have "filter (\<lambda>name. name \<notin> (fst \<circ> snd) ` set documented) (map fst long_opt) =
     [''diameter-timeout-ms'', ''init-token-rate'', ''max-token-rate'']"
    unfolding documented_table by code_simp
  ultimately show ?thesis by blast
qed

end
