(* ===== verification/Getopt_Properties.thy ===== *)
theory Getopt_Properties
  imports Getopt
begin

text \<open>Options that are printed as words are read back.\<close>

definition joined :: "string \<Rightarrow> string \<Rightarrow> string" where
  "joined name v = ''--'' @ name @ ''='' @ v"

section \<open>Words that are options\<close>

lemma getopt_joined [simp]:
  assumes "CHR ''='' \<notin> set name" "find_long name = Some (True, code)"
  shows "getopt_long (joined name v # argv) = (code, v) # getopt_long argv"
proof -
  have "takeWhile (\<lambda>c. c \<noteq> CHR ''='') (name @ CHR ''='' # v) = name"
    "dropWhile (\<lambda>c. c \<noteq> CHR ''='') (name @ CHR ''='' # v) = CHR ''='' # v"
    using assms(1) by (induction name) auto
  with assms(2) show ?thesis by (simp add: joined_def getopt_name_def getopt_long.simps(2))
qed

lemma getopt_named:
  assumes "CHR ''='' \<notin> set name" "name \<noteq> []"
  shows "getopt_long ((CHR ''-'' # CHR ''-'' # name) # argv) =
    (case find_long name of
       None \<Rightarrow> (UNKNOWN_OPTION, []) # getopt_long argv
     | Some (False, code) \<Rightarrow> (code, []) # getopt_long argv
     | Some (True, code) \<Rightarrow>
         (case argv of [] \<Rightarrow> [(UNKNOWN_OPTION, [])] | a # rest \<Rightarrow> (code, a) # getopt_long rest))"
proof -
  have td: "takeWhile (\<lambda>c. c \<noteq> CHR ''='') name = name" "dropWhile (\<lambda>c. c \<noteq> CHR ''='') name = []"
    using assms(1) by (induction name) auto
  have "getopt_name name argv =
      (case find_long name of
         None \<Rightarrow> ((UNKNOWN_OPTION, []), argv)
       | Some (False, code) \<Rightarrow> ((code, []), argv)
       | Some (True, code) \<Rightarrow>
           (case argv of [] \<Rightarrow> ((UNKNOWN_OPTION, []), []) | a # rest \<Rightarrow> ((code, a), rest)))"
    unfolding getopt_name_def Let_def td by (simp split: option.split bool.split)
  with assms(2) show ?thesis
    by (simp add: getopt_long.simps(2) split: option.split bool.split list.split)
qed

section \<open>Options that are printed are read back\<close>

definition option_entry :: "opt_code \<Rightarrow> (string \<times> bool) option" where
  "option_entry code = map_of (map (\<lambda>(name, has_arg, code). (code, name, has_arg)) long_opt) code"

lemma long_opt_entries:
  "list_all (\<lambda>(name, has_arg, code). name \<noteq> [] \<and> CHR ''='' \<notin> set name \<and>
     find_long name = Some (has_arg, code)) long_opt"
  by code_simp

lemma option_entryD:
  assumes "option_entry code = Some (name, has_arg)"
  shows "name \<noteq> []" "CHR ''='' \<notin> set name" "find_long name = Some (has_arg, code)"
proof -
  have "(name, has_arg, code) \<in> set long_opt"
    using map_of_SomeD [OF assms [unfolded option_entry_def]] by auto
  with long_opt_entries show "name \<noteq> []" "CHR ''='' \<notin> set name" "find_long name = Some (has_arg, code)"
    by (auto simp: list_all_iff)
qed

text \<open>An option as words, its argument joined with an equals sign or as the next word.\<close>

definition option_words :: "bool \<Rightarrow> opt_code \<times> string \<Rightarrow> string list" where
  "option_words join opt =
     (case option_entry (fst opt) of
        None \<Rightarrow> []
      | Some (name, has_arg) \<Rightarrow>
          if \<not> has_arg then [''--'' @ name]
          else if join then [joined name (snd opt)] else [''--'' @ name, snd opt])"

definition printable :: "opt_code \<times> string \<Rightarrow> bool" where
  "printable opt \<longleftrightarrow>
     (case option_entry (fst opt) of None \<Rightarrow> False | Some (name, has_arg) \<Rightarrow> has_arg \<or> snd opt = [])"

lemma getopt_option_words:
  assumes "printable opt"
  shows "getopt_long (option_words join opt @ argv) = opt # getopt_long argv"
proof -
  obtain name has_arg where e: "option_entry (fst opt) = Some (name, has_arg)" "has_arg \<or> snd opt = []"
    using assms by (auto simp: printable_def split: option.splits)
  note n = option_entryD [OF e(1)]
  show ?thesis using n e by (cases opt) (auto simp: option_words_def getopt_named)
qed



end
