(* ===== verification/Init_Script.thy ===== *)
theory Init_Script
  imports Getopt_Properties
begin

text \<open>
  The words Ralf is started with (\<open>get_daemon_args\<close> and \<open>do_start\<close> in debian/ralf.init.d). A
  setting that is not there is the empty string. The values are taken to have no white space, at
  which the shell would split them.
\<close>

record settings =
  local_ip :: string
  local_site :: string
  num_http_threads :: string
  ralf_session_store :: string
  log_dir :: string
  signaling_dns_server :: string
  log_lvl :: string
  chronos_host :: string
  callback_uri_setting :: string
  ralf_host :: string
  acr_logging :: string
  realm :: string
  home_domain :: string
  cdf_identity :: string
  timeout_ms :: string
  latency_us :: string
  bucket_size :: string
  init_rate :: string
  min_rate :: string
  max_rate :: string
  max_ttl :: string
  sas_use_signaling_interface :: string
  ram_recording :: string
  sas_name :: string
  http_blacklist :: string
  diameter_blacklist :: string
  astaire_blacklist :: string
  dns_wait :: string
  pid_file :: string

text \<open>A word that is there only when its setting is.\<close>

definition given :: "string \<Rightarrow> string \<Rightarrow> string list" where
  "given name v = (if v = '''' then [] else [joined name v])"

definition billing_realm_arg :: "settings \<Rightarrow> string list" where
  "billing_realm_arg st =
     (if realm st \<noteq> '''' then [joined ''billing-realm'' (realm st)]
      else given ''billing-realm'' (home_domain st))"

definition daemon_args :: "settings \<Rightarrow> string list" where
  "daemon_args st =
     [joined ''localhost'' (local_ip st)] @ given ''local-site-name'' (local_site st) @
     [joined ''http'' (local_ip st), joined ''http-threads'' (num_http_threads st),
      joined ''session-stores'' (ralf_session_store st), joined ''access-log'' (log_dir st),
      joined ''dns-servers'' (signaling_dns_server st), joined ''log-file'' (log_dir st),
      joined ''log-level'' (log_lvl st)] @
     given ''chronos-hostname'' (chronos_host st) @
     given ''ralf-chronos-callback-uri'' (callback_uri_setting st) @
     given ''ralf-hostname'' (ralf_host st) @
     (if acr_logging st = '''' then [] else [''--http-acr-logging'']) @
     billing_realm_arg st @ given ''billing-peer'' (cdf_identity st) @
     given ''diameter-timeout-ms'' (timeout_ms st) @ given ''target-latency-us'' (latency_us st) @
     given ''max-tokens'' (bucket_size st) @ given ''init-token-rate'' (init_rate st) @
     given ''min-token-rate'' (min_rate st) @ given ''max-token-rate'' (max_rate st) @
     given ''exception-max-ttl'' (max_ttl st) @
     (if sas_use_signaling_interface st = ''Y'' then [''--sas-use-signaling-interface''] else []) @
     (if ram_recording st = ''Y'' then [''--ram-record-everything''] else []) @
     [joined ''sas'' (sas_name st)] @
     given ''http-blacklist-duration'' (http_blacklist st) @
     given ''diameter-blacklist-duration'' (diameter_blacklist st) @
     given ''astaire-blacklist-duration'' (astaire_blacklist st) @ given ''dns-timeout'' (dns_wait st)"

definition start_words :: "settings \<Rightarrow> string list" where
  "start_words st = daemon_args st @ [''--daemon'', joined ''pidfile'' (pid_file st)]"

end
