(* ===== verification/Init_Script_Properties.thy ===== *)
theory Init_Script_Properties
  imports Init_Script Main_Properties
begin

text \<open>What becomes of the words the init script starts Ralf with.\<close>

section \<open>The init script\<close>

lemma getopt_given:
  assumes "CHR ''='' \<notin> set name" "find_long name = Some (True, code)"
  shows "getopt_long (given name v @ argv) = (if v = [] then [] else [(code, v)]) @ getopt_long argv"
  using assms by (simp add: given_def)

text \<open>The options the words before and after \<open>--http-acr-logging\<close> are read as.\<close>

definition given_option :: "opt_code \<Rightarrow> string \<Rightarrow> (opt_code \<times> string) list" where
  "given_option code v = (if v = [] then [] else [(code, v)])"

definition configured_realm :: "settings \<Rightarrow> string" where
  "configured_realm st = (if realm st \<noteq> [] then realm st else home_domain st)"

definition first_options :: "settings \<Rightarrow> (opt_code \<times> string) list" where
  "first_options st =
     (LOCALHOST, local_ip st) # given_option LOCAL_SITE_NAME (local_site st) @
     [(HTTP, local_ip st), (HTTP_THREADS, num_http_threads st), (SESSION_STORES, ralf_session_store st),
      (ACCESS_LOG, log_dir st), (DNS_SERVER, signaling_dns_server st), (LOG_FILE, log_dir st),
      (LOG_LEVEL, log_lvl st)] @
     given_option CHRONOS_HOSTNAME (chronos_host st) @
     given_option RALF_CHRONOS_CALLBACK_URI (callback_uri_setting st) @
     given_option RALF_HOSTNAME (ralf_host st)"

definition last_options :: "settings \<Rightarrow> (opt_code \<times> string) list" where
  "last_options st =
     given_option BILLING_PEER (cdf_identity st) @ given_option DIAMETER_TIMEOUT_MS (timeout_ms st) @
     given_option TARGET_LATENCY_US (latency_us st) @ given_option MAX_TOKENS (bucket_size st) @
     given_option INIT_TOKEN_RATE (init_rate st) @ given_option MIN_TOKEN_RATE (min_rate st) @
     given_option MAX_TOKEN_RATE (max_rate st) @ given_option EXCEPTION_MAX_TTL (max_ttl st) @
     (if sas_use_signaling_interface st = ''Y'' then [(SAS_USE_SIGNALING_IF, [])] else []) @
     (if ram_recording st = ''Y'' then [(RAM_RECORD_EVERYTHING, [])] else []) @
     (SAS_SYSTEM, sas_name st) # given_option HTTP_BLACKLIST_DURATION (http_blacklist st) @
     given_option DIAMETER_BLACKLIST_DURATION (diameter_blacklist st) @
     given_option ASTAIRE_BLACKLIST_DURATION (astaire_blacklist st) @
     given_option DNS_TIMEOUT (dns_wait st) @ [(DAEMON, []), (PIDFILE, pid_file st)]"

lemma find_long_names:
  "find_long ''localhost'' = Some (True, LOCALHOST)" "find_long ''local-site-name'' =
      Some (True, LOCAL_SITE_NAME)"
  "find_long ''http'' = Some (True, HTTP)" "find_long ''http-threads'' = Some (True, HTTP_THREADS)"
  "find_long ''session-stores'' = Some (True, SESSION_STORES)" "find_long ''access-log'' =
      Some (True, ACCESS_LOG)"
  "find_long ''dns-servers'' = Some (True, DNS_SERVER)" "find_long ''log-file'' = Some (True, LOG_FILE)"
  "find_long ''log-level'' = Some (True, LOG_LEVEL)" "find_long ''chronos-hostname'' =
      Some (True, CHRONOS_HOSTNAME)"
  "find_long ''ralf-chronos-callback-uri'' = Some (True, RALF_CHRONOS_CALLBACK_URI)"
  "find_long ''ralf-hostname'' = Some (True, RALF_HOSTNAME)"
  "find_long ''http-acr-logging'' = Some (True, HTTP_ACR_LOGGING)"
  "find_long ''billing-realm'' = Some (True, BILLING_REALM)" "find_long ''billing-peer'' =
      Some (True, BILLING_PEER)"
  "find_long ''diameter-timeout-ms'' = Some (True, DIAMETER_TIMEOUT_MS)"
  "find_long ''target-latency-us'' = Some (True, TARGET_LATENCY_US)" "find_long ''max-tokens'' =
      Some (True, MAX_TOKENS)"
  "find_long ''init-token-rate'' = Some (True, INIT_TOKEN_RATE)" "find_long ''min-token-rate'' =
      Some (True, MIN_TOKEN_RATE)"
  "find_long ''max-token-rate'' = Some (True, MAX_TOKEN_RATE)" "find_long ''exception-max-ttl'' =
      Some (True, EXCEPTION_MAX_TTL)"
  "find_long ''sas-use-signaling-interface'' = Some (False, SAS_USE_SIGNALING_IF)"
  "find_long ''ram-record-everything'' = Some (False, RAM_RECORD_EVERYTHING)" "find_long ''sas'' =
      Some (True, SAS_SYSTEM)"
  "find_long ''http-blacklist-duration'' = Some (True, HTTP_BLACKLIST_DURATION)"
  "find_long ''diameter-blacklist-duration'' = Some (True, DIAMETER_BLACKLIST_DURATION)"
  "find_long ''astaire-blacklist-duration'' = Some (True, ASTAIRE_BLACKLIST_DURATION)"
  "find_long ''dns-timeout'' = Some (True, DNS_TIMEOUT)" "find_long ''daemon'' = Some (False, DAEMON)"
  "find_long ''pidfile'' = Some (True, PIDFILE)"
  using long_opt_entries [unfolded long_opt_def] by simp_all

lemma getopt_flag:
  assumes "CHR ''='' \<notin> set name" "name \<noteq> []" "find_long name = Some (False, code)"
  shows "getopt_long ((if b then [CHR ''-'' # CHR ''-'' # name] else []) @ argv) =
    (if b then [(code, [])] else []) @ getopt_long argv"
  using assms by (simp add: getopt_named)

text \<open>The word after \<open>--http-acr-logging\<close> is its argument.\<close>

lemma start_words_parsed:
  assumes "configured_realm st \<noteq> []"
  shows "getopt_long (start_words st) =
    first_options st @
    [if acr_logging st = [] then (BILLING_REALM, configured_realm st)
     else (HTTP_ACR_LOGGING, joined ''billing-realm'' (configured_realm st))] @
    last_options st"
proof -
  have realm: "billing_realm_arg st = [joined ''billing-realm'' (configured_realm st)]"
    using assms by (auto simp: billing_realm_arg_def configured_realm_def given_def)
  show ?thesis
    unfolding start_words_def daemon_args_def realm first_options_def last_options_def given_option_def
    by (cases "acr_logging st = []")
       (simp_all add: getopt_given getopt_flag getopt_named find_long_names split del: if_split)
qed

lemma option_loop_append:
  "option_loop lib (as @ bs) o1 =
     (case option_loop lib as o1 of None \<Rightarrow> None | Some o2 \<Rightarrow> option_loop lib bs o2)"
  by (induction as arbitrary: o1) (simp_all split: option.split)

lemma set_option_realm:
  "set_option lib a o1 = Some o2 \<Longrightarrow>
     billing_realm o2 = (if fst a = BILLING_REALM then snd a else billing_realm o1)"
  by (cases "(lib, a, o1)" rule: set_option.cases) auto

lemma option_loop_realm:
  "option_loop lib args o1 = Some o2 \<Longrightarrow> BILLING_REALM \<notin> fst ` set args \<Longrightarrow> billing_realm o2 = billing_realm o1"
  by (induction args arbitrary: o1) (auto split: option.splits dest: set_option_realm)

lemma init_logging_realm [simp]: "billing_realm (init_logging_options args o1) = billing_realm o1"
proof -
  have "billing_realm (logging_option a o1) = billing_realm o1" for a o1
    by (cases "(a, o1)" rule: logging_option.cases) auto
  then show ?thesis unfolding init_logging_options_def by (induction args arbitrary: o1) auto
qed

lemma script_options_realm:
  "BILLING_REALM \<notin> fst ` set (first_options st)" "BILLING_REALM \<notin> fst ` set (last_options st)"
  by (auto simp: first_options_def last_options_def given_option_def)

text \<open>
  C38: started by its init script, Ralf sends its requests to the configured billing realm, or else to
  the home domain - unless the logging of ACR bodies is switched on: then \<open>--http-acr-logging\<close>, which the
  script gives without an argument, takes the word with the realm for one, and every ACR goes to the
  realm \<open>dest-realm.unknown\<close>.
\<close>

theorem acr_logging_loses_realm:
  assumes "configured_realm st \<noteq> []" "ralf_main lib h (getopt_long (start_words st)) = Inr p"
  shows "f_dest_realm (factory (p_manager p)) =
    (if acr_logging st = [] then configured_realm st else ''dest-realm.unknown'')"
proof -
  let ?args = "getopt_long (start_words st)"
  let ?mid = "if acr_logging st = [] then (BILLING_REALM, configured_realm st)
    else (HTTP_ACR_LOGGING, joined ''billing-realm'' (configured_realm st))"
  obtain o2 remotes where
    o2: "option_loop lib ?args (init_logging_options ?args (default_options lib)) = Some o2"
    "p_options p = (if list_ex (\<lambda>a. fst a = DIAMETER_TIMEOUT_MS) ?args then o2
       else o2\<lparr>diameter_timeout_ms := calculate_diameter_timeout lib (target_latency_us o2)\<rparr>)"
    "p_manager p = build_manager (p_options p) remotes"
    using assms(2) by (rule ralf_main_options)
  obtain o3 o4 where o: "option_loop lib (first_options st) (init_logging_options ?args (default_options
      lib)) = Some o3"
    "set_option lib ?mid o3 = Some o4" "option_loop lib (last_options st) o4 = Some o2"
    using o2(1) start_words_parsed [OF assms(1)] by (auto simp: option_loop_append split: option.splits)
  have "billing_realm o2 = (if acr_logging st = [] then configured_realm st else ''dest-realm.unknown'')"
    using option_loop_realm [OF o(1) script_options_realm(1)] set_option_realm [OF o(2)]
      option_loop_realm [OF o(3) script_options_realm(2)]
    by (simp add: default_options_def)
  with o2(2,3) show ?thesis by (simp add: build_manager_def)
qed

definition sample_settings :: settings where
  "sample_settings =
     \<lparr>local_ip = ''10.0.0.1'', local_site = '''', num_http_threads = ''2'', ralf_session_store = ''a,b'',
      log_dir = ''/var/log/ralf'', signaling_dns_server = ''10.0.0.2'', log_lvl = ''2'', chronos_host = '''',
      callback_uri_setting = '''', ralf_host = ''ralf:10888'', acr_logging = ''Y'', realm = ''billing.example'',
      home_domain = ''example'', cdf_identity = '''', timeout_ms = '''', latency_us = '''', bucket_size = '''',
      init_rate = '''', min_rate = '''', max_rate = '''', max_ttl = '''', sas_use_signaling_interface = '''',
      ram_recording = '''', sas_name = ''ralf@10.0.0.1'', http_blacklist = '''', diameter_blacklist = '''',
      astaire_blacklist = '''', dns_wait = '''', pid_file = ''/var/run/ralf.pid''\<rparr>"

theorem acr_logging_loses_realm_witness:
  "\<exists>p. ralf_main sample_lib sample_host (getopt_long (start_words sample_settings)) = Inr p \<and>
     f_dest_realm (factory (p_manager p)) = ''dest-realm.unknown''"
proof -
  have realm: "configured_realm sample_settings \<noteq> []" "acr_logging sample_settings \<noteq> []"
    by (simp_all add: configured_realm_def sample_settings_def)
  have "\<exists>p. ralf_main sample_lib sample_host (getopt_long (start_words sample_settings)) = Inr p"
    unfolding start_words_parsed [OF realm(1)]
    by (simp add: ralf_main_def init_options_def settle_diameter_timeout_def init_logging_options_def
        sample_settings_def first_options_def
        last_options_def given_option_def sample_host_def sample_lib_def default_options_def require_def)
  then obtain p where "ralf_main sample_lib sample_host (getopt_long (start_words sample_settings)) =
      Inr p" by blast
  with acr_logging_loses_realm [OF realm(1) this] realm(2) show ?thesis by simp
qed

end
