(* ===== verification/Thread_Memory.thy ===== *)
theory Thread_Memory
  imports Session_Memory Thread_Accounting Timer_Callback
begin

text \<open>
  The \<open>Session\<close>, \<open>BillingTask\<close> and \<open>PeerMessageSender\<close> objects of all threads (messages and JSON
  documents are in theory Thread_Accounting). \<open>on_ccf_response\<close> makes one session object for a new
  session and deletes it after the last store has been written; \<open>update_timer_id\<close> deletes each
  session it has read; with the objects of \<open>handle\<close> (theory Session_Memory) this is every use of the
  class outside the stores. The HTTP stack makes a task for each request, and the task deletes itself
  at the end of \<open>run\<close>. \<open>handle\<close> makes a sender for the ACR, which deletes itself in \<open>send_cb\<close> after
  \<open>on_ccf_response\<close> has returned and is kept when the ACR goes to the next CCF.
\<close>

section \<open>The objects of a thread\<close>

fun answer_memory :: "answer_pc \<Rightarrow> answer_pc \<Rightarrow> session_heap \<Rightarrow> session_heap" where
  "answer_memory AnswerStart (SetStarted _ _) h = new_session_object h"
| "answer_memory (SetStarted _ _) AnswerEnd h = delete_session_object h"
| "answer_memory (NextTimer _ _) (SetTimer _ _ _ _) h = new_session_object h"
| "answer_memory (SetTimer _ _ _ _) (NextTimer _ _) h = delete_session_object h"
| "answer_memory _ _ h = h"

fun thread_memory :: "thread \<Rightarrow> thread option \<Rightarrow> session_heap \<Rightarrow> session_heap" where
  "thread_memory (HttpThread _ pc) (Some (HttpThread _ pc')) h = memory_step pc pc' h"
| "thread_memory (AnswerThread _ pc) (Some (AnswerThread _ pc')) h = answer_memory pc pc' h"
| "thread_memory _ _ h = h"

text \<open>A thread that starts \<open>handle\<close> again after the local store has refused its write.\<close>

fun restarts :: "thread \<Rightarrow> thread option \<Rightarrow> nat" where
  "restarts (HttpThread _ (SetLocal _ _)) (Some (HttpThread _ GetLocal)) = 1"
| "restarts (HttpThread _ (DeleteLocal _)) (Some (HttpThread _ GetLocal)) = 1"
| "restarts _ _ = 0"

fun sessions_held :: "thread \<Rightarrow> nat" where
  "sessions_held (HttpThread _ pc) = objects_held pc"
| "sessions_held (AnswerThread _ (SetStarted _ _)) = 1"
| "sessions_held (AnswerThread _ (SetTimer _ _ _ _)) = 1"
| "sessions_held _ = 0"

text \<open>The tasks and senders a step creates and deletes, and those a thread answers for.\<close>

fun task_freed :: "thread \<Rightarrow> thread option \<Rightarrow> nat" where
  "task_freed (HttpThread _ (Returned None)) None = 1"
| "task_freed _ _ = 0"

fun sender_made :: "thread \<Rightarrow> nat" where
  "sender_made (HttpThread _ (SendAcr _)) = 1"
| "sender_made _ = 0"

fun sender_freed :: "thread \<Rightarrow> thread option \<Rightarrow> nat" where
  "sender_freed (AnswerThread _ AnswerDone) None = 1"
| "sender_freed _ _ = 0"

fun tasks_held :: "thread \<Rightarrow> nat" where
  "tasks_held (AnswerThread _ _) = 0"
| "tasks_held _ = 1"

fun senders_held :: "thread \<Rightarrow> nat" where
  "senders_held (HttpThread _ (Returned (Some _))) = 1"
| "senders_held (HttpThread _ _) = 0"
| "senders_held _ = 1"

section \<open>The process with its heap\<close>

record tally =
  created :: nat
  deleted :: nat

definition tally_add :: "nat \<Rightarrow> nat \<Rightarrow> tally \<Rightarrow> tally" where
  "tally_add m n c = \<lparr>created = created c + m, deleted = deleted c + n\<rparr>"

lemma tally_add_simps [simp]:
  "created (tally_add m n c) = created c + m" "deleted (tally_add m n c) = deleted c + n"
  by (simp_all add: tally_add_def)

record 'w accounts =
  shared_state :: "'w io"
  session_objects :: session_heap
  restarted :: nat
  task_objects :: tally
  sender_objects :: tally

definition accounted_thread_step ::
  "'w env \<Rightarrow> session_manager \<Rightarrow> thread \<times> 'w accounts \<Rightarrow> thread option \<times> 'w accounts" where
  "accounted_thread_step env sm ta =
     (let (t, a) = ta; (r, s') = thread_step env sm (t, shared_state a)
      in (r, \<lparr>shared_state = s', session_objects = thread_memory t r (session_objects a),
              restarted = restarted a + restarts t r,
              task_objects = tally_add 0 (task_freed t r) (task_objects a),
              sender_objects = tally_add (sender_made t) (sender_freed t r) (sender_objects a)\<rparr>))"

definition leaked :: "'w accounts \<Rightarrow> int" where
  "leaked a = int (sessions_new (session_objects a)) - int (sessions_deleted (session_objects a)) -
     int (restarted a)"

definition live_tasks :: "'w accounts \<Rightarrow> int" where
  "live_tasks a = int (created (task_objects a)) - int (deleted (task_objects a))"

definition idle_senders :: "'w accounts \<Rightarrow> int" where
  "idle_senders a = int (created (sender_objects a)) - int (deleted (sender_objects a)) -
     int (length (pending (shared_state a)))"

lemma task_step_sessions:
  assumes "task_step env sm msg (pc, s) = (pc', s')" "pc \<notin> range Returned"
  shows "int (sessions_new (memory_step pc pc' h)) - int (sessions_deleted (memory_step pc pc' h)) -
      int (restarts (HttpThread msg pc) (Some (HttpThread msg pc'))) - int (objects_held pc') =
    int (sessions_new h) - int (sessions_deleted h) - int (objects_held pc)"
  using assms
  by (cases "(env, sm, msg, (pc, s))" rule: task_step.cases)
     (auto simp: session_found_def split: prod.splits option.splits if_splits sum.splits)

lemma renew_step_sessions:
  "renew_step env sm n msg log s = (pc, s') \<Longrightarrow> pc = AnswerEnd \<or> (\<exists>i sts. pc = NextTimer i sts)"
  by (auto simp: renew_step_def split: prod.splits if_splits)

lemma answer_begin_sessions:
  assumes "answer_begin env sm a s = (pc, s')"
  shows "pc = AnswerEnd \<or> (\<exists>i sts. pc = NextTimer i sts) \<or> (\<exists>sts. pc = DeleteGone sts) \<or>
    (\<exists>x sts. pc = SetStarted x sts)"
proof (cases rule: answer_begin_cases [of env sm a s])
  case renew
  with assms renew_step_sessions show ?thesis by metis
qed (use assms in \<open>auto split: prod.splits\<close>)

lemma answer_step_sessions:
  assumes "answer_step env sm a (pc, s) = (pc', s')" "pc \<noteq> AnswerDone"
  shows "int (sessions_new (answer_memory pc pc' h)) - int (sessions_deleted (answer_memory pc pc' h)) -
      int (sessions_held (AnswerThread a pc')) =
    int (sessions_new h) - int (sessions_deleted h) - int (sessions_held (AnswerThread a pc))"
proof (cases pc)
  case AnswerStart
  with assms answer_begin_sessions [of env sm a s pc' s'] show ?thesis by auto
next
  case (SetStarted x sts)
  with assms show ?thesis by (cases sts) auto
next
  case (DeleteGone sts)
  with assms show ?thesis by (cases sts) auto
next
  case (NextTimer i sts)
  with assms show ?thesis by (cases sts) (auto split: prod.splits option.splits)
qed (use assms in auto)

lemma accounted_thread_stepE:
  assumes "accounted_thread_step env sm (t, a) = (r, a')"
  obtains s' where "thread_step env sm (t, shared_state a) = (r, s')"
    "a' = \<lparr>shared_state = s', session_objects = thread_memory t r (session_objects a),
           restarted = restarted a + restarts t r,
           task_objects = tally_add 0 (task_freed t r) (task_objects a),
           sender_objects = tally_add (sender_made t) (sender_freed t r) (sender_objects a)\<rparr>"
  using assms by (auto simp: accounted_thread_step_def split: prod.splits)

interpretation session_ledger: thread_ledger "accounted_thread_step env sm" leaked "\<lambda>t. int (sessions_held t)"
  for env :: "'w env" and sm
proof
  fix t r and a a' :: "'w accounts"
  assume "accounted_thread_step env sm (t, a) = (r, a')"
  then obtain s' where s': "thread_step env sm (t, shared_state a) = (r, s')"
    "session_objects a' = thread_memory t r (session_objects a)" "restarted a' = restarted a + restarts t r"
    by (rule accounted_thread_stepE) simp
  show "leaked a' - (case r of None \<Rightarrow> 0 | Some t' \<Rightarrow> int (sessions_held t')) = leaked a - int (sessions_held t)"
  proof (cases t rule: thread_cases)
    case (running msg pc)
    obtain pc' s1 where p: "task_step env sm msg (pc, shared_state a) = (pc', s1)" by fastforce
    with running s' have "r = Some (HttpThread msg pc')" by (simp add: thread_step_running)
    with running s' task_step_sessions [OF p running(2), of "session_objects a"] show ?thesis
      by (simp add: leaked_def del: restarts.simps)
  next
    case (answering b pc)
    obtain pc' s1 where p: "answer_step env sm b (pc, shared_state a) = (pc', s1)" by fastforce
    with answering s' have "r = Some (AnswerThread b pc')" by (simp add: thread_step_running)
    with answering s' answer_step_sessions [OF p answering(2), of "session_objects a"] show ?thesis
      by (simp add: leaked_def)
  qed (use s' in \<open>auto simp: leaked_def\<close>)
qed

text \<open>An HTTP thread stays one until it replies; an answer thread stays one until it leaves.\<close>

lemma running_results:
  assumes "thread_step env sm (t, s) = (r, s')"
  shows "t = HttpThread msg pc \<Longrightarrow> pc \<notin> range Returned \<Longrightarrow> \<exists>pc'. r = Some (HttpThread msg pc')"
    "t = AnswerThread b apc \<Longrightarrow> apc \<noteq> AnswerDone \<Longrightarrow> \<exists>pc'. r = Some (AnswerThread b pc')"
  using assms by (auto simp: thread_step_running map_prod_def split: prod.splits)

interpretation task_ledger: thread_ledger "accounted_thread_step env sm" live_tasks "\<lambda>t. int (tasks_held t)"
  for env :: "'w env" and sm
proof
  fix t r and a a' :: "'w accounts"
  assume "accounted_thread_step env sm (t, a) = (r, a')"
  then obtain s' where s': "thread_step env sm (t, shared_state a) = (r, s')"
    "task_objects a' = tally_add 0 (task_freed t r) (task_objects a)"
    by (rule accounted_thread_stepE) simp
  note [simp] = live_tasks_def
  show "live_tasks a' - (case r of None \<Rightarrow> 0 | Some t' \<Rightarrow> int (tasks_held t')) =
      live_tasks a - int (tasks_held t)"
    by (cases t rule: thread_cases) (use s' running_results [OF s'(1)] in auto)
qed

text \<open>A thread that sends its ACR: a sender for the new transaction, or one that is left behind.\<close>

lemma send_acr_senders:
  assumes "thread_step env sm (HttpThread msg (SendAcr m), s) = (r, s')"
  shows "\<exists>c. r = Some (HttpThread msg (Returned c)) \<and>
    length (pending s') = length (pending s) + (if c = None then 1 else 0)"
  using assms send_to_peer_Inr(6) by (fastforce split: sum.splits)

lemma other_senders:
  assumes "task_step env sm msg (pc, s) = (pc', s')" "pc \<notin> range Returned" "\<And>m. pc \<noteq> SendAcr m"
  shows "senders_held (HttpThread msg pc) = 0 \<and> senders_held (HttpThread msg pc') = 0 \<and>
    sender_made (HttpThread msg pc) = 0"
  using assms
  by (cases "(env, sm, msg, (pc, s))" rule: task_step.cases)
     (auto simp: session_found_def split: prod.splits option.splits if_splits)

interpretation sender_ledger: thread_ledger "accounted_thread_step env sm"
    idle_senders "\<lambda>t. int (senders_held t)"
  for env :: "'w env" and sm
proof
  fix t r and a a' :: "'w accounts"
  assume "accounted_thread_step env sm (t, a) = (r, a')"
  then obtain s' where s': "thread_step env sm (t, shared_state a) = (r, s')" "shared_state a' = s'"
    "sender_objects a' = tally_add (sender_made t) (sender_freed t r) (sender_objects a)"
    by (rule accounted_thread_stepE) simp
  note pend = thread_step_pending [OF s'(1)]
  note [simp] = idle_senders_def
  show "idle_senders a' - (case r of None \<Rightarrow> 0 | Some t' \<Rightarrow> int (senders_held t')) =
      idle_senders a - int (senders_held t)"
  proof (cases t rule: thread_cases)
    case (running msg pc)
    show ?thesis
    proof (cases "\<exists>m. pc = SendAcr m")
      case True
      then obtain m where m: "pc = SendAcr m" by blast
      with running send_acr_senders [of env sm msg m "shared_state a" r s'] s' show ?thesis
        by (auto split: option.splits)
    next
      case False
      obtain pc' s1 where p: "task_step env sm msg (pc, shared_state a) = (pc', s1)" by fastforce
      with running s' have "r = Some (HttpThread msg pc')" by (simp add: thread_step_running)
      moreover have "pending s' = pending (shared_state a)" using pend running False by auto
      ultimately show ?thesis using running s' other_senders [OF p running(2)] False by auto
    qed
  next
    case (answering b pc)
    with running_results(2) [OF s'(1)] pend s' show ?thesis by auto
  qed (use s' pend in auto)
qed

text \<open>
  Threads come in without \<open>Session\<close> objects. A request comes in with its task, which is deleted at
  once when the request does not reach the session manager; a callback with the sender of its
  transaction.
\<close>

inductive accounted_step ::
  "'w env \<Rightarrow> session_manager \<Rightarrow> ('w \<Rightarrow> 'w \<Rightarrow> bool) \<Rightarrow> thread list \<times> 'w accounts \<Rightarrow> thread list \<times> 'w accounts \<Rightarrow> bool"
  for env sm other where
  request: "billing_accept env req trail (shared_state a) = (r, s') \<Longrightarrow>
    accounted_step env sm other (ts, a) (ts @ accepted_threads r,
      a\<lparr>shared_state := s', task_objects := tally_add 1 (if r = None then 1 else 0) (task_objects a)\<rparr>)"
| response: "i < length (pending (shared_state a)) \<Longrightarrow>
    on_response_begin env (pending (shared_state a) ! i) rsp (take_pending i (shared_state a)) = cb \<Longrightarrow>
    accounted_step env sm other (ts, a) (ts @ callback_threads cb,
      a\<lparr>shared_state := callback_state cb (take_pending i (shared_state a))\<rparr>)"
| timeout: "i < length (pending (shared_state a)) \<Longrightarrow>
    on_timeout_begin env (pending (shared_state a) ! i) (take_pending i (shared_state a)) = cb \<Longrightarrow>
    accounted_step env sm other (ts, a) (ts @ callback_threads cb,
      a\<lparr>shared_state := callback_state cb (take_pending i (shared_state a))\<rparr>)"
| elsewhere: "other (world (shared_state a)) w \<Longrightarrow>
    accounted_step env sm other (ts, a) (ts, a\<lparr>shared_state := (shared_state a)\<lparr>world := w\<rparr>\<rparr>)"
| thread: "i < length ts \<Longrightarrow> accounted_thread_step env sm (ts ! i, a) = (r, a') \<Longrightarrow>
    accounted_step env sm other (ts, a) (put_thread i r ts, a')"

definition accounts_of :: "'w io \<Rightarrow> 'w accounts" where
  "accounts_of s = \<lparr>shared_state = s, session_objects = no_sessions, restarted = 0,
     task_objects = \<lparr>created = 0, deleted = 0\<rparr>, sender_objects = \<lparr>created = 0, deleted = 0\<rparr>\<rparr>"

text \<open>The process with its heap has exactly the runs of the process.\<close>

lemma accounted_process:
  assumes "accounted_step env sm other (ts, a) (ts', a')"
  shows "process_step env sm other (ts, shared_state a) (ts', shared_state a')"
  using assms
  by (cases rule: accounted_step.cases)
     (auto simp: accounted_thread_step_def split: prod.splits intro: process_step.intros arrival.intros)

lemma process_accounted_step:
  assumes "process_step env sm other (ts, shared_state a) (ts', s')"
  shows "\<exists>a'. accounted_step env sm other (ts, a) (ts', a') \<and> shared_state a' = s'"
  using assms
proof (cases rule: process_step_cases)
  case (request req trail r)
  then show ?thesis using accounted_step.request [OF request(2), of sm other ts] by fastforce
next
  case (response i rsp cb)
  then show ?thesis using accounted_step.response [OF response(3,4), of sm other ts] by fastforce
next
  case (timeout i cb)
  then show ?thesis using accounted_step.timeout [OF timeout(3,4), of sm other ts] by fastforce
next
  case (thread i r)
  obtain a' where "accounted_thread_step env sm (ts ! i, a) = (r, a')" "shared_state a' = s'"
    using thread(3) by (simp add: accounted_thread_step_def)
  with thread(1,2) accounted_step.thread show ?thesis by blast
next
  case (elsewhere w)
  then show ?thesis using accounted_step.elsewhere [of other a w env sm ts] by fastforce
qed

section \<open>The accounts along a run\<close>

text \<open>What a pool of threads answers for, of each kind of object.\<close>

definition held_by :: "(thread \<Rightarrow> nat) \<Rightarrow> thread list \<Rightarrow> int" where
  "held_by held ts = sum_list (map (\<lambda>t. int (held t)) ts)"

lemma held_by_append [simp]: "held_by held (ts @ us) = held_by held ts + held_by held us"
  by (simp add: held_by_def)

lemma held_by_accepted:
  "held_by sessions_held (accepted_threads r) = 0" "held_by senders_held (accepted_threads r) = 0"
  "held_by tasks_held (accepted_threads r) = (if r = None then 0 else 1)"
  by (simp_all add: held_by_def accepted_threads_def task_start_def split: option.split)

lemma held_by_callback:
  assumes "wf_transaction (pending s ! i)" "i < length (pending s)"
    and "cb = on_response_begin env (pending s ! i) rsp (take_pending i s) \<or>
         cb = on_timeout_begin env (pending s ! i) (take_pending i s)"
  shows "held_by sessions_held (callback_threads cb) = 0" "held_by tasks_held (callback_threads cb) = 0"
    "held_by senders_held (callback_threads cb) =
       int (length (pending s)) - int (length (pending (callback_state cb (take_pending i s))))"
  by (rule callback_begin_wf [OF assms(1,3)]; use assms(2) in \<open>simp add: held_by_def\<close>)+

text \<open>The three accounts are balanced.\<close>

definition balanced :: "thread list \<Rightarrow> 'w accounts \<Rightarrow> bool" where
  "balanced ts a \<longleftrightarrow> leaked a = held_by sessions_held ts \<and> live_tasks a = held_by tasks_held ts \<and>
     idle_senders a = held_by senders_held ts"

lemma balanced_callback:
  assumes "balanced ts a" "wf_transaction (pending (shared_state a) ! i)"
      "i < length (pending (shared_state a))"
    and "cb = on_response_begin env (pending (shared_state a) ! i) rsp (take_pending i (shared_state a)) \<or>
         cb = on_timeout_begin env (pending (shared_state a) ! i) (take_pending i (shared_state a))"
  shows "balanced (ts @ callback_threads cb)
    (a\<lparr>shared_state := callback_state cb (take_pending i (shared_state a))\<rparr>)"
  using assms(1) held_by_callback [OF assms(2-4)]
  by (simp add: balanced_def leaked_def live_tasks_def idle_senders_def)

lemma balanced_thread:
  assumes "balanced ts a" "i < length ts" "accounted_thread_step env sm (ts ! i, a) = (r, a')"
  shows "balanced (put_thread i r ts) a'"
proof -
  note replace = session_ledger.pool_replace task_ledger.pool_replace sender_ledger.pool_replace
  note remove = session_ledger.pool_remove task_ledger.pool_remove sender_ledger.pool_remove
  show ?thesis
    using assms(1,3) replace [OF assms(2), of env sm a _ a'] remove [OF assms(2), of env sm a a']
    by (cases r) (auto simp: balanced_def held_by_def put_thread_def)
qed

lemma balanced_step:
  assumes "accounted_step env sm other (ts, a) (ts', a')" "balanced ts a"
    and "list_all wf_transaction (pending (shared_state a))"
  shows "balanced ts' a'"
  using assms(1)
proof (cases rule: accounted_step.cases)
  case (request req trail r s')
  with billing_accept_quiet(1) [OF request(3)] assms(2) show ?thesis
    by (simp add: balanced_def leaked_def live_tasks_def idle_senders_def held_by_accepted)
next
  case (response i rsp cb)
  with assms balanced_callback [of ts a i cb env rsp] show ?thesis by (auto simp: list_all_length)
next
  case (timeout i cb)
  with assms balanced_callback [of ts a i cb env] show ?thesis by (auto simp: list_all_length)
next
  case (elsewhere w)
  with assms(2) show ?thesis by (simp add: balanced_def leaked_def live_tasks_def idle_senders_def)
next
  case (thread i r)
  with balanced_thread [OF assms(2)] show ?thesis by blast
qed

lemma balanced_run:
  assumes "initial s0" "(accounted_step env sm other)\<^sup>*\<^sup>* ([], accounts_of s0) (ts, a)"
  shows "balanced ts a" "(process_step env sm other)\<^sup>*\<^sup>* ([], s0) (ts, shared_state a)"
proof -
  have "case (ts, a) of (ts, a) \<Rightarrow> balanced ts a \<and> (process_step env sm other)\<^sup>*\<^sup>* ([], s0) (ts, shared_state a)"
    using assms(2)
  proof (induction rule: rtranclp_induct)
    case base
    show ?case using assms(1)
      by (simp add: balanced_def leaked_def live_tasks_def idle_senders_def held_by_def accounts_of_def
          no_sessions_def initial_def)
  next
    case (step p p')
    obtain ts1 a1 ts2 a2 where p: "p = (ts1, a1)" "p' = (ts2, a2)" by fastforce
    have run: "(process_step env sm other)\<^sup>*\<^sup>* ([], s0) (ts1, shared_state a1)" "balanced ts1 a1"
      using step(3) p by auto
    have "list_all wf_transaction (pending (shared_state a1))"
      using message_count.reachable_process_accounted [of env sm other ts1 "shared_state a1"] run(1) assms(1)
      by (auto simp: process_reachable_def process_accounted_def)
    with balanced_step run step(2) accounted_process [of env sm other ts1 a1 ts2 a2] show ?case
      unfolding p by auto
  qed
  then show "balanced ts a" "(process_step env sm other)\<^sup>*\<^sup>* ([], s0) (ts, shared_state a)" by auto
qed

lemma held_by_nat: "held_by held ts = int (sum_list (map held ts))"
  by (induction ts) (simp_all add: held_by_def)

text \<open>
  C8: in any environment and under every interleaving of requests, answers and timeouts, the
  \<open>Session\<close> objects that have not been deleted are those the threads hold and one for each time
  \<open>handle\<close> has started again: the restart forgets the session read before it, and nothing else
  leaks, in \<open>on_ccf_response\<close> and \<open>update_timer_id\<close> in particular. The tasks that have not deleted
  themselves are those of requests still being served, and the senders are one for each outstanding
  transaction and one for each answer being handled (and those of threads that have run into undefined
  behaviour while sending). The accounts are kept along a run of the process.
\<close>

theorem objects_accounted:
  assumes "initial s0" "(accounted_step env sm other)\<^sup>*\<^sup>* ([], accounts_of s0) (ts, a)"
  shows "sessions_new (session_objects a) =
      sessions_deleted (session_objects a) + sum_list (map sessions_held ts) + restarted a \<and>
    created (task_objects a) = deleted (task_objects a) + sum_list (map tasks_held ts) \<and>
    created (sender_objects a) = deleted (sender_objects a) + length (pending (shared_state a)) +
      sum_list (map senders_held ts) \<and>
    (process_step env sm other)\<^sup>*\<^sup>* ([], s0) (ts, shared_state a)"
  using balanced_run [OF assms]
  by (auto simp: balanced_def leaked_def live_tasks_def idle_senders_def held_by_nat)

text \<open>A timer callback over a store that refuses its first write.\<close>

definition pop_request :: http_request where
  "pop_request = \<lparr>req_method = POST, req_param = (\<lambda>p. if p = TIMER_INTERIM_PARAM then ''true'' else ''''),
     req_file = ''call'', req_rx_body = create_opaque_data busy_env (sample_msg 3)\<rparr>"

lemma pop_accepted:
  obtains msg s where "billing_accept busy_env pop_request 9 busy_start = (Some msg, s)"
    "isInterim (m_record_type msg)" "world s = 1"
proof -
  have valid: "opaque_valid (sample_msg 3)" by (simp add: opaque_valid_def fits_int32_def)
  note p = parse_opaque_data [OF busy_env_json(1) valid, of 9]
  have call: "m_call_id (sample_msg 3) = ''call''" by simp
  let ?s = "emit MessageCreated (emit (incoming (opaque_json (sample_msg 3)) 9)
      (emit DocumentCreated
        (emit (SasEvent 9 INTERIM_TIMER_POPPED [] []) (emit (SasMarker 9 ''call'') busy_start))))"
  have "billing_accept busy_env pop_request 9 busy_start =
      (Some (body_message busy_env ''call'' True (opaque_json (sample_msg 3)) 9), ?s)"
    by (simp add: billing_accept_def pop_request_def p [unfolded call] Let_def)
  then show ?thesis by (rule that) (use p(2) [unfolded call] in \<open>simp_all add: busy_start_def\<close>)
qed

theorem objects_accounted_witness:
  "\<exists>ts a. (accounted_step busy_env single_sm (\<lambda>_ _. False))\<^sup>*\<^sup>* ([], accounts_of busy_start) (ts, a) \<and>
     sum_list (map sessions_held ts) = 0 \<and>
     sessions_new (session_objects a) = sessions_deleted (session_objects a) + 1 \<and>
     created (task_objects a) = deleted (task_objects a) + 1"
proof -
  let ?step = "accounted_step busy_env single_sm (\<lambda>_ _. False)"
  obtain msg s where m: "billing_accept busy_env pop_request 9 busy_start = (Some msg, s)"
    "isInterim (m_record_type msg)" "world s = 1" by (rule pop_accepted)
  let ?a = "\<lparr>shared_state = s, session_objects = no_sessions, restarted = 0,
     task_objects = \<lparr>created = 1, deleted = 0\<rparr>, sender_objects = \<lparr>created = 0, deleted = 0\<rparr>\<rparr>"
  let ?x = "bump_session (sample_session\<lparr>s_cas := 1\<rparr>)"
  have move: "?step ([t], a) ([t'], a')" if "accounted_thread_step busy_env single_sm (t, a) =
      (Some t', a')" for t t' a a'
    using accounted_step.thread [of 0 "[t]" busy_env single_sm a "Some t'"
        a'] that by (simp add: put_thread_def)
  have "?step ([], accounts_of busy_start) ([HttpThread msg GetLocal], ?a)"
    using accounted_step.request [of busy_env pop_request 9 "accounts_of busy_start" "Some msg" s
        single_sm _ "[]"] m(1,2)
    by (simp add: accounts_of_def accepted_threads_def task_start_def tally_add_def)
  moreover let ?s1 = "called 1 (StoreGet 0 (msg_key msg) OK) s"
  have 1: "accounted_thread_step busy_env single_sm (HttpThread msg GetLocal, ?a) =
      (Some (HttpThread msg (SetLocal ?x False)),
        ?a\<lparr>shared_state := ?s1, session_objects := new_session_object no_sessions\<rparr>)"
    using m(2,3)
    by (simp add: accounted_thread_step_def busy_get session_found_def single_sm_def tally_add_def)
  moreover obtain s2 where
    2: "accounted_thread_step busy_env single_sm (HttpThread msg (SetLocal ?x False),
        ?a\<lparr>shared_state := ?s1, session_objects := new_session_object no_sessions\<rparr>) =
            (Some (HttpThread msg GetLocal),
        ?a\<lparr>shared_state := s2, session_objects := new_session_object no_sessions, restarted := 1\<rparr>)"
    by (auto simp add: accounted_thread_step_def busy_set tally_add_def)
  ultimately have run: "?step\<^sup>*\<^sup>* ([], accounts_of busy_start) ([HttpThread msg GetLocal],
      ?a\<lparr>shared_state := s2, session_objects := new_session_object no_sessions, restarted := 1\<rparr>)"
    using move [OF 1] move [OF 2] by (meson converse_rtranclp_into_rtranclp rtranclp.rtrancl_refl)
  have "initial busy_start" by (simp add: initial_def busy_start_def)
  from objects_accounted [OF this run] run show ?thesis by (intro exI conjI) auto
qed

end
