(* ===== verification/Racing_Answers.thy ===== *)
theory Racing_Answers
  imports Concurrency_Properties Thread_Properties
begin

text \<open>
  INTERIMs that race with the answers to earlier INTERIMs of the session. An answer renews the
  timer and, when Chronos has given it a new identifier, writes that identifier to every store
  (\<open>update_timer_id\<close>), so its writes and those of \<open>handle\<close> meet in the same entries. Theory
  Concurrent_Tasks has the race among INTERIMs; here any number of answer threads take part.
\<close>

section \<open>Interleaving\<close>

type_synonym answering = "answer \<times> answer_pc"

fun answer_writing :: "answer_pc \<Rightarrow> (store_id \<times> session) option" where
  "answer_writing (SetTimer i x st sts) = Some (st, x)"
| "answer_writing _ = None"

text \<open>As \<open>cas_unique\<close>: a write gives no entry a CAS that an answer thread still holds.\<close>

definition answer_cas_unique :: "'w register \<Rightarrow> 'w io \<Rightarrow> answering list \<Rightarrow> 'w io \<Rightarrow> bool" where
  "answer_cas_unique e s as' s' \<longleftrightarrow>
     (\<forall>st key x. session_at e st s' key = Some x \<and> session_at e st s key \<noteq> Some x \<longrightarrow>
        (\<forall>(a, pc) \<in> set as'. \<forall>y. msg_key (a_msg a) = key \<and> answer_writing pc = Some (st, y) \<longrightarrow>
           s_cas y \<noteq> s_cas x))"

inductive mixed_step :: "'w register \<Rightarrow> session_manager \<Rightarrow> ('w \<Rightarrow> 'w \<Rightarrow> bool) \<Rightarrow>
    task list \<times> answering list \<times> 'w io \<Rightarrow> task list \<times> answering list \<times> 'w io \<Rightarrow> bool"
  for e sm other where
  thread: "i < length ts \<Longrightarrow> ts ! i = (msg, pc) \<Longrightarrow> task_step (fst e) sm msg (pc, s) = (pc', s') \<Longrightarrow>
    cas_unique e sm s (ts[i := (msg, pc')]) s' \<Longrightarrow> answer_cas_unique e s as s' \<Longrightarrow>
    mixed_step e sm other (ts, as, s) (ts[i := (msg, pc')], as, s')"
| answer: "i < length as \<Longrightarrow> as ! i = (a, pc) \<Longrightarrow> answer_step (fst e) sm a (pc, s) = (pc', s') \<Longrightarrow>
    cas_unique e sm s ts s' \<Longrightarrow> answer_cas_unique e s (as[i := (a, pc')]) s' \<Longrightarrow>
    mixed_step e sm other (ts, as, s) (ts, as[i := (a, pc')], s')"
| elsewhere: "other (world s) w \<Longrightarrow> mixed_step e sm other (ts, as, s) (ts, as, s\<lparr>world := w\<rparr>)"

section \<open>Rewriting a session keeps the race in order\<close>

text \<open>What an answer does to an entry: nothing, or the same number under another CAS.\<close>

definition renumbered :: "session option \<Rightarrow> session option \<Rightarrow> bool" where
  "renumbered before after \<longleftrightarrow> after = before \<or>
     (\<exists>x x'. before = Some x \<and> after = Some x' \<and> good_copy x' \<and>
        s_acct_record_number x' = s_acct_record_number x \<and> s_cas x' \<noteq> s_cas x)"

lemma copy_inv_renumbered:
  assumes "copy_inv e sm key n ts s st" "renumbered (session_at e st s key) (session_at e st s' key)"
    and "cas_unique e sm s ts s'" "\<forall>t \<in> set ts. msg_key (fst t) = key"
  shows "copy_inv e sm key n ts s' st"
proof (cases "session_at e st s' key = session_at e st s key")
  case True
  with assms(1) show ?thesis by (simp add: copy_inv_def)
next
  case False
  with assms(2) obtain x x' where x: "session_at e st s key = Some x" "session_at e st s' key = Some x'"
    "good_copy x'" "s_acct_record_number x' = s_acct_record_number x" "s_cas x' \<noteq> s_cas x"
    by (auto simp: renumbered_def)
  have "s_cas y \<noteq> s_cas x'" if "t \<in> set ts" "task_writing sm (snd t) = Some (st, y)" for t y
    using assms(3,4) x False that unfolding cas_unique_def by (fastforce split: prod.splits)
  with assms(1) x show ?thesis by (auto simp: copy_inv_def)
qed

lemma session_inv_renumbered:
  assumes "session_inv e sm key n sent ts s" "cas_unique e sm s ts s'"
    and "\<And>st. st \<in> set (all_stores sm) \<Longrightarrow> renumbered (session_at e st s key) (session_at e st s' key)"
  shows "session_inv e sm key n sent ts s'"
proof -
  have keys: "\<forall>t \<in> set ts. msg_key (fst t) = key"
    using assms(1) by (auto simp: session_inv_def list_all_iff interim_task_def)
  have "copy_inv e sm key n ts s' st" if "st \<in> set (all_stores sm)" for st
    using assms(1) that by (intro copy_inv_renumbered [OF _ assms(3) [OF that] assms(2) keys])
      (auto simp: session_inv_def list_all_iff)
  with assms(1) show ?thesis by (simp add: session_inv_def list_all_iff)
qed

section \<open>An answer thread\<close>

text \<open>The answers in question: to INTERIMs of the session, other than that it is unknown.\<close>

definition answers_for :: "string \<Rightarrow> answer list \<Rightarrow> bool" where
  "answers_for key as \<longleftrightarrow> (\<forall>a \<in> set as. isInterim (m_record_type (a_msg a)) \<and>
     (a_accepted a \<or> a_rc a \<noteq> 5002) \<and> msg_key (a_msg a) = key)"

fun answer_point :: "session_manager \<Rightarrow> answer_pc \<Rightarrow> bool" where
  "answer_point sm (NextTimer i sts) \<longleftrightarrow> set sts \<subseteq> set (all_stores sm)"
| "answer_point sm (SetTimer i y st sts) \<longleftrightarrow> good_copy y \<and> set (st # sts) \<subseteq> set (all_stores sm)"
| "answer_point sm (SetStarted x sts) \<longleftrightarrow> False"
| "answer_point sm (DeleteGone sts) \<longleftrightarrow> False"
| "answer_point sm pc \<longleftrightarrow> True"

definition answer_ok :: "'w register \<Rightarrow> session_manager \<Rightarrow> string \<Rightarrow> 'w io \<Rightarrow> answering \<Rightarrow> bool" where
  "answer_ok e sm key s t \<longleftrightarrow> answers_for key [fst t] \<and> answer_point sm (snd t) \<and>
     (\<forall>st x y. answer_writing (snd t) = Some (st, y) \<and> session_at e st s key = Some x \<and> s_cas y = s_cas x \<longrightarrow>
        s_acct_record_number y = s_acct_record_number x)"

text \<open>What others write does not disturb an answer thread: its CAS is then out of date.\<close>

lemma answer_ok_others:
  assumes "answer_cas_unique e s as s'" "list_all (answer_ok e sm key s) as"
  shows "list_all (answer_ok e sm key s') as"
  unfolding list_all_iff
proof
  fix t assume t: "t \<in> set as"
  with assms(2) have ok: "answer_ok e sm key s t" by (simp add: list_all_iff)
  have "s_acct_record_number y = s_acct_record_number x"
    if "answer_writing (snd t) = Some (st, y)" "session_at e st s' key = Some x" "s_cas y = s_cas x" for st x y
  proof (cases "session_at e st s key = Some x")
    case True
    with ok that show ?thesis by (auto simp: answer_ok_def)
  next
    case False
    with assms(1) that t ok show ?thesis
      unfolding answer_cas_unique_def answer_ok_def answers_for_def by (fastforce split: prod.splits)
  qed
  with ok show "answer_ok e sm key s' t" by (auto simp: answer_ok_def)
qed

lemma answer_begin_race:
  assumes "timers_separate e" "answers_for key [a]" "answer_begin (fst e) sm a s = (pc, s')"
  shows "answer_point sm pc" "answer_writing pc = None" "session_at e st s' = session_at e st s"
proof -
  let ?s1 = "sas_log_ccf_response (a_accepted a) (a_session_id a) (a_msg a) s"
  have kind: "isInterim (m_record_type (a_msg a))" "a_accepted a \<or> a_rc a \<noteq> 5002"
    using assms(2) by (simp_all add: answers_for_def)
  note not_start = record_type_exclusive(1) [OF kind(1)]
  have renew: "answer_point sm pc \<and> answer_writing pc = None \<and> snd e st (world s') = snd e st (world s)"
    if r: "renew_step (fst e) sm n (a_msg a) log ?s1 = (pc, s')" for n log
  proof -
    obtain i s2 where c: "send_chronos_update (fst e) (m_timer_id (a_msg a)) n (m_session_refresh_time
        (a_msg a))
        (callback_uri (fst e) (a_msg a)) (create_opaque_data (fst e) (a_msg a)) ?s1 = (i, s2)" by fastforce
    from r c send_chronos_update_world [OF assms(1) c, of st] show ?thesis
      by (auto simp: renew_step_def split: if_splits)
  qed
  have "answer_point sm pc \<and> answer_writing pc = None \<and> snd e st (world s') = snd e st (world s)"
    using assms(3) kind not_start renew
    by (auto simp: answer_begin_def Let_def split: if_splits)
  then show "answer_point sm pc" "answer_writing pc = None" "session_at e st s' = session_at e st s"
    using session_at_world_cong [of e st s' s] by auto
qed

text \<open>The write of \<open>update_timer_id\<close>: it keeps the number, or is refused.\<close>

lemma timer_write_race:
  assumes ok: "register_ok e" and x: "session_at e st s (msg_key (a_msg a)) = Some x" and y: "good_copy y"
    and put: "set_session_data (fst e) st (m_call_id (a_msg a)) (m_role (a_msg a)) (m_function (a_msg a)) y
      False s = (rc, s')"
    and num: "s_cas y = s_cas x \<Longrightarrow> s_acct_record_number y = s_acct_record_number x"
  shows "renumbered (session_at e st' s (msg_key (a_msg a))) (session_at e st' s' (msg_key (a_msg a)))"
proof (cases rule: interim_write_cases [OF ok x put y])
  case 1
  then obtain c where c: "c \<noteq> s_cas x"
    "session_at e st s' = (session_at e st s)(msg_key (a_msg a) \<mapsto> (stored_view y)\<lparr>s_cas := c\<rparr>)"
    using register_put_commits [OF ok put] x y by (auto simp: good_copy_def)
  have frame: "session_at e st' s' = session_at e st' s" if "st' \<noteq> st"
    using session_at_world_cong [OF register_frames(1) [OF ok that put]] by simp
  show ?thesis
    using c x num 1(2) y frame
    by (cases "st' = st") (auto simp: renumbered_def good_copy_def durable_def stored_view_def)
next
  case 2
  then show ?thesis by (simp add: renumbered_def)
qed

lemma answer_step_race:
  assumes ok: "register_ok e" "timers_separate e"
    and a: "answer_ok e sm key s (a, pc)"
    and copies: "\<And>st. st \<in> set (all_stores sm) \<Longrightarrow> \<exists>x. session_at e st s key = Some x \<and> good_copy x"
    and step: "answer_step (fst e) sm a (pc, s) = (pc', s')"
  shows "answer_point sm pc' \<and>
    (\<forall>st. renumbered (session_at e st s key) (session_at e st s' key)) \<and>
    (\<forall>st y. answer_writing pc' = Some (st, y) \<longrightarrow>
       (\<exists>x. session_at e st s' key = Some x \<and> s_acct_record_number y = s_acct_record_number x))"
proof -
  have key: "key = msg_key (a_msg a)" and for_key: "answers_for key [a]" and pt: "answer_point sm pc"
    using a by (simp_all add: answer_ok_def answers_for_def)
  have same: "renumbered y y" for y by (simp add: renumbered_def)
  have log: "session_at e st (emit ev u) = session_at e st u" for st ev u
    using session_at_world_cong [of e st "emit ev u" u] by simp
  show ?thesis
  proof (cases pc)
    case AnswerStart
    with step answer_begin_race [OF ok(2) for_key] same show ?thesis by simp
  next
    case (NextTimer i sts)
    show ?thesis
    proof (cases sts)
      case Nil
      with NextTimer step same show ?thesis by auto
    next
      case (Cons st rest)
      obtain found s1 where get: "get_session_data (fst e) st (m_call_id (a_msg a)) (m_role (a_msg a))
          (m_function (a_msg a)) (m_trail (a_msg a)) s = (found, s1)" by fastforce
      note g = get_session_data_register [OF ok(1) get]
      obtain x where x: "session_at e st s key = Some x" "good_copy x"
        using copies [of st] pt NextTimer Cons by auto
      have "s' = s1" "pc' = SetTimer i (x\<lparr>s_timer_id := i\<rparr>) st rest"
        using step get NextTimer Cons g(1) x(1) key by auto
      with pt NextTimer Cons x same_storesD(1) [OF g(2)] same show ?thesis
        by (auto simp: good_copy_def durable_def)
    qed
  next
    case (SetTimer i y st sts)
    have y: "good_copy y" using pt SetTimer by simp
    obtain x where x: "session_at e st s (msg_key (a_msg a)) = Some x"
      using copies [of st] pt SetTimer key by auto
    obtain rc s1 where put: "set_session_data (fst e) st (m_call_id (a_msg a)) (m_role (a_msg a))
        (m_function (a_msg a)) y False s = (rc, s1)" by fastforce
    have "s_acct_record_number y = s_acct_record_number x" if "s_cas y = s_cas x"
      using a SetTimer x key that by (auto simp: answer_ok_def)
    note timer_write_race [OF ok(1) x y put this, folded key]
    with step put pt SetTimer show ?thesis by auto
  qed (use step same pt log in auto)
qed

section \<open>The race\<close>

definition mixed_inv :: "'w register \<Rightarrow> session_manager \<Rightarrow> string \<Rightarrow> (store_id \<Rightarrow> u32) \<Rightarrow>
    ralf_transaction list \<Rightarrow> task list \<times> answering list \<times> 'w io \<Rightarrow> bool" where
  "mixed_inv e sm key n p0 c \<longleftrightarrow> (case c of (ts, as, s) \<Rightarrow>
     race_inv e sm key n p0 (ts, s) \<and> list_all (answer_ok e sm key s) as)"

text \<open>A step of an answer thread, for the INTERIMs and for the other answer threads.\<close>

lemma session_inv_answer:
  assumes ok: "register_ok e" "timers_separate e"
    and inv: "session_inv e sm key n sent ts s" "list_all (answer_ok e sm key s) as"
    and i: "i < length as" "as ! i = (a, pc)" and step: "answer_step (fst e) sm a (pc, s) = (pc', s')"
    and fresh: "cas_unique e sm s ts s'" "answer_cas_unique e s (as[i := (a, pc')]) s'"
  shows "session_inv e sm key n sent ts s'" "list_all (answer_ok e sm key s') (as[i := (a, pc')])"
proof -
  have a: "answer_ok e sm key s (a, pc)" using inv(2) i by (metis list_all_length)
  note r = answer_step_race [OF ok a session_inv_copies [OF inv(1)] step]
  show "session_inv e sm key n sent ts s'" using session_inv_renumbered [OF inv(1) fresh(1)] r by blast
  have here: "answer_ok e sm key s' (a, pc')"
    using r a unfolding answer_ok_def by (metis fst_conv snd_conv option.inject)
  have "answer_ok e sm key s' t" if "t \<in> set (as[i := (a, pc')])" for t
  proof (cases "t = (a, pc')")
    case False
    then have t: "t \<in> set as" using that set_update_subset_insert [of as i "(a, pc')"] by auto
    have "answer_cas_unique e s [t] s'" using fresh(2) that by (auto simp: answer_cas_unique_def)
    moreover have "list_all (answer_ok e sm key s) [t]" using inv(2) t by (simp add: list_all_iff)
    ultimately show ?thesis using answer_ok_others by fastforce
  qed (use here in simp)
  then show "list_all (answer_ok e sm key s') (as[i := (a, pc')])" by (simp add: list_all_iff)
qed

lemma mixed_inv_step:
  assumes ok: "register_ok e" "timers_separate e" and dist: "distinct (all_stores sm)"
    and other: "spares_key e key other"
    and "mixed_step e sm other c c'" "mixed_inv e sm key n p0 c"
  shows "mixed_inv e sm key n p0 c'"
  using assms(5)
proof (cases rule: mixed_step.cases)
  case (thread i ts msg pc s pc' s' as)
  with race_inv_thread [OF ok(1) dist, of key n p0 ts s] answer_ok_others [of e s as s' sm key] assms(6)
  show ?thesis by (auto simp: mixed_inv_def)
next
  case (answer i as a pc s pc' s' ts)
  with assms(6) obtain ps where "pending s = p0 @ ps" "session_inv e sm key n (record_numbers ps) ts s"
    "list_all (answer_ok e sm key s) as" by (auto simp: mixed_inv_def race_inv_def)
  with session_inv_answer [OF ok _ _ answer(3-7)] answer_step_pending [OF answer(5)] answer(2)
  show ?thesis by (auto simp: mixed_inv_def race_inv_def)
next
  case (elsewhere s w ts as)
  have at: "session_at e st (s\<lparr>world := w\<rparr>) key = session_at e st s key" for st
    using elsewhere other by (simp add: spares_key_def session_at_def)
  then have "list_all (answer_ok e sm key (s\<lparr>world := w\<rparr>)) as = list_all (answer_ok e sm key s) as"
    by (simp add: answer_ok_def list_all_iff)
  with elsewhere assms(6) race_inv_step [OF ok(1) dist other race_step.elsewhere [of other s w e sm ts]]
  show ?thesis by (simp add: mixed_inv_def)
qed

lemma mixed_inv_run:
  assumes "register_ok e" "timers_separate e" "distinct (all_stores sm)" "spares_key e key other"
    and "(mixed_step e sm other)\<^sup>*\<^sup>* c c'" "mixed_inv e sm key n p0 c"
  shows "mixed_inv e sm key n p0 c'"
  using assms(5,6) by (induction rule: rtranclp_induct) (auto intro: mixed_inv_step [OF assms(1-4)])

definition answering :: "answer list \<Rightarrow> answering list" where
  "answering as = map (\<lambda>a. (a, AnswerStart)) as"

lemma mixed_inv_start:
  assumes "interims_for key msgs" "answers_for key as" "copies e sm key n s"
  shows "mixed_inv e sm key n (pending s) (racing msgs, answering as, s)"
  using race_inv_start [OF assms(1,3)] assms(2)
  by (auto simp: mixed_inv_def answering_def list_all_iff answer_ok_def answers_for_def)

section \<open>Every schedule ends\<close>

text \<open>
  A commit of an answer can make the CAS that an INTERIM holds out of date, so each step of an
  answer may cost every INTERIM another round; but an answer has only so many steps (theory
  Thread_Properties), and it never repeats a refused write.
\<close>

definition mixed_move :: "'w register \<Rightarrow> session_manager \<Rightarrow> task list \<times> answering list \<times> 'w io \<Rightarrow>
    task list \<times> answering list \<times> 'w io \<Rightarrow> bool" where
  "mixed_move e sm c c' \<longleftrightarrow> mixed_step e sm (\<lambda>_ _. False) c c' \<and> c' \<noteq> c"

definition mixed_potential ::
  "'w register \<Rightarrow> session_manager \<Rightarrow> string \<Rightarrow> task list \<times> answering list \<times> 'w io \<Rightarrow> nat" where
  "mixed_potential e sm key c = (case c of (ts, as, s) \<Rightarrow>
     race_potential e sm key (ts, s) +
     (3 * length ts + 1) * sum_list (map (\<lambda>t. answer_work sm (snd t)) as))"

lemma race_potential_change: "race_potential e sm key (ts, s') \<le> race_potential e sm key (ts,
    s) + 3 * length ts"
  using task_ranks_le [of e sm key s' ts] by (simp add: race_potential_def)

lemma mixed_potential_move:
  assumes ok: "register_ok e" and dist: "distinct (all_stores sm)"
    and inv: "mixed_inv e sm key n p0 c" and move: "mixed_move e sm c c'"
  shows "mixed_potential e sm key c' < mixed_potential e sm key c"
proof -
  from move have "mixed_step e sm (\<lambda>_ _. False) c c'" and change: "c' \<noteq> c"
    by (simp_all add: mixed_move_def)
  from this(1) show ?thesis
  proof (cases rule: mixed_step.cases)
    case (thread i ts msg pc s pc' s' as)
    then have "race_move e sm (ts, s) (ts[i := (msg, pc')], s')"
      using change race_step.thread [of i ts msg pc e sm s pc' s'] by (auto simp: race_move_def)
    from race_potential_move [OF ok dist _ this, of key n p0] inv thread(1,2) show ?thesis
      by (simp add: mixed_inv_def mixed_potential_def)
  next
    case (answer i as a pc s pc' s' ts)
    have "pc \<noteq> AnswerDone" using answer change by (metis answer_step.simps(10) list_update_id prod.inject)
    from answer_step_work [OF this, of sm "fst e" a s]
    have "sum_list (map (\<lambda>t. answer_work sm (snd t)) (as[i := (a, pc')])) <
        sum_list (map (\<lambda>t. answer_work sm (snd t)) as)"
      using answer(3-5) by (intro sum_list_map_update_less) simp_all
    then have "Suc (sum_list (map (\<lambda>t. answer_work sm (snd t)) (as[i := (a, pc')]))) \<le>
        sum_list (map (\<lambda>t. answer_work sm (snd t)) as)" by simp
    from mult_le_mono2 [OF this, of "3 * length ts + 1"] race_potential_change [of e sm key ts s' s]
    show ?thesis using answer(1,2) by (simp add: mixed_potential_def)
  qed auto
qed

lemma mixed_moves_potential:
  assumes "register_ok e" "timers_separate e" "distinct (all_stores sm)"
    and "(mixed_move e sm ^^ k) c c'" "mixed_inv e sm key n p0 c"
  shows "mixed_inv e sm key n p0 c' \<and> mixed_potential e sm key c' + k \<le> mixed_potential e sm key c"
  using assms(4)
proof (induction k arbitrary: c')
  case 0
  then show ?case using assms(5) by simp
next
  case (Suc k)
  then obtain c1 where c1: "(mixed_move e sm ^^ k) c c1" "mixed_move e sm c1 c'" by auto
  with Suc.IH have inv: "mixed_inv e sm key n p0 c1"
    "mixed_potential e sm key c1 + k \<le> mixed_potential e sm key c" by auto
  have "spares_key e key (\<lambda>_ _. False)" by (simp add: spares_key_def)
  with c1(2) inv(1) have "mixed_inv e sm key n p0 c'"
    using mixed_inv_step [OF assms(1-3)] unfolding mixed_move_def by blast
  with mixed_potential_move [OF assms(1,3) inv(1) c1(2)] inv(2) show ?case by simp
qed

lemma mixed_potential_start:
  assumes "interims_for key msgs"
  shows "mixed_potential e sm key (racing msgs, answering answers, s) =
    (3 * length msgs + 1) * (length msgs * length (all_stores sm) +
      length answers * (2 * length (all_stores sm) + 3)) + 2 * length msgs"
proof -
  have "sum_list (map (\<lambda>t. answer_work sm (snd t)) (answering answers)) =
      length answers * (2 * length (all_stores sm) + 3)"
    by (simp add: answering_def o_def sum_list_triv)
  moreover have "length (racing msgs) = length msgs" by (simp add: racing_def)
  ultimately show ?thesis
    unfolding mixed_potential_def prod.case racing_potential [OF assms] by (simp add: algebra_simps)
qed

lemma answer_step_moves: "answer_step env sm a (pc, s) = (pc, s) \<Longrightarrow> pc = AnswerDone"
  using answer_step_work [of pc sm env a s] by fastforce

text \<open>
  C15: INTERIMs and answers that race for a session cannot keep each other from finishing. A thread
  whose write is refused starts again, but only because another one has committed, so under any
  schedule the threads take at most \<open>(3k + 1) (k m + j (2m + 3)) + 2k\<close> steps together, for \<open>k\<close>
  INTERIMs, \<open>j\<close> answers and \<open>m\<close> stores; and a thread whose next step would change nothing, and so
  would not count as one, has returned.
\<close>

theorem racing_threads_finish:
  assumes "register_ok e" "timers_separate e" "distinct (all_stores sm)"
    and "interims_for key msgs" "answers_for key answers" "copies e sm key n s"
    and "(mixed_move e sm ^^ steps) (racing msgs, answering answers, s) (ts, as, s')"
  shows "steps \<le> (3 * length msgs + 1) * (length msgs * length (all_stores sm) +
        length answers * (2 * length (all_stores sm) + 3)) + 2 * length msgs \<and>
    (\<forall>(msg, pc) \<in> set ts. task_step (fst e) sm msg (pc, s') = (pc, s') \<longrightarrow> (\<exists>r. pc = Returned r)) \<and>
    (\<forall>(a, pc) \<in> set as. answer_step (fst e) sm a (pc, s') = (pc, s') \<longrightarrow> pc = AnswerDone)"
  using mixed_moves_potential [OF assms(1-3,7) mixed_inv_start [OF assms(4-6)]] task_step_moves
    answer_step_moves
  unfolding mixed_potential_start [OF assms(4)] by fastforce

section \<open>A concrete race\<close>

text \<open>A thread moves while all others are between a read and the next.\<close>

lemma mixed_race_step:
  assumes "race_step e sm other (ts, s) (ts', s')" "\<forall>t \<in> set as. answer_writing (snd t) = None"
  shows "mixed_step e sm other (ts, as, s) (ts', as, s')"
  using assms(1)
proof (cases rule: race_step.cases)
  case (thread i msg pc pc')
  moreover have "answer_cas_unique e s as s'" using assms(2) by (auto simp: answer_cas_unique_def)
  ultimately show ?thesis using mixed_step.thread by metis
next
  case (elsewhere w)
  then show ?thesis using mixed_step.elsewhere by metis
qed

lemma mixed_race_run:
  assumes "(race_step e sm other)\<^sup>*\<^sup>* (ts, s) (ts', s')" "\<forall>t \<in> set as. answer_writing (snd t) = None"
  shows "(mixed_step e sm other)\<^sup>*\<^sup>* (ts, as, s) (ts', as, s')"
  using assms(1)
proof (induction rule: rtranclp_induct2)
  case (step t1 s1 t2 s2)
  from mixed_race_step [OF step(2) assms(2)] step(3) show ?case by simp
qed simp

lemma answer_step_holds:
  assumes ok: "register_ok e" "timers_separate e" and a: "answers_for key [a]"
    and step: "answer_step (fst e) sm a (pc, s) = (pc', s')"
  shows "answer_writing pc' = None \<or> (\<forall>st. session_at e st s' = session_at e st s)"
proof -
  have read: "same_stores e s s1"
    if "get_session_data (fst e) st (m_call_id (a_msg a)) (m_role (a_msg a)) (m_function (a_msg a))
        (m_trail (a_msg a)) s = (x, s1)" for st x s1
    using get_session_data_register(2) [OF ok(1) that] .
  show ?thesis
    using step answer_begin_race(2) [OF ok(2) a, of sm s]
    by (cases "(fst e, sm, a, (pc, s))" rule: answer_step.cases)
       (auto simp: same_storesD dest!: read split: prod.splits option.splits)
qed

lemma solo_answer:
  assumes ok: "register_ok e" "timers_separate e" and a: "answers_for key [a]"
    and idle: "\<forall>t \<in> set ts. idle sm t" and run: "answer_run (fst e) sm a (pc, s) (pc', s')"
  shows "(mixed_step e sm other)\<^sup>*\<^sup>* (ts, [(a, pc)], s) (ts, [(a, pc')], s')"
proof -
  have move: "mixed_step e sm other (ts, [(a, p1)], s1) (ts, [(a, p2)], s2)"
    if step: "answer_step (fst e) sm a (p1, s1) = (p2, s2)" for p1 s1 p2 s2
  proof -
    have "cas_unique e sm s1 ts s2" using idle by (auto simp: cas_unique_def idle_def)
    moreover have "answer_cas_unique e s1 [(a, p2)] s2"
      using answer_step_holds [OF ok a step] by (auto simp: answer_cas_unique_def)
    ultimately show ?thesis
      using mixed_step.answer [of 0 "[(a, p1)]" a p1 e sm s1 p2 s2 ts other] step by simp
  qed
  obtain n where "(answer_step (fst e) sm a ^^ n) (pc, s) = (pc', s')" using run by (auto simp: answer_run_def)
  then show ?thesis
  proof (induction n arbitrary: pc' s')
    case (Suc n)
    obtain p1 s1 where r: "(answer_step (fst e) sm a ^^ n) (pc, s) = (p1, s1)" by fastforce
    with Suc.prems have "answer_step (fst e) sm a (p1, s1) = (pc', s')" by simp
    from move [OF this] Suc.IH [OF r] show ?case by simp
  qed simp
qed

text \<open>An answer that gives the session a new timer, then two INTERIMs, one overtaking the other.\<close>

definition sample_answer :: answer where
  "sample_answer = \<lparr>a_accepted = True, a_interim_interval = 60, a_session_id = ''sid'', a_rc = 2001,
     a_msg = (sample_msg 3)\<lparr>m_timer_id := NO_TIMER\<rparr>\<rparr>"

lemma copies_of_race_inv:
  assumes "race_inv e sm key n p0 (racing msgs, s)" "interims_for key msgs"
  shows "copies e sm key n s"
  unfolding copies_def
proof
  fix st assume st: "st \<in> set (all_stores sm)"
  then have zero: "sum_list (map (store_done sm st) (racing msgs)) = 0"
    by (simp add: interims_for_start(1) [OF assms(2)] store_done_def o_def)
  have "copy_inv e sm key n (racing msgs) s st"
      using st assms(1) by (auto simp: race_inv_def session_inv_def list_all_iff)
  then show "\<exists>x. session_at e st s key = Some x \<and> good_copy x \<and> s_acct_record_number x = n st"
    unfolding copy_inv_def zero by auto
qed

lemma sample_mixed_run:
  obtains s' where "(mixed_step ref sample_sm (\<lambda>_ _. False))\<^sup>*\<^sup>*
      (racing [sample_msg 3, sample_msg 3], answering [sample_answer], race_start)
      ([(sample_msg 3, Returned None), (sample_msg 3, Returned None)], [(sample_answer, AnswerDone)], s')"
    "answers_for (create_key ''call'' 0 0) [sample_answer]" "distinct (all_stores sample_sm)"
    "spares_key ref (create_key ''call'' 0 0) (\<lambda>_ _. False)"
proof -
  let ?key = "create_key ''call'' 0 0" and ?ms = "[sample_msg 3, sample_msg 3]"
  let ?step = "mixed_step ref sample_sm (\<lambda>_ _. False)"
  have spare: "spares_key ref ?key (\<lambda>_ _. False)" by (simp add: spares_key_def)
  have dist: "distinct (all_stores sample_sm)" by simp
  have a: "answers_for ?key [sample_answer]"
    using msg_key_sample [of 3] by (simp add: answers_for_def sample_answer_def msg_key_def)
  obtain s1 where "answer_run (fst ref) sample_sm sample_answer (AnswerStart, race_start) (AnswerDone, s1)"
    using on_ccf_response_run by blast
  then have run1: "?step\<^sup>*\<^sup>* (racing ?ms, answering [sample_answer], race_start)
      (racing ?ms, [(sample_answer, AnswerDone)], s1)"
    unfolding answering_def interims_for_start(1) [OF race_start_interims]
    using solo_answer [OF ref_register_ok timers_separate_ref a] by (simp add: idle_def)
  have "race_inv ref sample_sm ?key (\<lambda>_. 7) (pending race_start) (racing ?ms, s1)"
    using mixed_inv_run [OF ref_register_ok timers_separate_ref dist spare run1
        mixed_inv_start [OF race_start_interims a race_start_copies]] by (simp add: mixed_inv_def)
  from copies_of_race_inv [OF this race_start_interims]
  obtain s' where "(race_step ref sample_sm (\<lambda>_ _. False))\<^sup>*\<^sup>* (racing ?ms, s1)
      ([(sample_msg 3, Returned None), (sample_msg 3, Returned None)], s')"
    using overtaking_run [OF ref_register_ok dist race_start_interims _ spare] by blast
  from mixed_race_run [OF this] have run2: "?step\<^sup>*\<^sup>* (racing ?ms, [(sample_answer, AnswerDone)], s1)
      ([(sample_msg 3, Returned None), (sample_msg 3, Returned None)], [(sample_answer, AnswerDone)],
          s')" by simp
  from rtranclp_trans [OF run1 run2] a dist spare show ?thesis by (rule that)
qed

text \<open>The same run without the steps that change nothing.\<close>

lemma mixed_moves_of_run:
  "(mixed_step e sm (\<lambda>_ _. False))\<^sup>*\<^sup>* c c' \<Longrightarrow> \<exists>k. (mixed_move e sm ^^ k) c c'"
proof (induction rule: rtranclp_induct)
  case base
  show ?case by (rule exI [of _ 0]) simp
next
  case (step c1 c2)
  then obtain k where k: "(mixed_move e sm ^^ k) c c1" by blast
  show ?case
  proof (cases "c2 = c1")
    case False
    with step(2) k have "(mixed_move e sm ^^ Suc k) c c2" by (auto simp: mixed_move_def)
    then show ?thesis ..
  qed (use k in auto)
qed

theorem racing_threads_finish_witness:
  "\<exists>k s'. (mixed_move ref sample_sm ^^ k)
       (racing [sample_msg 3, sample_msg 3], answering [sample_answer], race_start)
       ([(sample_msg 3, Returned None), (sample_msg 3, Returned None)], [(sample_answer, AnswerDone)], s') \<and>
     k \<le> 81"
proof -
  obtain s' where run: "(mixed_step ref sample_sm (\<lambda>_ _. False))\<^sup>*\<^sup>*
      (racing [sample_msg 3, sample_msg 3], answering [sample_answer], race_start)
      ([(sample_msg 3, Returned None), (sample_msg 3, Returned None)], [(sample_answer, AnswerDone)], s')"
    and a: "answers_for (create_key ''call'' 0 0) [sample_answer]" and dist: "distinct (all_stores sample_sm)"
    by (rule sample_mixed_run)
  from mixed_moves_of_run [OF run] obtain k where k: "(mixed_move ref sample_sm ^^ k)
      (racing [sample_msg 3, sample_msg 3], answering [sample_answer], race_start)
      ([(sample_msg 3, Returned None), (sample_msg 3, Returned None)], [(sample_answer, AnswerDone)],
          s')" by blast
  from racing_threads_finish [OF ref_register_ok timers_separate_ref dist race_start_interims a
      race_start_copies k] k show ?thesis by auto
qed

section \<open>A timer identifier that is lost\<close>

lemma unchanged_fresh:
  assumes "\<And>st. session_at e st s' = session_at e st s"
  shows "cas_unique e sm s ts s'" "answer_cas_unique e s as s'"
  using assms by (simp_all add: cas_unique_def answer_cas_unique_def)

lemma mixed_task:
  assumes "task_step (fst e) sm m (pc, s) = (pc', s')"
    and "cas_unique e sm s [(m, pc')] s'" "answer_cas_unique e s as s'"
  shows "mixed_step e sm other ([(m, pc)], as, s) ([(m, pc')], as, s')"
  using mixed_step.thread [of 0 "[(m, pc)]" m pc e sm s pc' s' as other] assms by simp

lemma mixed_answer:
  assumes "answer_step (fst e) sm a (pc, s) = (pc', s')" "\<And>st. session_at e st s' = session_at e st s"
  shows "mixed_step e sm other (ts, [(a, pc)], s) (ts, [(a, pc')], s')"
  using mixed_step.answer [of 0 "[(a, pc)]" a pc e sm s pc' s' ts other] assms(1) unchanged_fresh [OF assms(2)]
  by simp

text \<open>The answer renews the timer and reads the session; before it writes, an INTERIM is served.\<close>

lemma timer_answer_reads:
  assumes ok: "register_ok e" "timers_separate e" and a: "answers_for key [a]"
    and x: "session_at e st s key = Some x"
    and new: "answer_begin (fst e) sm a s = (NextTimer i [st], s1)"
  obtains s2 where "(mixed_step e sm other)\<^sup>*\<^sup>* (ts, [(a, AnswerStart)], s)
      (ts, [(a, SetTimer i (x\<lparr>s_timer_id := i\<rparr>) st [])], s2)"
    "\<And>st'. session_at e st' s2 = session_at e st' s"
proof -
  have s1: "session_at e st' s1 = session_at e st' s" for st'
    by (rule answer_begin_race(3) [OF ok(2) a new])
  have 1: "mixed_step e sm other (ts, [(a, AnswerStart)], s) (ts, [(a, NextTimer i [st])], s1)"
    by (rule mixed_answer) (simp_all add: new s1)
  obtain found s2 where get: "get_session_data (fst e) st (m_call_id (a_msg a)) (m_role (a_msg a))
      (m_function (a_msg a)) (m_trail (a_msg a)) s1 = (found, s2)" by fastforce
  note g = get_session_data_register [OF ok(1) get]
  have "found = Some x" using g(1) x s1 a by (simp add: answers_for_def)
  then have step: "answer_step (fst e) sm a (NextTimer i [st], s1) =
      (SetTimer i (x\<lparr>s_timer_id := i\<rparr>) st [], s2)"
    using get by simp
  have same: "session_at e st' s2 = session_at e st' s1" for st' using same_storesD(1) [OF g(2)] .
  have 2: "mixed_step e sm other (ts, [(a, NextTimer i [st])], s1)
      (ts, [(a, SetTimer i (x\<lparr>s_timer_id := i\<rparr>) st [])], s2)"
    by (rule mixed_answer [OF step same])
  have "(mixed_step e sm other)\<^sup>*\<^sup>* (ts, [(a, AnswerStart)], s)
      (ts, [(a, SetTimer i (x\<lparr>s_timer_id := i\<rparr>) st [])], s2)"
    using 1 2 by (meson converse_rtranclp_into_rtranclp r_into_rtranclp)
  then show thesis by (rule that) (simp add: s1 same)
qed

lemma interim_commits_meanwhile:
  assumes ok: "register_ok e" and sm: "remote_stores sm = []" and m: "interims_for key [m]"
    and x: "session_at e (local_store sm) s key = Some x" "good_copy x"
  obtains c s' where "(mixed_step e sm other)\<^sup>*\<^sup>* ([(m, GetLocal)], [(a, SetTimer i (x\<lparr>s_timer_id :=
      i\<rparr>) st [])], s)
      ([(m, Returned None)], [(a, SetTimer i (x\<lparr>s_timer_id := i\<rparr>) st [])], s')"
    "session_at e (local_store sm) s' key = Some ((stored_view (bump_session x))\<lparr>s_cas := c\<rparr>)" "c \<noteq> s_cas x"
proof -
  let ?st = "local_store sm" and ?as = "[(a, SetTimer i (x\<lparr>s_timer_id := i\<rparr>) st [])]"
  let ?step = "mixed_step e sm other"
  have mi: "isInterim (m_record_type m)" "has_event m" "msg_key m = key"
      using m by (simp_all add: interims_for_def)
  obtain found s1 where get: "get_session_data (fst e) ?st (m_call_id m) (m_role m) (m_function m)
      (m_trail m) s = (found, s1)" by fastforce
  note g = get_session_data_register [OF ok get]
  have s1: "session_at e st' s1 = session_at e st' s" for st' using same_storesD(1) [OF g(2)] .
  have 1: "?step ([(m, GetLocal)], ?as, s) ([(m, SetLocal (bump_session x) False)], ?as, s1)"
    using get g(1) x(1) mi by (intro mixed_task unchanged_fresh s1) (simp add: session_found_def)
  obtain rc s2 where put: "set_session_data (fst e) ?st (m_call_id m) (m_role m) (m_function m)
      (bump_session x) False s1 = (rc, s2)" by fastforce
  obtain c where c: "rc = OK" "c \<noteq> s_cas x"
    "session_at e ?st s2 = (session_at e ?st s)(key \<mapsto> (stored_view (bump_session x))\<lparr>s_cas := c\<rparr>)"
    using register_put_commits [OF ok put] x mi(3) s1 [of ?st] by (auto simp: good_copy_def)
  have other: "session_at e st' s2 = session_at e st' s1" if "st' \<noteq> ?st" for st'
    using session_at_world_cong [OF register_frames(1) [OF ok that put]] by simp
  have "answer_cas_unique e s1 ?as s2"
    unfolding answer_cas_unique_def
  proof (intro allI impI)
    fix st' k y assume y: "session_at e st' s2 k = Some y \<and> session_at e st' s1 k \<noteq> Some y"
    then have "s_cas y = c" using other c(3) s1 by (cases "st' = ?st") (auto split: if_splits)
    with c(2) show "\<forall>(b, pc) \<in> set ?as. \<forall>z. msg_key (a_msg b) = k \<and> answer_writing pc = Some (st', z) \<longrightarrow>
        s_cas z \<noteq> s_cas y" by auto
  qed
  then have 2: "?step ([(m, SetLocal (bump_session x) False)], ?as, s1) ([(m,
      NextRemote (bump_session x) [])], ?as, s2)"
    using put c(1) sm by (intro mixed_task) (simp_all add: cas_unique_def)
  have 3: "?step ([(m, NextRemote (bump_session x) [])], ?as, s2)
      ([(m, SendAcr (fill_from_session m (bump_session x)))], ?as, s2)"
    by (intro mixed_task unchanged_fresh) simp_all
  obtain s3 where send: "send_to_peer (fst e) sm (fill_from_session m (bump_session x)) s2 = Inr s3"
    using x(2) mi(2) by (auto simp: send_to_peer_cases good_copy_def)
  have s3: "session_at e st' s3 = session_at e st' s2" for st'
    using session_at_world_cong [of e st' s3 s2] send_to_peer_Inr(3) [OF send] by simp
  have 4: "?step ([(m, SendAcr (fill_from_session m (bump_session x)))], ?as, s2) ([(m, Returned None)],
      ?as, s3)"
    using send by (intro mixed_task unchanged_fresh s3) simp
  have "?step\<^sup>*\<^sup>* ([(m, GetLocal)], ?as, s) ([(m, Returned None)], ?as, s3)"
    using 1 2 3 4 by (meson converse_rtranclp_into_rtranclp r_into_rtranclp)
  with that c s3 show thesis by simp
qed


text \<open>A session without a timer, in a deployment with one site.\<close>

definition untimed_session :: session where
  "untimed_session = sample_session\<lparr>s_timer_id := NO_TIMER\<rparr>"

definition untimed_store :: "mem_world io" where
  "untimed_store = snd (set_session_data ref_env 0 ''call'' 0 0 untimed_session True empty_io)"


end
