(* ===== verification/Session_Isolation.thy ===== *)
theory Session_Isolation
  imports Thread_Properties Concurrency_Properties
begin

text \<open>
  Sessions do not disturb each other. Every store call of a thread uses the key of the message it works
  on, Chronos does not write to the stores, and nothing else in Ralf touches them; so the entries of a
  session change only in steps of threads that work for it. This is what the theorems about the threads
  of one session need to hold in a process that serves many.
\<close>

section \<open>The entries of a key\<close>

definition untouched :: "'w register \<Rightarrow> string \<Rightarrow> 'w io \<Rightarrow> 'w io \<Rightarrow> bool" where
  "untouched e key s s' \<longleftrightarrow> (\<forall>st. snd e st (world s') key = snd e st (world s) key)"

lemma untouched_session_at: "untouched e key s s' \<Longrightarrow> session_at e st s' key = session_at e st s key"
  by (simp add: untouched_def session_at_def)

lemma untouched_world: "world s' = world s \<Longrightarrow> untouched e key s s'"
  by (simp add: untouched_def)

lemma untouched_views: "(\<And>st. snd e st (world s') = snd e st (world s)) \<Longrightarrow> untouched e key s s'"
  by (simp add: untouched_def)

lemma untouched_emit [simp]: "untouched e key s (emit ev s') = untouched e key s s'"
  by (simp add: untouched_def)

text \<open>The store operations, at another key than their own.\<close>

lemma set_data_untouched:
  assumes "cas_store env view" "set_data env st ''session'' k d c x w = (rc, w')" "key \<noteq> k"
  shows "view st' w' key = view st' w key"
proof (cases "st' = st")
  case True
  then show ?thesis
    using cas_store_set(2,5) [OF assms(1,2)] assms(3) by (cases "cas_matches (view st w k) c") auto
next
  case False
  then show ?thesis using cas_store_set(1) [OF assms(1,2)] by simp
qed

lemma store_op_untouched:
  assumes "register_ok e" "key \<noteq> create_key call role func"
  shows "set_session_data (fst e) st call role func x new s = (rc, s') \<Longrightarrow> untouched e key s s'"
    "delete_session_data_cas (fst e) st call role func x s = (rc, s') \<Longrightarrow> untouched e key s s'"
    "delete_session_data (fst e) st call role func s = (rc, s') \<Longrightarrow> untouched e key s s'"
proof -
  note cas = register_okD(1) [OF assms(1)]
  show "set_session_data (fst e) st call role func x new s = (rc, s') \<Longrightarrow> untouched e key s s'"
    "delete_session_data_cas (fst e) st call role func x s = (rc, s') \<Longrightarrow> untouched e key s s'"
    using set_data_untouched [OF cas _ assms(2)] set_session_data_world delete_cas_world
    unfolding untouched_def by metis+
  show "untouched e key s s'" if del: "delete_session_data (fst e) st call role func s = (rc, s')"
    unfolding untouched_def
  proof
    fix st'
    note d = cas_store_delete(2,3) [OF cas delete_world [OF del]]
    show "snd e st' (world s') key = snd e st' (world s) key"
      using d assms(2) by (cases "st' = st") auto
  qed
qed

lemma get_untouched:
  "register_ok e \<Longrightarrow> get_session_data (fst e) st call role func trail s = (x, s') \<Longrightarrow> untouched e key s s'"
  using register_get(2) by (blast intro: untouched_views)

section \<open>Threads\<close>

fun thread_key :: "thread \<Rightarrow> string option" where
  "thread_key (HttpThread msg pc) = Some (msg_key msg)"
| "thread_key (AnswerThread a pc) = Some (msg_key (a_msg a))"
| "thread_key (CrashedThread c) = None"

lemma task_step_untouched:
  assumes "register_ok e" "timers_separate e" "key \<noteq> msg_key msg"
    and "task_step (fst e) sm msg (pc, s) = (pc', s')"
  shows "untouched e key s s'"
proof -
  note ops = store_op_untouched [OF assms(1,3) [unfolded msg_key_def]] get_untouched [OF assms(1)]
  have timer: "untouched e key s (delete_timer (fst e) i s)" for i
    using timers_separateD(3) [OF assms(2)]
    by (auto simp: untouched_def delete_timer_def split: prod.splits) (metis snd_conv)
  show ?thesis
    using assms(4)
    by (cases "(fst e, sm, msg, (pc, s))" rule: task_step.cases)
       (auto simp: timer untouched_world send_to_peer_Inr(3) split: prod.splits option.splits if_splits
          sum.splits intro: ops)
qed

lemma answer_begin_untouched:
  assumes "timers_separate e" "answer_begin (fst e) sm a s = (pc, s')"
  shows "untouched e key s s'"
proof -
  let ?s1 = "sas_log_ccf_response (a_accepted a) (a_session_id a) (a_msg a) s"
  have log: "world ?s1 = world s" by simp
  have "snd e st (world s') = snd e st (world s)" for st
  proof (cases rule: answer_begin_cases [of "fst e" sm a s])
    case renew
    with assms(2) log show ?thesis
      by (auto simp: renew_step_def dest!: send_chronos_update_world [OF assms(1), of _ _ _ _ _ _ _ _ st]
          split: prod.splits)
  next
    case start
    with assms(2) log show ?thesis
      by (auto dest!: start_timer_world [OF assms(1), of _ _ _ _ _ st] split: prod.splits)
  qed (use assms(2) log in auto)
  then show ?thesis by (rule untouched_views)
qed

lemma answer_step_untouched:
  assumes "register_ok e" "timers_separate e" "key \<noteq> msg_key (a_msg a)"
    and "answer_step (fst e) sm a (pc, s) = (pc', s')"
  shows "untouched e key s s'"
proof -
  note ops = store_op_untouched [OF assms(1,3) [unfolded msg_key_def]] get_untouched [OF assms(1)]
  have writes: "untouched e key s (snd (set_session_data (fst e) st (m_call_id (a_msg a)) (m_role (a_msg a))
      (m_function (a_msg a)) x new s))" "untouched e key s (snd (delete_session_data (fst e) st
      (m_call_id (a_msg a)) (m_role (a_msg a)) (m_function (a_msg a)) s))" for st x new
    using ops(1,3) surjective_pairing by metis+
  show ?thesis
    using assms(4) answer_begin_untouched [OF assms(2)]
    by (cases "(fst e, sm, a, (pc, s))" rule: answer_step.cases)
       (auto simp: writes untouched_world split: prod.splits option.splits intro: ops)
qed

lemma thread_step_untouched:
  assumes "register_ok e" "timers_separate e" "thread_key t \<noteq> Some key"
    and "thread_step (fst e) sm (t, s) = (r, s')"
  shows "untouched e key s s'"
proof (cases t rule: thread_cases)
  case (running msg pc)
  obtain pc' s1 where "task_step (fst e) sm msg (pc, s) = (pc', s1)" by fastforce
  with running assms task_step_untouched [OF assms(1,2) _ this, of key] show ?thesis
    by (auto simp: thread_step_running)
next
  case (answering a pc)
  obtain pc' s1 where "answer_step (fst e) sm a (pc, s) = (pc', s1)" by fastforce
  with answering assms answer_step_untouched [OF assms(1,2) _ this, of key] show ?thesis
    by (auto simp: thread_step_running)
qed (use assms(4) in \<open>auto simp: untouched_world\<close>)

text \<open>A thread keeps its key for as long as it runs.\<close>

lemma thread_step_key:
  assumes "thread_step env sm (t, s) = (Some t', s')"
  shows "thread_key t' = thread_key t \<or> (\<exists>c. t' = CrashedThread c)"
  using assms by (cases t rule: thread_cases) (auto simp: thread_step_running map_prod_def split: prod.splits)

section \<open>The process\<close>

lemma callback_world:
  assumes "cb = on_response_begin env t rsp s \<or> cb = on_timeout_begin env t s"
  shows "world (callback_state cb s) = world s"
proof -
  have "world (callback_state (send_cb_begin env pm code v sid u) s) = world s"
    if "world u = world s" for pm code v sid u
    using that
    by (auto simp: send_cb_begin_def Let_def int_send_msg_cases split: option.split sum.split if_splits)
  then show ?thesis
    using assms by (auto simp: on_response_begin_def on_timeout_begin_def Let_def)
qed

lemma arrival_untouched:
  assumes "spares_key e key other" "arrival (fst e) other (ts, s) (ts', s')"
  shows "untouched e key s s'"
  using assms(2)
proof (cases rule: arrival.cases)
  case (request req trail r)
  then show ?thesis using billing_accept_quiet(2) untouched_world by blast
next
  case (response i rsp cb)
  with callback_world [of cb "fst e" "pending s ! i" rsp "take_pending i s"] show ?thesis
    by (auto intro: untouched_world)
next
  case (timeout i cb)
  with callback_world [of cb "fst e" "pending s ! i" undefined "take_pending i s"] show ?thesis
    by (auto intro: untouched_world)
next
  case (elsewhere w)
  with assms(1) show ?thesis by (simp add: untouched_def spares_key_def)
qed

text \<open>
  C6: when a step of the process changes what a store holds under a key, a thread has made the step
  that works on a message with this key; no request, answer or timeout and no thread of another
  session does, in particular not by setting or deleting timers. (The stores keep the compare-and-set
  contract, and other programs leave the key alone.)
\<close>

theorem sessions_isolated:
  assumes "register_ok e" "timers_separate e" "spares_key e key other"
    and "process_step (fst e) sm other (ts, s) (ts', s')"
    and "snd e st (world s') key \<noteq> snd e st (world s) key"
  shows "\<exists>i r. i < length ts \<and> thread_key (ts ! i) = Some key \<and>
    thread_step (fst e) sm (ts ! i, s) = (r, s') \<and> ts' = put_thread i r ts"
  using assms(4)
proof (rule process_stepE)
  assume "arrival (fst e) other (ts, s) (ts', s')"
  from arrival_untouched [OF assms(3) this] assms(5) show ?thesis by (simp add: untouched_def)
next
  fix i r
  assume i: "ts' = put_thread i r ts" "i < length ts" "thread_step (fst e) sm (ts ! i, s) = (r, s')"
  have "thread_key (ts ! i) = Some key"
    using thread_step_untouched [OF assms(1,2) _ i(3)] assms(5) by (auto simp: untouched_def)
  with i show ?thesis by blast
qed

text \<open>An answer thread that deletes the session of the sample message.\<close>

theorem sessions_isolated_witness:
  "\<exists>a s'. process_step ref_env sample_sm (\<lambda>_ _. False) ([AnswerThread a (DeleteGone [0])], race_start)
       ([AnswerThread a (DeleteGone [])], s') \<and>
     snd ref 0 (world s') (create_key ''call'' 0 0) = None \<and>
     thread_key (AnswerThread a (DeleteGone [0])) = Some (create_key ''call'' 0 0)"
proof -
  let ?key = "create_key ''call'' 0 0" and ?a = "ccf_answer False 0 '''' 5002 (sample_msg 3)"
  let ?t = "AnswerThread ?a (DeleteGone [0])" and ?t' = "AnswerThread ?a (DeleteGone [])"
  obtain rc s' where d: "delete_session_data (fst ref) 0 ''call'' 0 0 race_start = (rc, s')" by fastforce
  have step: "thread_step (fst ref) sample_sm (?t, race_start) = (Some ?t', s')"
    using d by (simp add: ccf_answer_def)
  then have p: "process_step (fst ref) sample_sm (\<lambda>_ _. False) ([?t], race_start) ([?t'], s')"
    using process_step.thread [of 0 "[?t]" "fst ref" sample_sm race_start "Some ?t'"
        s'] by (simp add: put_thread_def)
  have gone: "snd ref 0 (world s') ?key = None"
    using cas_store_delete(3) [OF register_okD(1) [OF ref_register_ok] delete_world [OF d]] by simp
  have "0 \<in> {0, 1 :: nat}" by simp
  then obtain c where "session_at ref 0 race_start ?key = Some (sample_session\<lparr>s_cas := c\<rparr>)"
    by (rule race_start_session_at)
  then have "snd ref 0 (world s') ?key \<noteq> snd ref 0 (world race_start) ?key"
    using gone by (auto elim: session_at_SomeE)
  from sessions_isolated [OF ref_register_ok timers_separate_ref _ p this] p gone show ?thesis
    by (intro exI [of _ ?a] exI [of _ s']) (auto simp: spares_key_def)
qed

end
