(* ===== verification/Session_Numbering.thy ===== *)
theory Session_Numbering
  imports Racing_Answers Session_Isolation Timer_Callback
begin

text \<open>
  The record numbers of a session in the running process. Theories Concurrent_Tasks and Racing_Answers
  follow the threads of one session; here they are part of the process of theory Ralf_Threads, which
  goes on accepting requests, for this session and for others, and receiving answers, while the
  session is in use: between its START and its STOP, only INTERIMs and the answers to them work on it.
\<close>

section \<open>The threads of a session\<close>

fun thread_tasks :: "string \<Rightarrow> thread \<Rightarrow> task list" where
  "thread_tasks key (HttpThread msg pc) = (if msg_key msg = key then [(msg, pc)] else [])"
| "thread_tasks key _ = []"

fun thread_answers :: "string \<Rightarrow> thread \<Rightarrow> answering list" where
  "thread_answers key (AnswerThread a pc) = (if msg_key (a_msg a) = key then [(a, pc)] else [])"
| "thread_answers key _ = []"

definition picked :: "(thread \<Rightarrow> 'a list) \<Rightarrow> thread list \<Rightarrow> 'a list" where
  "picked f ts = concat (map f ts)"

lemma picked_simps [simp]:
  "picked f [] = []" "picked f (t # ts) = f t @ picked f ts" "picked f (ts @ us) = picked f ts @ picked f us"
  by (simp_all add: picked_def)

lemma picked_split: "i < length ts \<Longrightarrow> picked f ts = picked f (take i ts) @ f (ts ! i) @
    picked f (drop (Suc i) ts)"
  by (subst id_take_nth_drop [of i ts]) simp_all

lemma picked_replace:
  "i < length ts \<Longrightarrow> picked f (ts[i := t]) = picked f (take i ts) @ f t @ picked f (drop (Suc i) ts)"
  by (simp add: upd_conv_take_nth_drop)

lemma picked_same: "i < length ts \<Longrightarrow> f t = f (ts ! i) \<Longrightarrow> picked f (ts[i := t]) = picked f ts"
  by (simp add: picked_replace picked_split [of i ts])

lemma picked_update:
  assumes "i < length ts" "f (ts ! i) = [x]" "f t = [y]"
  obtains j where "j < length (picked f ts)" "picked f ts ! j = x" "picked f (ts[i := t]) =
      (picked f ts)[j := y]"
proof
  let ?j = "length (picked f (take i ts))"
  show "?j < length (picked f ts)" "picked f ts ! ?j = x" "picked f (ts[i := t]) = (picked f ts)[?j := y]"
    using assms by (simp_all add: picked_replace picked_split [of i ts f])
qed

lemma picked_remove:
  "i < length ts \<Longrightarrow> mset (picked f ts) = mset (picked f (put_thread i None ts)) + mset (f (ts ! i))"
  by (simp add: put_thread_def picked_split [of i ts f])

section \<open>Unique CAS values, and the history\<close>

fun thread_writing :: "session_manager \<Rightarrow> thread \<Rightarrow> (store_id \<times> session) option" where
  "thread_writing sm (HttpThread msg pc) = task_writing sm pc"
| "thread_writing sm (AnswerThread a pc) = answer_writing pc"
| "thread_writing sm (CrashedThread c) = None"

text \<open>As \<open>cas_unique\<close>, for all threads of the process.\<close>

definition process_cas_unique :: "'w register \<Rightarrow> session_manager \<Rightarrow> 'w io \<Rightarrow> thread list \<Rightarrow> 'w io \<Rightarrow> bool" where
  "process_cas_unique e sm s ts' s' \<longleftrightarrow>
     (\<forall>st key x. session_at e st s' key = Some x \<and> session_at e st s key \<noteq> Some x \<longrightarrow>
        (\<forall>t \<in> set ts'. \<forall>y. thread_key t = Some key \<and> thread_writing sm t = Some (st, y) \<longrightarrow>
           s_cas y \<noteq> s_cas x))"

lemma picked_memD: "x \<in> set (picked f ts) \<Longrightarrow> \<exists>t \<in> set ts. x \<in> set (f t)"
  by (auto simp: picked_def)

lemma process_cas_tasks:
  assumes "process_cas_unique e sm s ts s'" "all_returned old"
  shows "cas_unique e sm s (picked (thread_tasks key) ts @ old) s'"
  unfolding cas_unique_def
proof (intro allI impI ballI, clarify)
  fix st k x msg pc y
  assume x: "session_at e st s' (msg_key msg) = Some x" "session_at e st s (msg_key msg) \<noteq> Some x"
    and t: "(msg, pc) \<in> set (picked (thread_tasks key) ts @ old)" and w: "task_writing sm pc = Some (st, y)"
    and eq: "s_cas y = s_cas x"
  have "(msg, pc) \<notin> set old" using assms(2) w by (force simp: all_returned_def)
  then obtain t where t: "t \<in> set ts" "(msg, pc) \<in> set (thread_tasks key t)"
    using t picked_memD by fastforce
  from t(2) have "t = HttpThread msg pc" by (cases t) (auto split: if_splits)
  then show False using assms(1) x t(1) w eq unfolding process_cas_unique_def by fastforce
qed

lemma process_cas_answers:
  assumes "process_cas_unique e sm s ts s'"
  shows "answer_cas_unique e s (picked (thread_answers key) ts) s'"
  unfolding answer_cas_unique_def
proof (intro allI impI ballI, clarify)
  fix st k x a pc y
  assume x: "session_at e st s' (msg_key (a_msg a)) = Some x" "session_at e st s (msg_key (a_msg a)) \<noteq> Some x"
    and "(a, pc) \<in> set (picked (thread_answers key) ts)" and w: "answer_writing pc = Some (st, y)"
    and eq: "s_cas y = s_cas x"
  then obtain t where t: "t \<in> set ts" "(a, pc) \<in> set (thread_answers key t)"
    using picked_memD by fastforce
  from t(2) have "t = AnswerThread a pc" by (cases t) (auto split: if_splits)
  then show False using assms x t(1) w eq unfolding process_cas_unique_def by fastforce
qed

text \<open>
  The history: session and record number of each ACR that \<open>handle\<close> has passed to the Diameter stack, in
  this order. An ACR that is sent to another CCF after a failure is still the same ACR.
\<close>

type_synonym history = "(string \<times> u32) list"

fun acr_sent :: "thread \<Rightarrow> thread option \<Rightarrow> history" where
  "acr_sent (HttpThread msg pc) (Some (HttpThread _ pc')) = map (Pair (msg_key msg)) (number_sent pc pc')"
| "acr_sent _ _ = []"

definition numbers_for :: "string \<Rightarrow> history \<Rightarrow> u32 list" where
  "numbers_for key h = map snd (filter (\<lambda>p. fst p = key) h)"

lemma numbers_for_simps [simp]:
  "numbers_for key [] = []" "numbers_for key (h @ h') = numbers_for key h @ numbers_for key h'"
  "numbers_for key (map (Pair k) ns) = (if k = key then ns else [])"
  by (simp_all add: numbers_for_def filter_map o_def)

text \<open>Only INTERIMs of the session, and answers to them that do not end it.\<close>

fun interim_thread :: "string \<Rightarrow> thread \<Rightarrow> bool" where
  "interim_thread key (HttpThread msg pc) = (msg_key msg = key \<longrightarrow> isInterim (m_record_type msg))"
| "interim_thread key (AnswerThread a pc) = (msg_key (a_msg a) = key \<longrightarrow>
     isInterim (m_record_type (a_msg a)) \<and> (a_accepted a \<or> a_rc a \<noteq> 5002))"
| "interim_thread key (CrashedThread c) = True"

inductive session_step :: "'w register \<Rightarrow> session_manager \<Rightarrow> ('w \<Rightarrow> 'w \<Rightarrow> bool) \<Rightarrow> string \<Rightarrow>
    thread list \<times> 'w io \<times> history \<Rightarrow> thread list \<times> 'w io \<times> history \<Rightarrow> bool"
  for e sm other key where
  arrives: "arrival (fst e) other (ts, s) (ts', s') \<Longrightarrow> list_all (interim_thread key) ts' \<Longrightarrow>
    session_step e sm other key (ts, s, h) (ts', s', h)"
| thread: "i < length ts \<Longrightarrow> thread_step (fst e) sm (ts ! i, s) = (r, s') \<Longrightarrow>
    process_cas_unique e sm s (put_thread i r ts) s' \<Longrightarrow>
    session_step e sm other key (ts, s, h) (put_thread i r ts, s', h @ acr_sent (ts ! i) r)"

text \<open>These are steps of the process.\<close>

lemma session_step_process:
  "session_step e sm other key (ts, s, h) (ts', s', h') \<Longrightarrow> process_step (fst e) sm other (ts, s) (ts', s')"
  by (auto elim!: session_step.cases intro: process_step.intros)

section \<open>The invariant\<close>

text \<open>
  The tasks of the session are those of the running threads and those that have replied and left.
\<close>

definition numbered :: "'w register \<Rightarrow> session_manager \<Rightarrow> string \<Rightarrow> (store_id \<Rightarrow> u32) \<Rightarrow> thread list \<Rightarrow> 'w io \<Rightarrow>
    history \<Rightarrow> bool" where
  "numbered e sm key n ts s h \<longleftrightarrow> (\<exists>old. all_returned old \<and>
     session_inv e sm key n (numbers_for key h) (picked (thread_tasks key) ts @ old) s) \<and>
     list_all (answer_ok e sm key s) (picked (thread_answers key) ts)"

lemma session_inv_mset:
  assumes "mset ts = mset ts'"
  shows "session_inv e sm key n sent ts s = session_inv e sm key n sent ts' s"
proof -
  have sums: "sum_list (map f ts) = sum_list (map f ts')" for f :: "task \<Rightarrow> 'b :: comm_monoid_add"
    using assms by (metis mset_map sum_mset_sum_list)
  have "set ts = set ts'" using assms by (rule mset_eq_setD)
  then show ?thesis
    by (simp add: session_inv_def number_inv_def copy_inv_def list_all_iff
        sums [of "store_done sm _"] sums [of "\<lambda>t. number_taken (snd t)"])
qed

text \<open>An INTERIM that comes in has written and taken nothing yet.\<close>

lemma session_inv_join:
  assumes "session_inv e sm key n sent ts s"
    and "isInterim (m_record_type msg)" "has_event msg" "msg_key msg = key"
  shows "session_inv e sm key n sent ((msg, GetLocal) # ts) s"
proof -
  have "copy_inv e sm key n ((msg, GetLocal) # ts) s st"
    if "copy_inv e sm key n ts s st" "st \<in> set (all_stores sm)" for st
    using that unfolding copy_inv_def by (auto simp: store_done_def)
  with assms show ?thesis
    by (auto simp: session_inv_def number_inv_def list_all_iff interim_task_def store_done_def)
qed

lemma numbered_view:
  assumes "untouched e key s s'"
  shows "numbered e sm key n ts s' h = numbered e sm key n ts s h"
proof -
  have "session_inv e sm key n sent tks s' = session_inv e sm key n sent tks s" for sent tks
    by (rule session_inv_view) (rule untouched_session_at [OF assms])
  moreover have "answer_ok e sm key s' = answer_ok e sm key s"
    by (rule ext) (simp add: answer_ok_def untouched_session_at [OF assms])
  ultimately show ?thesis by (simp add: numbered_def)
qed

section \<open>Every step keeps the invariant\<close>

lemma numbered_request:
  assumes "billing_accept (fst e) req trail s0 = (r, s)" "list_all (interim_thread key) (ts @
      accepted_threads r)"
    and inv: "numbered e sm key n ts s h"
  shows "numbered e sm key n (ts @ accepted_threads r) s h"
proof (cases "\<exists>msg. r = Some msg \<and> msg_key msg = key")
  case True
  then obtain msg where msg: "r = Some msg" "msg_key msg = key" by blast
  have new: "accepted_threads r = [HttpThread msg (task_start msg)]"
      using msg by (simp add: accepted_threads_def)
  then have kind: "isInterim (m_record_type msg)" using assms(2) msg(2) by simp
  have "has_event msg" using billing_accept_quiet(3) [OF assms(1)] msg(1) by (simp add: wf_message_def)
  moreover obtain old where old: "all_returned old"
    "session_inv e sm key n (numbers_for key h) (picked (thread_tasks key) ts @ old) s"
    using inv by (auto simp: numbered_def)
  ultimately have "session_inv e sm key n (numbers_for key h)
      ((msg, GetLocal) # picked (thread_tasks key) ts @ old) s"
    using session_inv_join kind msg(2) by blast
  then have "session_inv e sm key n (numbers_for key h)
      (picked (thread_tasks key) (ts @ accepted_threads r) @ old) s"
    using kind msg(2) by (subst session_inv_mset [of _ "(msg, GetLocal) # picked (thread_tasks key) ts @ old"])
      (simp_all add: new task_start_def)
  with old(1) inv show ?thesis by (auto simp: numbered_def new)
next
  case False
  with inv show ?thesis by (auto simp: numbered_def accepted_threads_def split: option.splits)
qed

lemma numbered_callback:
  assumes "list_all (interim_thread key) (ts @ callback_threads cb)" "numbered e sm key n ts s h"
  shows "numbered e sm key n (ts @ callback_threads cb) s h"
  using assms by (cases cb) (auto simp: numbered_def answer_ok_def answers_for_def)

lemma numbered_arrival:
  assumes "spares_key e key other" "arrival (fst e) other (ts, s) (ts', s')" "list_all (interim_thread key) ts'"
    and "numbered e sm key n ts s h"
  shows "numbered e sm key n ts' s' h"
proof -
  have inv: "numbered e sm key n ts s' h"
    using assms(4) numbered_view [OF arrival_untouched [OF assms(1,2)]] by blast
  show ?thesis
    using assms(2)
  proof (cases rule: arrival.cases)
    case (request req trail r)
    then show ?thesis using numbered_request [OF request(2)] inv assms(3) by blast
  qed (use numbered_callback inv assms(3) in blast)+
qed

lemma numbered_running:
  assumes ok: "register_ok e" and dist: "distinct (all_stores sm)" and inv: "numbered e sm key n ts s h"
    and i: "i < length ts" "ts ! i = HttpThread msg pc" "msg_key msg = key"
    and step: "task_step (fst e) sm msg (pc, s) = (pc', s')"
    and fresh: "process_cas_unique e sm s (ts[i := HttpThread msg pc']) s'"
  shows "numbered e sm key n (ts[i := HttpThread msg pc']) s' (h @
      acr_sent (ts ! i) (Some (HttpThread msg pc')))"
proof -
  let ?ts' = "ts[i := HttpThread msg pc']"
  obtain old where old: "all_returned old"
    "session_inv e sm key n (numbers_for key h) (picked (thread_tasks key) ts @ old) s"
    using inv by (auto simp: numbered_def)
  obtain j where j: "j < length (picked (thread_tasks key) ts)" "picked (thread_tasks key) ts ! j = (msg, pc)"
    "picked (thread_tasks key) ?ts' = (picked (thread_tasks key) ts)[j := (msg, pc')]"
    by (rule picked_update [OF i(1), of "thread_tasks key" "(msg, pc)" "HttpThread msg pc'" "(msg, pc')"])
       (use i in auto)
  have eq: "picked (thread_tasks key) ?ts' @ old = (picked (thread_tasks key) ts @ old)[j := (msg, pc')]"
    using j by (simp add: list_update_append)
  have "session_inv e sm key n (numbers_for key h @
      number_sent pc pc') (picked (thread_tasks key) ?ts' @ old) s'"
    using session_inv_thread [OF ok dist old(2) _ _ step, of j] process_cas_tasks [OF fresh old(1), of key] j
    unfolding eq by (simp add: nth_append)
  moreover have same: "picked (thread_answers key) ?ts' = picked (thread_answers key) ts"
    by (rule picked_same [OF i(1)]) (simp add: i)
  have "list_all (answer_ok e sm key s') (picked (thread_answers key) ?ts')"
    using answer_ok_others [OF process_cas_answers [OF fresh, of key]] inv same by (simp add: numbered_def)
  ultimately show ?thesis using old(1) i(2,3) by (auto simp: numbered_def)
qed

lemma numbered_answering:
  assumes ok: "register_ok e" "timers_separate e" and inv: "numbered e sm key n ts s h"
    and i: "i < length ts" "ts ! i = AnswerThread a pc" "msg_key (a_msg a) = key"
    and step: "answer_step (fst e) sm a (pc, s) = (pc', s')"
    and fresh: "process_cas_unique e sm s (ts[i := AnswerThread a pc']) s'"
  shows "numbered e sm key n (ts[i := AnswerThread a pc']) s' h"
proof -
  let ?ts' = "ts[i := AnswerThread a pc']"
  obtain old where old: "all_returned old"
    "session_inv e sm key n (numbers_for key h) (picked (thread_tasks key) ts @ old) s"
    using inv by (auto simp: numbered_def)
  obtain j where j: "j < length (picked (thread_answers key) ts)" "picked (thread_answers key) ts ! j = (a, pc)"
    "picked (thread_answers key) ?ts' = (picked (thread_answers key) ts)[j := (a, pc')]"
    by (rule picked_update [OF i(1), of "thread_answers key" "(a, pc)" "AnswerThread a pc'" "(a, pc')"])
       (use i in auto)
  have same: "picked (thread_tasks key) ?ts' = picked (thread_tasks key) ts"
    by (rule picked_same [OF i(1)]) (simp add: i)
  have "list_all (answer_ok e sm key s) (picked (thread_answers key) ts)" using inv by (simp add: numbered_def)
  note kept = session_inv_answer [OF ok old(2) this j(1,2) step]
  show ?thesis
    using kept process_cas_tasks [OF fresh old(1), of key] process_cas_answers [OF fresh,
        of key] old(1) j(3) same
    by (auto simp: numbered_def)
qed

text \<open>A thread that leaves, or that works for another session.\<close>

lemma numbered_leaves:
  assumes "numbered e sm key n ts s h" "i < length ts" "untouched e key s s'"
    and "all_returned (thread_tasks key (ts ! i))"
  shows "numbered e sm key n (put_thread i None ts) s' h"
proof -
  have inv: "numbered e sm key n ts s' h" using numbered_view [OF assms(3)] assms(1) by blast
  then obtain old where old: "all_returned old"
    "session_inv e sm key n (numbers_for key h) (picked (thread_tasks key) ts @ old) s'"
    by (auto simp: numbered_def)
  have "session_inv e sm key n (numbers_for key h)
      (picked (thread_tasks key) (put_thread i None ts) @ thread_tasks key (ts ! i) @ old) s'"
    using old(2) picked_remove [OF assms(2), of "thread_tasks key"]
    by (subst session_inv_mset [of _ "picked (thread_tasks key) ts @ old"]) simp_all
  moreover have "all_returned (thread_tasks key (ts ! i) @ old)"
    using assms(4) old(1) by (auto simp: all_returned_def)
  moreover have "set_mset (mset (picked (thread_answers key) ts)) =
      set_mset (mset (picked (thread_answers key) (put_thread i None ts))) \<union> set (thread_answers key (ts ! i))"
    unfolding picked_remove [OF assms(2), of "thread_answers key"] by simp
  then have "list_all (answer_ok e sm key s') (picked (thread_answers key) (put_thread i None ts))"
    using inv by (auto simp: numbered_def list_all_iff)
  ultimately show ?thesis unfolding numbered_def by blast
qed

lemma numbered_elsewhere:
  assumes "numbered e sm key n ts s h" "i < length ts" "untouched e key s s'"
    and "thread_tasks key t = thread_tasks key (ts ! i)" "thread_answers key t = thread_answers key (ts ! i)"
  shows "numbered e sm key n (put_thread i (Some t) ts) s' h"
  using assms numbered_view [OF assms(3)] picked_same [OF assms(2), of "thread_tasks key" t]
    picked_same [OF assms(2), of "thread_answers key" t]
  by (simp add: numbered_def put_thread_def)

lemma thread_key_none:
  "thread_key t \<noteq> Some key \<Longrightarrow> thread_tasks key t = []" "thread_key t \<noteq> Some key \<Longrightarrow> thread_answers key t = []"
  by (cases t; simp)+

lemma numbered_history: "numbers_for key h' = numbers_for key h \<Longrightarrow> numbered e sm key n ts s h' =
    numbered e sm key n ts s h"
  by (simp add: numbered_def)

text \<open>A thread of the session has not run into undefined behaviour.\<close>

lemma numbered_not_failed:
  assumes "numbered e sm key n ts s h" "i < length ts" "ts ! i = HttpThread msg (Returned (Some c))"
  shows "msg_key msg \<noteq> key"
proof
  assume "msg_key msg = key"
  then have "(msg, Returned (Some c)) \<in> set (picked (thread_tasks key) ts)"
    using assms(2,3) by (force simp: picked_def in_set_conv_nth)
  with assms(1) have "interim_task sm key (msg, Returned (Some c))"
    by (auto simp: numbered_def session_inv_def list_all_iff)
  then show False by (simp add: interim_task_def)
qed

lemma numbered_apart:
  assumes "register_ok e" "timers_separate e" "numbered e sm key n ts s h" "i < length ts"
    and step: "thread_step (fst e) sm (ts ! i, s) = (Some t, s')" and "thread_key (ts ! i) \<noteq> Some key"
  shows "numbered e sm key n (put_thread i (Some t) ts) s' (h @ acr_sent (ts ! i) (Some t))"
proof -
  have "thread_key t \<noteq> Some key" using thread_step_key [OF step] assms(6) by auto
  moreover have "numbers_for key (acr_sent (ts ! i) (Some t)) = []"
      using assms(6) by (cases "ts ! i"; cases t) auto
  ultimately show ?thesis
    using numbered_elsewhere [OF assms(3,4) thread_step_untouched [OF assms(1,2,6) step], of t] assms(6)
    by (subst numbered_history [of key _ h]) (simp_all add: thread_key_none)
qed

lemma numbered_thread:
  assumes ok: "register_ok e" "timers_separate e" and dist: "distinct (all_stores sm)"
    and inv: "numbered e sm key n ts s h" and i: "i < length ts"
    and step: "thread_step (fst e) sm (ts ! i, s) = (r, s')"
        and fresh: "process_cas_unique e sm s (put_thread i r ts) s'"
  shows "numbered e sm key n (put_thread i r ts) s' (h @ acr_sent (ts ! i) r)"
proof -
  have apart: ?thesis if "thread_key (ts ! i) \<noteq> Some key" "r \<noteq> None"
    using numbered_apart [OF ok inv i _ that(1)] step that(2) by auto
  show ?thesis
  proof (cases "ts ! i" rule: thread_cases)
    case (replied msg)
    with step have "r = None" "untouched e key s s'" by (auto simp: untouched_world)
    with numbered_leaves [OF inv i, of s'] replied show ?thesis by (simp add: all_returned_def)
  next
    case (failed msg c)
    with numbered_not_failed [OF inv i, of msg c] step apart show ?thesis by auto
  next
    case (running msg pc)
    obtain pc' where p: "task_step (fst e) sm msg (pc, s) = (pc', s')" "r = Some (HttpThread msg pc')"
      using step running by (auto simp: thread_step_running map_prod_def split: prod.splits)
    show ?thesis
    proof (cases "msg_key msg = key")
      case True
      with numbered_running [OF ok(1) dist inv i running(1) True p(1)] fresh p(2) show ?thesis
        by (simp add: put_thread_def)
    next
      case False
      with apart p(2) running(1) show ?thesis by simp
    qed
  next
    case (answering a pc)
    obtain pc' where p: "answer_step (fst e) sm a (pc, s) = (pc', s')" "r = Some (AnswerThread a pc')"
      using step answering by (auto simp: thread_step_running map_prod_def split: prod.splits)
    show ?thesis
    proof (cases "msg_key (a_msg a) = key")
      case True
      with numbered_answering [OF ok inv i answering(1) True p(1)] fresh p(2) answering(1) show ?thesis
        by (simp add: put_thread_def)
    next
      case False
      with apart p(2) answering(1) show ?thesis by simp
    qed
  next
    case (left a)
    with step have "r = None" "untouched e key s s'" by (auto simp: untouched_world)
    with numbered_leaves [OF inv i, of s'] left show ?thesis by (simp add: all_returned_def)
  next
    case (crashed c)
    with step apart show ?thesis by auto
  qed
qed

lemma numbered_run:
  assumes ok: "register_ok e" "timers_separate e" and dist: "distinct (all_stores sm)"
    and other: "spares_key e key other"
    and "(session_step e sm other key)\<^sup>*\<^sup>* (ts, s, h) (ts', s', h')" "numbered e sm key n ts s h"
  shows "numbered e sm key n ts' s' h'"
proof -
  have "case (ts', s', h') of (ts, s, h) \<Rightarrow> numbered e sm key n ts s h"
    using assms(5)
  proof (induction rule: rtranclp_induct)
    case (step c c')
    from step(2,3) show ?case
      by (cases rule: session_step.cases)
         (auto intro: numbered_arrival [OF other] numbered_thread [OF ok dist])
  qed (use assms(6) in simp)
  then show ?thesis by simp
qed

section \<open>The record numbers of a session\<close>

lemma numbered_start:
  assumes "copies e sm key n s" "\<forall>t \<in> set ts. thread_key t \<noteq> Some key"
  shows "numbered e sm key n ts s []"
proof -
  have none: "picked (thread_tasks key) ts = []" "picked (thread_answers key) ts = []"
    using assms(2) by (induction ts) (simp_all add: thread_key_none)
  have "session_inv e sm key n [] [] s"
    using assms(1) by (auto simp: session_inv_def number_inv_def copy_inv_def copies_def list_all_iff
        numbers_upto_def)
  then show ?thesis unfolding numbered_def none
      by (intro conjI exI [of _ "[]"]) (simp_all add: all_returned_def)
qed

lemma size_numbers_taken: "size (sum_list (map (\<lambda>t. number_taken (snd t)) ts)) \<le> length (ts :: task list)"
proof (induction ts)
  case (Cons t ts)
  have "size (number_taken (snd t)) \<le> 1" by (cases "snd t") auto
  with Cons show ?case by simp
qed simp

lemma numbered_outcome:
  assumes "numbered e sm key n ts s h"
  shows "\<exists>k. k \<le> length (numbers_for key h) + length (picked (thread_tasks key) ts) \<and>
      mset (numbers_for key h) \<subseteq># mset (numbers_upto (n (local_store sm)) k) \<and>
      (picked (thread_tasks key) ts = [] \<longrightarrow> k = length (numbers_for key h) \<and>
         mset (numbers_for key h) = mset (numbers_upto (n (local_store sm)) k) \<and>
         copies e sm key (\<lambda>st. n st + of_nat k) s)"
proof -
  let ?ts = "picked (thread_tasks key) ts" and ?ns = "numbers_for key h"
  obtain old where old: "all_returned old" "session_inv e sm key n ?ns (?ts @ old) s"
    using assms by (auto simp: numbered_def)
  let ?k = "sum_list (map (store_done sm (local_store sm)) (?ts @ old))"
  let ?taken = "sum_list (map (\<lambda>t. number_taken (snd t)) ?ts)"
  have eq: "mset ?ns + ?taken = mset (numbers_upto (n (local_store sm)) ?k)"
    using old all_returned_sums(2) by (simp add: session_inv_def number_inv_def)
  then have "length ?ns + size ?taken = ?k" by (metis length_map length_upt minus_nat.diff_0 numbers_upto_def
        size_mset size_union)
  moreover have "size ?taken \<le> length ?ts" by (rule size_numbers_taken)
  moreover have "copies e sm key (\<lambda>st. n st + of_nat ?k) s" if "?ts = []"
    using old that all_returned_sums(1) [OF old(1)]
    unfolding copies_def session_inv_def list_all_iff copy_inv_def by (metis append_Nil)
  moreover have "mset ?ns \<subseteq># mset (numbers_upto (n (local_store sm)) ?k)" unfolding eq [symmetric] by simp
  ultimately show ?thesis using eq by (intro exI [of _ ?k]) auto
qed

text \<open>
  C4: the process as it runs, with any number of threads for any number of sessions, requests, answers
  and timeouts coming in at any moment. From a moment on at which a session is in every configured
  store with number \<open>n\<close> (in the local one) and no thread works on it, as long as only INTERIMs for
  it come in and no answer ends it: at every moment the numbers of the ACRs sent for it are different
  members of \<open>n + 1, n + 2, ...\<close>, and whenever no request for the session is being served they are
  exactly \<open>n + 1, ..., n + k\<close>, each once, for the \<open>k\<close> ACRs sent, and every store has its number
  advanced by \<open>k\<close> (in 32-bit arithmetic). Threads of other sessions do not matter, and the timer
  identifiers that answers write undo no increment.
\<close>

theorem session_numbered:
  assumes "register_ok e" "timers_separate e" "distinct (all_stores sm)" "spares_key e key other"
    and "copies e sm key n s" "\<forall>t \<in> set ts. thread_key t \<noteq> Some key"
    and "(session_step e sm other key)\<^sup>*\<^sup>* (ts, s, []) (ts', s', h)"
  shows "\<exists>k. k \<le> length (numbers_for key h) + length (picked (thread_tasks key) ts') \<and>
      mset (numbers_for key h) \<subseteq># mset (numbers_upto (n (local_store sm)) k) \<and>
      (picked (thread_tasks key) ts' = [] \<longrightarrow> k = length (numbers_for key h) \<and>
         mset (numbers_for key h) = mset (numbers_upto (n (local_store sm)) k) \<and>
         copies e sm key (\<lambda>st. n st + of_nat k) s')"
  by (rule numbered_outcome [OF numbered_run [OF assms(1-4,7) numbered_start [OF assms(5,6)]]])

section \<open>A concrete run\<close>

lemma task_step_sent:
  assumes "task_step env sm msg (pc, s) = (pc', s')"
  shows "\<exists>ps. pending s' = pending s @ ps \<and> record_numbers ps = number_sent pc pc'"
proof (cases "\<exists>m. pc = SendAcr m")
  case True
  then obtain m where m: "pc = SendAcr m" by blast
  show ?thesis
  proof (cases "send_to_peer env sm m s")
    case (Inr s2)
    with assms m send_to_peer_Inr(6) [OF Inr] show ?thesis
      by (auto simp: record_numbers_def new_RalfTransaction_def)
  qed (use assms m in \<open>auto simp: record_numbers_def\<close>)
next
  case False
  then have none: "number_sent pc pc' = []" by (cases pc) auto
  have "pending s' = pending s" using task_step_pending [OF assms] False by auto
  with none show ?thesis by (simp add: record_numbers_def)
qed

lemma solo_thread:
  assumes ok: "register_ok e" and run: "task_run (fst e) sm msg (pc, s) (pc', s')"
  shows "\<exists>ps. (session_step e sm other key)\<^sup>*\<^sup>* ([HttpThread msg pc], s, h)
      ([HttpThread msg pc'], s', h @ map (Pair (msg_key msg)) (record_numbers ps)) \<and> pending s' =
          pending s @ ps"
proof -
  let ?c = "\<lambda>n. (task_step (fst e) sm msg ^^ n) (pc, s)"
  have "\<exists>ps. (session_step e sm other key)\<^sup>*\<^sup>* ([HttpThread msg pc], s, h)
      ([HttpThread msg (fst (?c n))], snd (?c n), h @ map (Pair (msg_key msg)) (record_numbers ps)) \<and>
      pending (snd (?c n)) = pending s @ ps" for n
  proof (induction n)
    case 0
    show ?case by (rule exI [of _ "[]"]) (simp add: record_numbers_def)
  next
    case (Suc n)
    obtain p1 s1 p2 s2 where c: "?c n = (p1, s1)" "task_step (fst e) sm msg (p1, s1) = (p2, s2)" by fastforce
    from Suc c(1) obtain ps where ps: "(session_step e sm other key)\<^sup>*\<^sup>* ([HttpThread msg pc], s, h)
        ([HttpThread msg p1], s1, h @ map (Pair (msg_key msg)) (record_numbers ps))" "pending s1 =
            pending s @ ps"
      by auto
    show ?case
    proof (cases "p1 \<in> range Returned")
      case True
      with c ps show ?thesis by (intro exI [of _ ps]) auto
    next
      case False
      obtain qs where qs: "pending s2 = pending s1 @ qs" "record_numbers qs = number_sent p1 p2"
        using task_step_sent [OF c(2)] by blast
      have "thread_step (fst e) sm (HttpThread msg p1, s1) = (Some (HttpThread msg p2), s2)"
        using c(2) False by (simp add: thread_step_running)
      moreover have "process_cas_unique e sm s1 [HttpThread msg p2] s2"
        using task_step_holds [OF ok c(2)] by (auto simp: process_cas_unique_def)
      ultimately have "session_step e sm other key ([HttpThread msg p1], s1, h')
          ([HttpThread msg p2], s2, h' @ map (Pair (msg_key msg)) (number_sent p1 p2))" for h'
        using session_step.thread [of 0 "[HttpThread msg p1]" e sm s1 "Some (HttpThread msg p2)"
            s2 other key h']
        by (simp add: put_thread_def)
      from rtranclp.rtrancl_into_rtrancl [OF ps(1) this] c qs ps(2) show ?thesis
        by (intro exI [of _ "ps @ qs"]) (simp add: record_numbers_def)
    qed
  qed
  moreover obtain n where "?c n = (pc', s')" using run by (auto simp: task_run_def)
  ultimately show ?thesis by (metis fst_conv snd_conv)
qed

text \<open>A timer pops for a session with number 7, and its INTERIM is served.\<close>

definition timer_request :: http_request where
  "timer_request = \<lparr>req_method = POST, req_param = (\<lambda>p. if p = TIMER_INTERIM_PARAM then ''true'' else ''''),
     req_file = ''call'', req_rx_body = create_opaque_data ref_env (sample_msg 3)\<rparr>"

lemma timer_accepted:
  obtains msg s where "billing_accept ref_env timer_request 9 race_start = (Some msg, s)"
    "isInterim (m_record_type msg)" "has_event msg" "msg_key msg = create_key ''call'' 0 0" "world s =
        world race_start"
proof -
  have valid: "opaque_valid (sample_msg 3)" by (simp add: opaque_valid_def fits_int32_def)
  have call: "m_call_id (sample_msg 3) = ''call''" by simp
  let ?pop = "body_message ref_env ''call'' True (opaque_json (sample_msg 3)) 9"
  note p = parse_opaque_data [OF ref_env_json(1) valid, of 9, unfolded call]
  obtain s where a: "billing_accept ref_env timer_request 9 race_start = (Some ?pop, s)"
    by (simp add: billing_accept_def timer_request_def p(1) Let_def)
  have "msg_key ?pop = create_key ''call'' 0 0"
    by (simp add: msg_key_def opaque_json_parts json_simps)
  with a p(2) billing_accept_quiet(2,3) [OF a] that show ?thesis by (simp add: wf_message_def)
qed

theorem session_numbered_witness:
  "\<exists>s' k. (session_step ref sample_sm (\<lambda>_ _. False) (create_key ''call'' 0 0))\<^sup>*\<^sup>* ([], race_start, [])
       ([], s', [(create_key ''call'' 0 0, k)]) \<and> k = 8 \<and>
     copies ref sample_sm (create_key ''call'' 0 0) (\<lambda>st. 8) s'"
proof -
  let ?key = "create_key ''call'' 0 0" and ?no = "\<lambda>_ _. False"
  let ?step = "session_step ref sample_sm ?no ?key"
  have spare: "spares_key ref ?key ?no" by (simp add: spares_key_def)
  have dist: "distinct (all_stores sample_sm)" by simp
  obtain msg s1 where m: "billing_accept ref_env timer_request 9 race_start = (Some msg, s1)"
    "isInterim (m_record_type msg)" "has_event msg" "msg_key msg = ?key" "world s1 = world race_start"
    by (rule timer_accepted)
  have start: "task_start msg = GetLocal" using m(2) by (simp add: task_start_def)
  have 1: "?step ([], race_start, []) ([HttpThread msg GetLocal], s1, [])"
    using session_step.arrives [OF arrival.request, of ref timer_request 9 race_start "Some msg" s1 ?key "[]"]
      m(1,2) by (simp add: accepted_threads_def start)
  have copies: "copies ref sample_sm ?key (\<lambda>_. 7) s1"
    using race_start_copies m(5) session_at_world_cong [of ref _ s1 race_start] by (simp add: copies_def)
  obtain s2 t where h: "handle (fst ref) sample_sm msg s1 = Some (Inr s2)" "pending s2 = pending s1 @ [t]"
    using interim_handled [OF ref_register_ok dist copies m(2-4)] by auto
  then have "task_run (fst ref) sample_sm msg (GetLocal, s1) (Returned None, s2)"
    using handle_task_run [OF h(1)] start by (auto simp: task_outcome_def split: option.splits)
  from solo_thread [OF ref_register_ok this, of ?no ?key "[]"] h(2) m(4)
  have 2: "?step\<^sup>*\<^sup>* ([HttpThread msg GetLocal], s1, [])
      ([HttpThread msg (Returned None)], s2, [(?key, m_accounting_record_number (tsx_msg t))])"
    by (auto simp: record_numbers_def)
  let ?s3 = "emit (HttpReply HTTP_OK) s2"
  have 3: "?step ([HttpThread msg (Returned None)], s2, h) ([], ?s3, h)" for h
    using session_step.thread [of 0 "[HttpThread msg (Returned None)]" ref sample_sm s2 None ?s3 ?no ?key h]
    by (simp add: put_thread_def process_cas_unique_def)
  have run: "?step\<^sup>*\<^sup>* ([], race_start, []) ([], ?s3, [(?key, m_accounting_record_number (tsx_msg t))])"
    using 1 rtranclp.rtrancl_into_rtrancl [where r = ?step, OF 2 3] by (rule converse_rtranclp_into_rtranclp)
  from session_numbered [OF ref_register_ok timers_separate_ref dist spare race_start_copies _ run]
  have "[m_accounting_record_number (tsx_msg t)] = [8] \<and> copies ref sample_sm ?key (\<lambda>st. 8) ?s3"
    by (auto simp: numbers_for_def numbers_upto_def)
  with run show ?thesis by auto
qed

end
