(* ===== verification/Spec2Isabelle.thy ===== *)
theory Spec2Isabelle
  imports Ralf_System Rf_Properties Concurrency_Properties Session_Memory Lifecycle_Properties
    Usage_Properties Init_Script_Properties Thread_Memory Session_Numbering
begin

text \<open>
  Ralf is the charging trigger function of Clearwater: it turns HTTP requests from Sprout, Bono
  and the other call-handling nodes into Diameter accounting requests (ACRs) on the Rf
  interface, keeps the billing sessions in memcached-backed stores, one local and one per remote
  site, and asks Chronos for timers that make it send INTERIMs while a call lasts. This
  development models that program, the C++ sources under src/ (whose own subdirectories are
  src/ and include/), and proves what makes it correct.

  \<^bold>\<open>The parts of the program and where they are modelled.\<close>

  \<^item> The HTTP front end, \<open>BillingTask\<close> (src/handlers.cpp, include/handlers.hpp): theory
    Billing_Handler, with \<open>parse_body\<close> and \<open>billing_run\<close>. A request becomes a
    \<open>Message\<close> (include/message.hpp, src/message.cpp: theory Ralf_Message).
  \<^item> The session manager (src/session_manager.cpp, include/session_manager.hpp): theory
    Session_Manager has \<open>handle\<close>, which finds the session, updates the stores and sends the
    ACR; theory Ccf_Response has \<open>on_ccf_response\<close>, which acts on the CCF's answer.
  \<^item> The session store (src/session_store.cpp, include/session_store.h): theory Session_Store,
    with the JSON form of a session, the store keys and the four store operations.
  \<^item> The peer message sender, its factory and the Diameter transaction
    (src/peer_message_sender.cpp, include/peer_message_sender_factory.hpp,
    src/ralf_transaction.cpp): theories Peer_Data (the objects), Peer_Message_Sender
    (\<open>send\<close>) and Ralf_Transaction (\<open>send_cb\<close>, \<open>on_response\<close>, \<open>on_timeout\<close>).
  \<^item> The Rf message set (src/rf.cpp, include/rf.h): theory Rf, an ACR being the list of AVPs its
    constructor adds.
  \<^item> The command line and start-up (src/main.cpp): theory Ralf_Options has the options, their
    defaults and the two passes over the arguments; theory Getopt how the words of the command line
    become options (\<open>getopt_long\<close>); theory Ralf_Usage the help screen; theory Init_Script the words the
    init script (debian/ralf.init.d) starts Ralf with; theory Ralf_Main has the exit paths of
    \<open>main\<close>, the construction of the session manager and its stores, the Chronos configuration
    and the HTTP routes.
  \<^item> The life of the process (src/main.cpp) and its logs (include/ralf_pd_definitions.h): theory
    Ralf_Lifecycle has every object \<open>main\<close> creates, every call it makes on one, the signal
    handlers and the shutdown sequence, as a list of events; theory Pd_Logs has the nine logs.
  \<^item> Threads: theory Task_Steps has \<open>handle\<close> one call at a time (\<open>task_step\<close>) and theory Answer_Steps
    \<open>on_ccf_response\<close> (\<open>answer_step\<close>); theory Ralf_Threads is the process with all its threads, those
    of the HTTP stack and those of the Diameter stack, interleaved (\<open>process_step\<close>); theory
    Concurrent_Tasks has the INTERIMs that race for one session (\<open>race_step\<close>), theory Racing_Answers
    the answers that race with them (\<open>mixed_step\<close>), and theory Session_Numbering finds these threads
    among all threads of the process (\<open>session_step\<close>). Theories Session_Memory and Thread_Memory count
    the \<open>Session\<close>, \<open>BillingTask\<close> and \<open>PeerMessageSender\<close> objects the threads create and delete.
  \<^item> The process at the level of whole tasks: theory Ralf_System, a step relation over HTTP tasks,
    Diameter callbacks and changes of the world.

  \<^bold>\<open>State and effects.\<close> Everything Ralf calls that is not its own code is a field of the record
  \<open>env\<close> of theory World: the \<open>Store\<close>, the Chronos connection, rapidjson's parser and
  writer (the value tree itself is theory Json), the JSON macros of cpp-common, the Diameter
  dictionary. The effectful fields take and return a world of an arbitrary type. The model's
  state \<open>'w io\<close> is that world, the trace of all calls Ralf has made, and the outstanding
  transactions. What a theorem needs to know of the environment it says in named hypotheses:
  \<open>json_text_ok\<close> and \<open>json_macros_ok\<close> (theory Json_Codec), \<open>cas_store\<close> (theory
  Session_Register: a store with compare-and-set and without outages), \<open>timers_separate\<close> (theory
  Manager_Refinement: Chronos does not write to the stores), \<open>contention_bounded\<close> (theory
  Manager_Termination). Theory Reference_Environment has a concrete environment that satisfies
  them, in which every theorem with hypotheses is instantiated.

  \<^bold>\<open>Errors and non-termination.\<close> Undefined behaviour in the C++ (an index outside the CCF list,
  an unset message pointer, a body without an event) is a value of type \<open>crash\<close>. \<open>handle\<close> restarts
  itself when the local store reports contention and its loops over the remote stores repeat an
  iteration in that case, without a bound, so these three are \<open>partial_function (option)\<close> and
  \<open>None\<close> is a call that never returns. Integers keep their width: \<open>uint32_t\<close> is
  \<open>32 word\<close>, and the conversions to and from \<open>int\<close> are written out.

  \<^bold>\<open>Interfaces.\<close> Six locales carry the contracts. \<open>io_operation\<close> (theory World): an operation
  appends effects of certain kinds and leaves the transactions alone; interpreted on the store
  operations and the retrying loops (theory Manager_Lemmas). \<open>doc_codec\<close> (theory Json_Codec): a
  value is written as a JSON text and read back; interpreted on the session record (theory Session_Store)
  and on the opaque data of a timer (theory Timer_Callback). \<open>session_register\<close> (theory
  Session_Register): a store is a register per key with compare-and-set; interpreted on the
  operations of \<open>SessionStore\<close>, from \<open>cas_store\<close> and the JSON round trip. \<open>thread_ledger\<close> and
  \<open>thread_contract\<close> (theory Thread_Accounting): what the step of one thread does to an account or to an
  invariant carries over to a pool of threads; interpreted on \<open>thread_step\<close> for the sessions, tasks
  and senders (theory Thread_Memory) and for the sessions without CCFs (theory Thread_Properties).
  \<open>object_count\<close> (theory Thread_Accounting): objects that live as long as a message, counted in the
  trace; it is a \<open>thread_ledger\<close>, and interpreted on the messages and on the JSON documents.

  \<^bold>\<open>What is proved.\<close>

  \<^item> Theory Store_Properties: the round trip of a session for all 32-bit counters, which records
    are accepted, reads after writes, no lost update under races, the key scheme and where its
    keys run together, the expiry arithmetic.
  \<^item> Theory Manager_Properties (with Manager_Lemmas, Manager_Termination, Manager_Refinement):
    the order of store writes and the ACR in any environment; termination under bounded
    contention; and, over compare-and-set stores, that an INTERIM and a STOP refine the
    abstract ledger \<open>spec_interim\<close> and \<open>spec_stop\<close> (what each store holds for a key). A STOP
    whose session is only in a remote store never returns over such stores; this is proved too.
  \<^item> Theory Response_Properties (with Response_Lemmas, Response_Refinement): the message is freed
    once, which answers touch timers and stores, the refinement of \<open>spec_start\<close>,
    \<open>spec_stop\<close> and \<open>spec_retime\<close>.
  \<^item> Theory Transaction_Properties: answers are dispatched once, and failover visits every CCF
    in order.
  \<^item> Theory Handler_Properties: the messages that are built, one reply per request, the only way
    to undefined behaviour. Theory Timer_Callback: a timer pop addresses its session.
  \<^item> Theory Rf_Properties: record types and the AVPs of an ACR.
  \<^item> Theories Concurrency_Properties and Racing_Answers: the small-step \<open>handle\<close> is the recursive one;
    INTERIMs and answers that race for a session all return within a bound on the number of steps; a
    STOP can be overtaken by an INTERIM that brings its session back; and an INTERIM can make the
    answer before it lose the identifier of its new timer.
  \<^item> Theory Session_Isolation: the entries of a session change only in steps of threads that work for
    it. Theory Session_Numbering: in the running process the INTERIMs of a session get consecutive
    numbers, each once, whatever other threads there are and however requests and answers come in.
  \<^item> Theories Thread_Properties (with Thread_Accounting and Store_Invariant) and Thread_Memory (with
    Session_Memory): under every interleaving of requests, answers and timeouts each message is freed
    once, with its JSON document, or belongs to one outstanding transaction or one thread; every \<open>Session\<close>
    object is deleted, except one for each restart of \<open>handle\<close>; tasks and senders delete themselves,
    once; and over compare-and-set stores no thread runs into undefined behaviour. \<open>on_ccf_response\<close> is
        what its thread does undisturbed, and the thread always
    finishes. Theory Ralf_System: whole tasks are runs of the threads, so all this holds of them too.
  \<^item> Theories Getopt_Properties, Usage_Properties and Init_Script_Properties: options written as words
    are read back; the help screen against the table of options; and the setting with which the init
    script makes Ralf lose its billing realm.
  \<^item> Theory Lifecycle_Properties: \<open>main\<close> uses no object before it is created or after it is
    deleted, on any path; it stops both stacks before it deletes anything, unless that fails; its
    logs agree with what happens; and what it builds is the process of theory Ralf_Main.
  \<^item> Theory Main_Properties: the limits a started process has, its Diameter timeout, that its
    stores are different ones (which the refinements assume), that timer callbacks are routed to
    the billing handler, and the option field that is read uninitialised.
  \<^item> This theory: the records of a session are numbered consecutively, from its START through its
    INTERIMs, across the components.

  \<^bold>\<open>Bounds.\<close> The only fuel is the number of timeouts in \<open>time_out_all\<close> (theory
  Transaction_Properties); one per CCF is enough, and the theorem says so. An answer thread's bound is
  \<open>answer_work\<close> (theory Thread_Properties), which its every step decreases. The bound on racing
  INTERIMs and answers is the potential of theory Racing_Answers, which every step decreases. The parser of the
  reference environment runs with the length of its input as fuel, which its round-trip lemma
  shows to be enough.

  \<^bold>\<open>What is not modelled.\<close> The libraries of cpp-common, freeDiameter, memcached and SAS, which
  are not in the repository: theory Ralf_Lifecycle records the calls \<open>main\<close> makes on their
  objects, not what the calls do, nor what the objects' destructors delete. Debug output and
  the latency statistics; of the init script, everything but the arguments of the daemon. Threads
  interleave between their calls to the stores, to Chronos and to the Diameter stack; the code between
  two such calls works on data of its own. Memory is modelled by counting, for
  messages, JSON documents, sessions, tasks, senders and the objects of \<open>main\<close>; the transactions, which
  the Diameter stack deletes, are the entries of the list of outstanding transactions, and the two JSON
  converters that a \<open>SessionStore\<close> makes in its constructor and deletes in its destructor are not
  counted. The rest of the headers is declarations of what the definitions model.
\<close>

section \<open>The life of a session\<close>

lemma start_sent:
  fixes msg
  assumes "isStart (m_record_type msg)" "m_ccfs msg \<noteq> []" "has_event msg"
  defines "m \<equiv> msg\<lparr>m_accounting_record_number := 1\<rparr>"
  obtains s1 where "handle env sm msg s = Some (Inr s1)" "world s1 = world s"
    "pending s1 = pending s @ [new_RalfTransaction (first_sender sm m) m]"
proof -
  have "\<exists>s1. handle env sm msg s = Some (Inr s1) \<and> world s1 = world s \<and>
      pending s1 = pending s @ [new_RalfTransaction (first_sender sm m) m]"
    using assms(1-3) record_type_exclusive(7,8) [OF assms(1)]
    by (subst handle.simps) (simp add: send_to_peer_cases m_def)
  with that show ?thesis by blast
qed

lemma first_answer_accepted:
  fixes sm m
  assumes "ans_result_code rsp = Some 2001"
  defines "t \<equiv> new_RalfTransaction (first_sender sm m) m"
  shows "on_response env sm t rsp s =
    Inr (on_ccf_response env sm True (u32_of_int (answer_interval rsp)) (answer_session_id rsp) 2001 m
      (answer_logged t rsp s))"
  unfolding t_def
  using assms(1) send_cb_dispatch [of "first_sender sm m" m 2001 env sm]
  by (simp add: on_response_send_cb answer_code_def diameter_codes first_sender_def new_RalfTransaction_def)

text \<open>An accepted START that found the stores empty leaves number 1 in every store.\<close>

lemma start_recorded:
  assumes "register_ok e" "timers_separate e"
    and start: "isStart (m_record_type m)" "m_ccfs m \<noteq> []" "2 * m_session_refresh_time m \<noteq> 0"
      "m_accounting_record_number m = 1"
    and empty: "\<forall>st \<in> set (all_stores sm). entry_absent e st s (msg_key m)"
  shows "recorded (all_stores sm)
    (ledger_of e (on_ccf_response (fst e) sm True n sid 2001 m s) (msg_key m)) 1"
proof -
  obtain i s' where timer: "start_timer (fst e) (effective_interval n m) m
      (sas_log_ccf_response True sid m s) = (i, s')" by fastforce
  have "store_clean e st s (msg_key m)" if "st \<in> set (all_stores sm)" for st
    using bspec [OF empty that] by (simp add: store_clean_def)
  then have l: "ledger_of e (on_ccf_response (fst e) sm True n sid 2001 m s) (msg_key m) =
      spec_start (all_stores sm) (started_session (effective_interval n m) sid i m)
        (ledger_of e s (msg_key m))"
    using start_accepted_refines [OF assms(1,2) _ _ _ timer, of sm 2001] start(1,3) by simp
  have "ledger_of e s (msg_key m) st = None" if "st \<in> set (all_stores sm)" for st
    using reg.absent_contents [OF bspec [OF empty that]] by (simp add: ledger_of_def)
  then show ?thesis
    unfolding l
    using recorded_spec_start [of "started_session (effective_interval n m) sid i m"
        "all_stores sm" "ledger_of e s (msg_key m)"] start
    by (simp add: started_session_def durable_def)
qed

text \<open>
  C1: the records of a session are numbered 1, 2, 3, ... without a gap: a START is sent with
  number 1; once the CCF has accepted it, each INTERIM that follows is sent with the next number
  (in 32-bit arithmetic), and after them every configured store holds the last number sent. This
  is over compare-and-set stores that had no entry for the key before.
\<close>

theorem session_record_numbers:
  assumes "register_ok e" "timers_separate e" "distinct (all_stores sm)"
    and start: "isStart (m_record_type msg)" "m_ccfs msg \<noteq> []" "has_event msg"
      "2 * m_session_refresh_time msg \<noteq> 0"
    and empty: "\<forall>st \<in> set (all_stores sm). entry_absent e st s (msg_key msg)"
    and interims: "\<forall>m \<in> set msgs. isInterim (m_record_type m) \<and> has_event m \<and> msg_key m = msg_key msg"
    and accepted: "ans_result_code rsp = Some 2001"
  shows "\<exists>s1 s2 s3 t ts.
    handle (fst e) sm msg s = Some (Inr s1) \<and> pending s1 = pending s @ [t] \<and>
    on_response (fst e) sm t rsp s1 = Inr s2 \<and>
    handle_all (fst e) sm msgs s2 = Some (Inr s3) \<and> pending s3 = pending s @ t # ts \<and>
    record_numbers (t # ts) = map (\<lambda>i. of_nat (Suc i)) [0..<Suc (length msgs)] \<and>
    recorded (all_stores sm) (ledger_of e s3 (msg_key msg)) (of_nat (Suc (length msgs)))"
proof -
  let ?m = "msg\<lparr>m_accounting_record_number := 1\<rparr>"
  let ?t = "new_RalfTransaction (first_sender sm ?m) ?m"
  obtain s1 where s1: "handle (fst e) sm msg s = Some (Inr s1)" "world s1 = world s"
    "pending s1 = pending s @ [?t]"
    using start(1-3) by (rule start_sent)
  let ?u = "answer_logged ?t rsp s1"
  let ?s2 = "on_ccf_response (fst e) sm True (u32_of_int (answer_interval rsp)) (answer_session_id rsp)
      2001 ?m ?u"
  note r = first_answer_accepted [OF accepted, of "fst e" sm ?m s1]
  have w: "world ?u = world s" using s1(2) by (simp add: answer_logged_def)
  have key: "msg_key ?m = msg_key msg" unfolding msg_key_def by simp
  have "\<forall>st \<in> set (all_stores sm). entry_absent e st ?u (msg_key ?m)"
    using empty w by (simp add: key entry_absent_def)
  then have "recorded (all_stores sm) (ledger_of e ?s2 (msg_key msg)) 1"
    using start_recorded [OF assms(1,2), of ?m sm ?u] start by (simp add: key)
  from handle_all_numbers [OF assms(1,3) this, of msgs] interims obtain s3 ts where
    s3: "handle_all (fst e) sm msgs ?s2 = Some (Inr s3)" "pending s3 = pending ?s2 @ ts"
    "record_numbers ts = map (\<lambda>i. 1 + of_nat (Suc i)) [0..<length msgs]"
    "recorded (all_stores sm) (ledger_of e s3 (msg_key msg)) (1 + of_nat (length msgs))"
    by auto
  have "record_numbers (?t # ts) = map (\<lambda>i. of_nat (Suc i)) [0..<Suc (length msgs)]"
    using s3(3) by (simp add: record_numbers_def new_RalfTransaction_def map_upt_Suc del: upt_Suc)
  moreover have "pending s3 = pending s @ ?t # ts"
    using s3(2) s1(3) by (simp add: answer_logged_def)
  ultimately show ?thesis using s1(1,3) r s3(1,4) by (intro exI conjI) simp_all
qed

theorem session_record_numbers_witness:
  "\<exists>s1 t s2 s3 ts.
    handle ref_env sample_sm (sample_msg 2) empty_io = Some (Inr s1) \<and> pending s1 = [t] \<and>
    on_response ref_env sample_sm t
      \<lparr>ans_result_code = Some 2001, ans_session_id = Some ''sid'', ans_interim_interval = Some 60\<rparr> s1 = Inr s2 \<and>
    handle_all ref_env sample_sm [sample_msg 3, sample_msg 3] s2 = Some (Inr s3) \<and>
    record_numbers (t # ts) = [1, 2, 3]"
  using session_record_numbers [OF ref_register_ok timers_separate_ref, of sample_sm "sample_msg 2" empty_io
      "[sample_msg 3, sample_msg 3]"
      "\<lparr>ans_result_code = Some 2001, ans_session_id = Some ''sid'', ans_interim_interval = Some 60\<rparr>"]
    entry_absent_empty
  by (fastforce simp: msg_key_sample empty_io_def simp del: handle_all.simps)

end
